(* ===== verification/CK_Prelude.thy ===== *)
theory CK_Prelude
  imports Main "HOL-Library.Word"
begin

text \<open>
  Shared vocabulary of the development: the machine integer types, the byte-addressed
  memory with its little-endian 64-bit accesses, \<open>memset\<close>, alignment of addresses, and
  the links of the intrusive free lists that the allocators thread through free memory.
  The lemmas are generic: the component theories use them through the simplifier and
  through the collections \<open>mem_simps\<close> and \<open>align_intros\<close>.
\<close>

unbundle bit_operations_syntax

named_theorems mem_simps \<open>reads of memory after writes\<close>
named_theorems align_intros \<open>alignment of computed addresses\<close>

section \<open>Machine integers\<close>

type_synonym u8 = "8 word"
type_synonym u16 = "16 word"
type_synonym u32 = "32 word"
type_synonym u64 = "64 word"

text \<open>\<open>NULL\<close> is address 0; pointers are 64-bit addresses.\<close>

type_synonym ptr = u64

lemma u64_unat_less [simp]: "unat (a :: u64) < 18446744073709551616"
  using unsigned_less [of a] by (simp add: word_less_nat_alt)

lemma u32_unat_less: "unat (x :: u32) < 2 ^ 32"
  using unsigned_less [where w = x, where 'a = nat] by simp

lemma unat_ucast_u32 [simp]: "unat (ucast (x :: u32) :: u64) = unat x"
  by (simp add: unsigned_ucast_eq take_bit_nat_eq_self_iff) (use u32_unat_less [of x] in simp)

lemma sint_u32_nat: "k < 2 ^ 31 \<Longrightarrow> sint (word_of_nat k :: u32) = int k"
  by (simp add: signed_of_nat take_bit_nat_eq_self_iff signed_take_bit_int_eq_self_iff)

lemma bit_word_less: "bit (w :: 'a::len word) n \<Longrightarrow> n < LENGTH('a)"
  by (simp add: bit_imp_le_length)

lemma unat_add_small:
  "unat (a :: u64) + unat b < 2 ^ 64 \<Longrightarrow> unat (a + b) = unat a + unat b"
  by (simp add: unat_word_ariths)

lemma unat_add_of_nat:
  assumes "unat (a :: u64) + n < 2 ^ 64" shows "unat (a + of_nat n) = unat a + n"
proof -
  have "unat (of_nat n :: u64) = n" using assms by (simp add: unat_of_nat)
  then show ?thesis using assms by (simp add: unat_add_small)
qed

section \<open>Lists indexed by number\<close>

lemma in_set_tlD: "x \<in> set (tl xs) \<Longrightarrow> x \<in> set xs"
  by (cases xs) auto

section \<open>Byte-addressed memory\<close>

type_synonym memory = "ptr \<Rightarrow> u8"

definition load64 :: "memory \<Rightarrow> ptr \<Rightarrow> u64" where
  "load64 m a =
     ucast (m a) OR push_bit 8 (ucast (m (a + 1))) OR push_bit 16 (ucast (m (a + 2))) OR
     push_bit 24 (ucast (m (a + 3))) OR push_bit 32 (ucast (m (a + 4))) OR
     push_bit 40 (ucast (m (a + 5))) OR push_bit 48 (ucast (m (a + 6))) OR
     push_bit 56 (ucast (m (a + 7)))"

definition store64 :: "memory \<Rightarrow> ptr \<Rightarrow> u64 \<Rightarrow> memory" where
  "store64 m a v =
     (\<lambda>x. if unat (x - a) < 8 then ucast (drop_bit (8 * unat (x - a)) v) else m x)"

text \<open>\<open>memset(p, c, n)\<close>: the \<open>n\<close> bytes from \<open>p\<close> become \<open>c\<close>.\<close>

definition mem_set :: "memory \<Rightarrow> ptr \<Rightarrow> u8 \<Rightarrow> u64 \<Rightarrow> memory" where
  "mem_set m p c n = (\<lambda>x. if x - p < n then c else m x)"

lemma bit_load64:
  "bit (load64 m a) n \<longleftrightarrow> n < 64 \<and> bit (m (a + word_of_nat (n div 8))) (n mod 8)"
proof (cases "n < 64")
  case True
  then have "n = 8 * (n div 8) + n mod 8" "n mod 8 < 8" "n div 8 < 8" by auto
  then obtain q r where n: "n = 8 * q + r" and r: "r < 8" and q: "q < 8" by blast
  have not8: "\<not> bit (b :: u8) k" if "8 \<le> k" for b k
    using bit_word_less [of b k] that by auto
  from n r have qr: "n div 8 = q" "n mod 8 = r" by auto
  from q have "q = 0 \<or> q = 1 \<or> q = 2 \<or> q = 3 \<or> q = 4 \<or> q = 5 \<or> q = 6 \<or> q = 7" by auto
  then show ?thesis
    unfolding qr using r by (elim disjE) (simp_all add: n load64_def bit_simps not8)
next
  case False
  then show ?thesis using bit_word_less [of "load64 m a" n] by auto
qed

lemma load64_cong:
  "(\<And>i. i < 8 \<Longrightarrow> m (a + word_of_nat i) = m' (a + word_of_nat i)) \<Longrightarrow> load64 m a = load64 m' a"
  by (rule bit_word_eqI) (auto simp: bit_load64)

lemma load64_store64_same [simp, mem_simps]: "load64 (store64 m a v) a = v"
  by (rule bit_word_eqI) (auto simp: bit_load64 store64_def bit_simps unat_of_nat)

section \<open>Alignment\<close>

definition aligned :: "nat \<Rightarrow> ptr \<Rightarrow> bool" where
  "aligned n a \<longleftrightarrow> take_bit n a = 0"

lemma aligned_iff_dvd: "aligned n a \<longleftrightarrow> 2 ^ n dvd unat a"
  by (simp add: aligned_def) (metis dvd_eq_mod_eq_0 take_bit_nat_def unat_eq_zero unsigned_take_bit_eq)

lemma aligned_mono: "\<lbrakk>aligned n a; k \<le> n\<rbrakk> \<Longrightarrow> aligned k a"
  by (metis aligned_iff_dvd dvd_trans le_imp_power_dvd)

lemma aligned_diff_dvd:
  assumes "aligned n a" "aligned n b" "n \<le> 64"
  shows "2 ^ n dvd unat (b - a)"
proof -
  have "(2::nat) ^ n dvd 2 ^ 64" using assms(3) by (rule le_imp_power_dvd)
  then show ?thesis
    using assms(1,2) by (auto simp: aligned_iff_dvd unat_sub_if_size word_size intro: dvd_diff_nat)
qed

lemma aligned_add [align_intros]:
  assumes "aligned n a" "aligned n b" "n \<le> 64"
  shows "aligned n (a + b)"
proof -
  have "(2::nat) ^ n dvd 2 ^ 64" using assms(3) by (rule le_imp_power_dvd)
  with assms(1,2) show ?thesis
    by (simp add: aligned_iff_dvd unat_word_ariths dvd_mod)
qed

text \<open>Two distinct \<open>2 ^ n\<close>-aligned addresses are at least \<open>2 ^ n\<close> bytes apart.\<close>

lemma aligned_offset_disjoint:
  assumes "aligned n a" "aligned n b" "a \<noteq> b" "n \<le> 64" "i < 2 ^ n"
  shows "2 ^ n \<le> unat (b + word_of_nat i - a)"
proof -
  let ?d = "b - a"
  have dvd: "2 ^ n dvd unat ?d" using assms(1,2,4) by (rule aligned_diff_dvd)
  have "unat ?d \<noteq> 0" using assms(3) by (simp add: unat_eq_0)
  with dvd have ge: "2 ^ n \<le> unat ?d" by (simp add: dvd_imp_le)
  have "(2::nat) ^ n dvd 2 ^ 64" using assms(4) by (rule le_imp_power_dvd)
  then have "2 ^ n dvd 2 ^ 64 - unat ?d" using dvd by (rule dvd_diff_nat)
  moreover have "unat ?d < 2 ^ 64" by simp
  ultimately have "2 ^ n \<le> 2 ^ 64 - unat ?d" by (simp add: dvd_imp_le)
  with assms(5) have le: "unat ?d + i < 2 ^ 64" by simp
  then have "i < 2 ^ 64" by simp
  with le have "unat (?d + word_of_nat i) = unat ?d + i"
    by (simp add: unat_word_ariths unat_of_nat)
  with ge show ?thesis by (simp add: algebra_simps)
qed

lemma load64_store64_other [mem_simps]:
  assumes "aligned 3 a" "aligned 3 b" "a \<noteq> b"
  shows "load64 (store64 m a v) b = load64 m b"
proof (rule load64_cong)
  fix i :: nat assume "i < 8"
  with assms have "8 \<le> unat (b + word_of_nat i - a)"
    using aligned_offset_disjoint [of 3 a b i] by simp
  then show "store64 m a v (b + word_of_nat i) = m (b + word_of_nat i)"
    by (simp add: store64_def)
qed

lemma bit_u64_less: "bit (a :: u64) k \<Longrightarrow> k < 64"
  using bit_word_less [of a k] by simp

lemma aligned_bit: "aligned n a \<Longrightarrow> k < n \<Longrightarrow> \<not> bit a k"
  unfolding aligned_def by (metis bit_0_eq bit_take_bit_iff bot_apply bot_bool_def)

lemma aligned_iff_bits: "aligned n a \<longleftrightarrow> (\<forall>k<n. \<not> bit a k)"
proof
  show "\<forall>k<n. \<not> bit a k" if "aligned n a" using that aligned_bit by blast
  show "aligned n a" if "\<forall>k<n. \<not> bit a k"
    unfolding aligned_def by (rule bit_word_eqI) (use that in \<open>auto simp: bit_simps\<close>)
qed

lemma aligned_room:
  assumes "aligned n a" "n \<le> 64" shows "unat a + 2 ^ n \<le> 2 ^ 64"
proof -
  have "(2::nat) ^ n dvd 2 ^ 64 - unat a"
    using assms by (intro dvd_diff_nat) (simp_all only: aligned_iff_dvd le_imp_power_dvd)
  moreover have lt: "unat a < 2 ^ 64" by simp
  ultimately have "2 ^ n \<le> 2 ^ 64 - unat a" by (simp add: dvd_imp_le)
  then show ?thesis using lt by linarith
qed

lemma aligned_cell_page:
  assumes "aligned 3 p" "i < 8"
  shows "unat (p + word_of_nat i) div 4096 = unat p div 4096"
proof -
  obtain k where k: "unat p = 8 * k" using assms(1) by (auto simp: aligned_iff_dvd)
  have "unat p + i < 2 ^ 64" using aligned_room [OF assms(1)] assms(2) by simp
  then have "unat (p + word_of_nat i) = 8 * k + i"
    using assms(2) k by (simp add: unat_word_ariths unat_of_nat)
  then have "unat (p + word_of_nat i) div 4096 = (8 * k + i) div 8 div 512" by (simp add: div_mult2_eq [symmetric])
  also have "\<dots> = k div 512" using assms(2) by simp
  also have "\<dots> = unat p div 4096" using k by (simp add: div_mult2_eq [symmetric])
  finally show ?thesis .
qed

lemma store64_outside:
  assumes "aligned 3 p" "unat a div 4096 \<noteq> unat p div 4096"
  shows "store64 m p v a = m a"
proof (cases "unat (a - p) < 8")
  case True
  then have "unat (p + word_of_nat (unat (a - p))) div 4096 = unat p div 4096" by (rule aligned_cell_page [OF assms(1)])
  with assms(2) show ?thesis by simp
qed (simp add: store64_def)

lemma xor_unset_bit:
  fixes p :: u64
  assumes "\<not> bit p n" shows "p XOR 2 ^ n = p + 2 ^ n"
proof -
  have "p AND 2 ^ n = 0"
    by (rule bit_word_eqI) (use assms in \<open>auto simp: bit_simps\<close>)
  then show ?thesis by (simp add: disjunctive_add_eq_xor)
qed

lemma unat_exp: "n < 64 \<Longrightarrow> unat (2 ^ n :: u64) = 2 ^ n"
proof -
  assume "n < 64"
  then have "(2::nat) ^ n < 2 ^ 64" by (rule power_strict_increasing) simp
  moreover have "(2 ^ n :: u64) = word_of_nat (2 ^ n)" by simp
  ultimately show ?thesis by (simp only: unat_of_nat) simp
qed

lemma unat_add_bit:
  assumes "aligned (Suc n) q" "n < 64"
  shows "unat (q + 2 ^ n) = unat q + 2 ^ n"
proof -
  have u: "unat (2 ^ n :: u64) = 2 ^ n"
    using assms(2) by (rule unat_exp)
  have "unat q + 2 ^ Suc n \<le> 2 ^ 64" using assms by (intro aligned_room) auto
  moreover have "(2::nat) ^ n < 2 ^ Suc n" by simp
  ultimately have "unat q + 2 ^ n < 2 ^ 64" by linarith
  then show ?thesis using u by (simp add: unat_word_ariths)
qed

section \<open>Linked lists through memory\<close>

text \<open>
  \<open>chain m n p\<close> lists the first \<open>n\<close> nodes met from \<open>p\<close> when the first word of each node
  is the address of the next one.
\<close>

fun chain :: "memory \<Rightarrow> nat \<Rightarrow> ptr \<Rightarrow> ptr list" where
  "chain m 0 p = []"
| "chain m (Suc n) p = p # chain m n (load64 m p)"

lemma length_chain [simp]: "length (chain m n p) = n"
  by (induction n arbitrary: p) auto

lemma chain_unfold: "0 < n \<Longrightarrow> chain m n p = p # chain m (n - 1) (load64 m p)"
  by (cases n) auto

text \<open>A write to a word that no node of the list starts with leaves the list as it is.\<close>

lemma chain_cong:
  "(\<And>q. q \<in> set (chain m n p) \<Longrightarrow> load64 m' q = load64 m q) \<Longrightarrow> chain m' n p = chain m n p"
  by (induction n arbitrary: p) auto

lemma chain_store64 [mem_simps]:
  assumes "aligned 3 a" "a \<notin> set (chain m n p)" "\<And>q. q \<in> set (chain m n p) \<Longrightarrow> aligned 3 q"
  shows "chain (store64 m a v) n p = chain m n p"
  using assms by (intro chain_cong) (auto intro: load64_store64_other)

fun chain_end :: "memory \<Rightarrow> nat \<Rightarrow> ptr \<Rightarrow> ptr" where
  "chain_end m 0 p = p"
| "chain_end m (Suc n) p = chain_end m n (load64 m p)"

lemma chain_end_unfold: "0 < n \<Longrightarrow> chain_end m n p = chain_end m (n - 1) (load64 m p)"
  by (cases n) auto

lemma chain_end_cong:
  "(\<And>q. q \<in> set (chain m n p) \<Longrightarrow> load64 m' q = load64 m q) \<Longrightarrow> chain_end m' n p = chain_end m n p"
  by (induction n arbitrary: p) auto

section \<open>Arrays\<close>

text \<open>Copying elements into an array from index \<open>k\<close> on.\<close>

definition copy_at :: "nat \<Rightarrow> 'a list \<Rightarrow> 'a list \<Rightarrow> 'a list" where
  "copy_at k xs arr = take k arr @ xs @ drop (k + length xs) arr"

lemma copy_at_facts:
  assumes "k + length xs \<le> length arr"
  shows "length (copy_at k xs arr) = length arr" "take (k + length xs) (copy_at k xs arr) = take k arr @ xs"
  using assms by (simp_all add: copy_at_def)

end
