(* ===== verification/CK_KernelH.thy ===== *)
theory CK_KernelH
  imports CK_Prelude
begin

text \<open>
  The kernel-wide header \<open>src/kernel/include/kernel.h\<close>: status codes, the EFI memory
  descriptor as it lies in memory, IPC messages, thread states and priorities, the
  alignment macros, the atomic counters and the bit operations.
\<close>

section \<open>Status codes\<close>

definition CK_SUCCESS :: int where "CK_SUCCESS = 0"
definition CK_ERROR :: int where "CK_ERROR = -1"
definition CK_ERROR_INVALID_ARG :: int where "CK_ERROR_INVALID_ARG = -2"
definition CK_ERROR_NO_MEMORY :: int where "CK_ERROR_NO_MEMORY = -3"
definition CK_ERROR_NOT_FOUND :: int where "CK_ERROR_NOT_FOUND = -4"
definition CK_ERROR_ALREADY_EXISTS :: int where "CK_ERROR_ALREADY_EXISTS = -5"
definition CK_ERROR_BUSY :: int where "CK_ERROR_BUSY = -6"
definition CK_ERROR_TIMEOUT :: int where "CK_ERROR_TIMEOUT = -7"
definition CK_ERROR_ACCESS_DENIED :: int where "CK_ERROR_ACCESS_DENIED = -8"
definition CK_ERROR_NOT_SUPPORTED :: int where "CK_ERROR_NOT_SUPPORTED = -9"
definition CK_ERROR_OVERFLOW :: int where "CK_ERROR_OVERFLOW = -10"
definition CK_ERROR_UNDERFLOW :: int where "CK_ERROR_UNDERFLOW = -11"

lemmas status_defs =
  CK_SUCCESS_def CK_ERROR_def CK_ERROR_INVALID_ARG_def CK_ERROR_NO_MEMORY_def
  CK_ERROR_NOT_FOUND_def CK_ERROR_ALREADY_EXISTS_def CK_ERROR_BUSY_def CK_ERROR_TIMEOUT_def
  CK_ERROR_ACCESS_DENIED_def CK_ERROR_NOT_SUPPORTED_def CK_ERROR_OVERFLOW_def
  CK_ERROR_UNDERFLOW_def

section \<open>EFI memory descriptors\<close>

definition EfiConventionalMemory :: u32 where "EfiConventionalMemory = 7"

record efi_memory_descriptor_t =
  type :: u32
  physical_start :: ptr
  virtual_start :: ptr
  num_pages :: u64
  attribute :: u64

definition load32 :: "memory \<Rightarrow> ptr \<Rightarrow> u32" where
  "load32 m a =
     ucast (m a) OR push_bit 8 (ucast (m (a + 1))) OR push_bit 16 (ucast (m (a + 2))) OR
     push_bit 24 (ucast (m (a + 3)))"

text \<open>
  The descriptor at an address, with the x86-64 layout of the struct: the 32-bit type is
  padded to 8 bytes, the four 64-bit fields follow.
\<close>

definition read_desc :: "memory \<Rightarrow> ptr \<Rightarrow> efi_memory_descriptor_t" where
  "read_desc m a =
     \<lparr>type = load32 m a,
      physical_start = load64 m (a + 8),
      virtual_start = load64 m (a + 16),
      num_pages = load64 m (a + 24),
      attribute = load64 m (a + 32)\<rparr>"

section \<open>IPC messages\<close>

definition IPC_MESSAGE_MAX_SIZE :: nat where "IPC_MESSAGE_MAX_SIZE = 4096"

record ipc_message_t =
  sender :: u64
  receiver :: u64
  msg_type :: u32
  msg_flags :: u32
  data_size :: u64
  data :: "u8 list"

section \<open>Thread states and priorities\<close>

datatype thread_state_t =
    THREAD_STATE_UNUSED
  | THREAD_STATE_READY
  | THREAD_STATE_RUNNING
  | THREAD_STATE_BLOCKED
  | THREAD_STATE_SLEEPING
  | THREAD_STATE_ZOMBIE

datatype thread_priority_t =
    PRIORITY_IDLE
  | PRIORITY_LOW
  | PRIORITY_NORMAL
  | PRIORITY_HIGH
  | PRIORITY_REALTIME

fun priority_value :: "thread_priority_t \<Rightarrow> nat" where
  "priority_value PRIORITY_IDLE = 0"
| "priority_value PRIORITY_LOW = 1"
| "priority_value PRIORITY_NORMAL = 2"
| "priority_value PRIORITY_HIGH = 3"
| "priority_value PRIORITY_REALTIME = 4"

lemma priority_value_inj [simp]: "priority_value p = priority_value q \<longleftrightarrow> p = q"
  by (cases p; cases q) auto

lemma priority_value_less [simp]: "priority_value p < 5"
  by (cases p) auto

text \<open>C compares enumerators by their values; the order on priorities is that order.\<close>

instantiation thread_priority_t :: linorder
begin

definition less_eq_thread_priority_t :: "thread_priority_t \<Rightarrow> thread_priority_t \<Rightarrow> bool" where
  "less_eq_thread_priority_t p q \<longleftrightarrow> priority_value p \<le> priority_value q"

definition less_thread_priority_t :: "thread_priority_t \<Rightarrow> thread_priority_t \<Rightarrow> bool" where
  "less_thread_priority_t p q \<longleftrightarrow> priority_value p < priority_value q"

instance
  by standard (auto simp: less_eq_thread_priority_t_def less_thread_priority_t_def)

end

section \<open>Alignment macros\<close>

definition ALIGN_UP :: "u64 \<Rightarrow> u64 \<Rightarrow> u64" where
  "ALIGN_UP x align = (x + (align - 1)) AND NOT (align - 1)"

definition ALIGN_DOWN :: "u64 \<Rightarrow> u64 \<Rightarrow> u64" where
  "ALIGN_DOWN x align = x AND NOT (align - 1)"

section \<open>Atomic counters\<close>

text \<open>
  An \<open>atomic_t\<close> is its signed 64-bit counter. Each operation is one locked instruction;
  the model gives the value it returns (where it returns one) and the new counter.
\<close>

type_synonym atomic_t = u64

definition atomic_read :: "atomic_t \<Rightarrow> u64" where "atomic_read a = a"
definition atomic_set :: "u64 \<Rightarrow> atomic_t" where "atomic_set v = v"
definition atomic_add :: "u64 \<Rightarrow> atomic_t \<Rightarrow> atomic_t" where "atomic_add i a = a + i"
definition atomic_sub :: "u64 \<Rightarrow> atomic_t \<Rightarrow> atomic_t" where "atomic_sub i a = a - i"
definition atomic_inc :: "atomic_t \<Rightarrow> u64 \<times> atomic_t" where "atomic_inc a = (a + 1, a + 1)"
definition atomic_dec :: "atomic_t \<Rightarrow> u64 \<times> atomic_t" where "atomic_dec a = (a - 1, a - 1)"

definition atomic_cmpxchg :: "atomic_t \<Rightarrow> u64 \<Rightarrow> u64 \<Rightarrow> u64 \<times> atomic_t" where
  "atomic_cmpxchg a old_val new_val = (a, if a = old_val then new_val else a)"

lemmas atomic_defs =
  atomic_read_def atomic_set_def atomic_add_def atomic_sub_def atomic_inc_def atomic_dec_def

section \<open>Bit operations\<close>

text \<open>
  \<open>bts\<close>, \<open>btr\<close> and \<open>bt\<close> with a memory operand address a bit string: bit \<open>nr\<close> is bit
  \<open>nr mod 64\<close> of the quadword \<open>nr div 64\<close> quadwords away, also for a negative \<open>nr\<close>.
  \<open>sbb\<close> turns the carry flag into 0 or -1.
\<close>

definition bit_cell :: "int \<Rightarrow> ptr \<Rightarrow> ptr" where
  "bit_cell nr addr = addr + word_of_int (8 * (nr div 64))"

definition bit_index :: "int \<Rightarrow> nat" where
  "bit_index nr = nat (nr mod 64)"

definition set_bit_mem :: "int \<Rightarrow> ptr \<Rightarrow> memory \<Rightarrow> memory" where
  "set_bit_mem nr addr m =
     store64 m (bit_cell nr addr) (load64 m (bit_cell nr addr) OR push_bit (bit_index nr) 1)"

definition clear_bit :: "int \<Rightarrow> ptr \<Rightarrow> memory \<Rightarrow> memory" where
  "clear_bit nr addr m =
     store64 m (bit_cell nr addr) (load64 m (bit_cell nr addr) AND NOT (push_bit (bit_index nr) 1))"

definition test_bit :: "int \<Rightarrow> ptr \<Rightarrow> memory \<Rightarrow> int" where
  "test_bit nr addr m = (if bit (load64 m (bit_cell nr addr)) (bit_index nr) then -1 else 0)"

definition test_and_set_bit :: "int \<Rightarrow> ptr \<Rightarrow> memory \<Rightarrow> int \<times> memory" where
  "test_and_set_bit nr addr m = (test_bit nr addr m, set_bit_mem nr addr m)"

definition test_and_clear_bit :: "int \<Rightarrow> ptr \<Rightarrow> memory \<Rightarrow> int \<times> memory" where
  "test_and_clear_bit nr addr m = (test_bit nr addr m, clear_bit nr addr m)"

end
