(* ===== verification/CK_Frame.thy ===== *)
theory CK_Frame
  imports CK_KernelH
begin

text \<open>
  The physical frame allocator \<open>src/kernel/memory/frame_alloc.c\<close>: a buddy system over
  three zones. A free block of order \<open>k\<close> is \<open>2 ^ k\<close> contiguous pages; the free blocks of
  one order are linked through the first word of each block, and \<open>nr_free\<close> counts them.
  State outside the C arrays is the byte memory itself, since the links live in it.
\<close>

section \<open>Data\<close>

definition PAGE_SIZE :: u64 where "PAGE_SIZE = 4096"
definition PAGE_SHIFT :: nat where "PAGE_SHIFT = 12"
definition MAX_ORDER :: u64 where "MAX_ORDER = 11"
definition NR_FREE_AREA :: u64 where "NR_FREE_AREA = 12"
definition MAX_ZONES :: int where "MAX_ZONES = 3"
definition ZONE_DMA :: int where "ZONE_DMA = 0"
definition ZONE_NORMAL :: int where "ZONE_NORMAL = 1"
definition ZONE_HIGHMEM :: int where "ZONE_HIGHMEM = 2"

record free_area_t =
  nr_free :: u64
  free_list :: ptr

record zone_t =
  free_area :: "free_area_t list"
  zone_start_pfn :: u64
  zone_size :: u64
  bitmap :: ptr
  bitmap_size :: u64

record frame_state =
  g_zones :: "zone_t list"
  g_total_pages :: u64
  g_free_pages :: u64
  mem :: memory

text \<open>The static data before any call: all zeroes.\<close>

definition zone_zero :: zone_t where
  "zone_zero =
     \<lparr>free_area = replicate 12 \<lparr>nr_free = 0, free_list = 0\<rparr>,
      zone_start_pfn = 0, zone_size = 0, bitmap = 0, bitmap_size = 0\<rparr>"

definition frame_boot :: "memory \<Rightarrow> frame_state" where
  "frame_boot m =
     \<lparr>g_zones = replicate 3 zone_zero, g_total_pages = 0, g_free_pages = 0, mem = m\<rparr>"

section \<open>Bitmaps\<close>

text \<open>A \<open>uint64_t\<close> array; an index outside it is undefined, \<open>None\<close>.\<close>

definition bitmap_set :: "u64 list \<Rightarrow> u64 \<Rightarrow> u64 list option" where
  "bitmap_set bm b =
     (let i = unat (b div 64) in
      if i < length bm then Some (bm[i := bm ! i OR push_bit (unat (b mod 64)) 1]) else None)"

definition bitmap_clear :: "u64 list \<Rightarrow> u64 \<Rightarrow> u64 list option" where
  "bitmap_clear bm b =
     (let i = unat (b div 64) in
      if i < length bm then Some (bm[i := bm ! i AND NOT (push_bit (unat (b mod 64)) 1)])
      else None)"

definition bitmap_test :: "u64 list \<Rightarrow> u64 \<Rightarrow> u64 option" where
  "bitmap_test bm b =
     (let i = unat (b div 64) in
      if i < length bm then Some (drop_bit (unat (b mod 64)) (bm ! i) AND 1) else None)"

text \<open>
  The inner loop returns the first clear bit of a word, the outer loop skips full words.
  The result \<open>i * 64 + j\<close> is converted to a 32-bit \<open>int\<close>.
\<close>

fun find_zero_bit :: "u64 \<Rightarrow> nat \<Rightarrow> nat \<Rightarrow> nat option" where
  "find_zero_bit w j 0 = None"
| "find_zero_bit w j (Suc n) =
     (if drop_bit j w AND 1 = 0 then Some j else find_zero_bit w (Suc j) n)"

fun find_zero_word :: "u64 list \<Rightarrow> nat \<Rightarrow> nat option" where
  "find_zero_word [] i = None"
| "find_zero_word (w # ws) i =
     (if w = 0xFFFFFFFFFFFFFFFF then find_zero_word ws (Suc i)
      else case find_zero_bit w 0 64 of
             Some j \<Rightarrow> Some (i * 64 + j)
           | None \<Rightarrow> find_zero_word ws (Suc i))"

definition bitmap_find_zero :: "u64 list \<Rightarrow> u64 \<Rightarrow> u64 \<Rightarrow> int option" where
  "bitmap_find_zero bm sz n =
     (if unat sz \<le> length bm
      then Some (case find_zero_word (take (unat sz) bm) 0 of
                   Some k \<Rightarrow> sint (word_of_nat k :: u32)
                 | None \<Rightarrow> -1)
      else None)"

section \<open>Buddies\<close>

definition get_buddy :: "ptr \<Rightarrow> u64 \<Rightarrow> ptr" where
  "get_buddy page order =
     (let pfn = drop_bit PAGE_SHIFT page;
          buddy_pfn = pfn XOR push_bit (unat order) 1
      in push_bit PAGE_SHIFT buddy_pfn)"

section \<open>Initialisation from the EFI memory map\<close>

definition get_area :: "'a frame_state_scheme \<Rightarrow> nat \<Rightarrow> u64 \<Rightarrow> free_area_t" where
  "get_area s z order = free_area (g_zones s ! z) ! unat order"

definition set_area ::
  "nat \<Rightarrow> u64 \<Rightarrow> free_area_t \<Rightarrow> 'a frame_state_scheme \<Rightarrow> 'a frame_state_scheme" where
  "set_area z order a s =
     s\<lparr>g_zones := (g_zones s)[z := (g_zones s ! z)
          \<lparr>free_area := (free_area (g_zones s ! z))[unat order := a]\<rparr>]\<rparr>"

definition add_region ::
  "efi_memory_descriptor_t \<Rightarrow> 'a frame_state_scheme \<Rightarrow> 'a frame_state_scheme" where
  "add_region desc s =
     (if type desc = EfiConventionalMemory then
        (let start_pfn = drop_bit PAGE_SHIFT (physical_start desc);
             np = num_pages desc;
             zone_idx = (if physical_start desc < 0x10000000 then ZONE_DMA else ZONE_NORMAL);
             zone = g_zones s ! nat zone_idx;
             zone1 = (if zone_start_pfn zone = 0 then zone\<lparr>zone_start_pfn := start_pfn\<rparr> else zone);
             zone2 = zone1\<lparr>zone_size := zone_size zone1 + np\<rparr>
         in s\<lparr>g_zones := (g_zones s)[nat zone_idx := zone2],
              g_total_pages := g_total_pages s + np,
              g_free_pages := g_free_pages s + np\<rparr>)
      else s)"

fun add_regions :: "nat \<Rightarrow> ptr \<Rightarrow> u64 \<Rightarrow> 'a frame_state_scheme \<Rightarrow> 'a frame_state_scheme" where
  "add_regions 0 desc desc_size s = s"
| "add_regions (Suc n) desc desc_size s =
     add_regions n (desc + desc_size) desc_size (add_region (read_desc (mem s) desc) s)"

text \<open>The two nested loops that reset every free area of every zone.\<close>

definition clear_free_lists :: "'a frame_state_scheme \<Rightarrow> 'a frame_state_scheme" where
  "clear_free_lists s =
     s\<lparr>g_zones := map (\<lambda>zn. zn\<lparr>free_area := map (\<lambda>a. a\<lparr>nr_free := 0, free_list := 0\<rparr>)
          (free_area zn)\<rparr>) (g_zones s)\<rparr>"

text \<open>A zero descriptor size divides by zero: \<open>None\<close>.\<close>

definition frame_allocator_init ::
  "ptr \<Rightarrow> u64 \<Rightarrow> u64 \<Rightarrow> 'a frame_state_scheme \<Rightarrow> 'a frame_state_scheme option" where
  "frame_allocator_init memory_map map_size desc_size s =
     (if desc_size = 0 then None
      else let entries = map_size div desc_size
           in Some (clear_free_lists (add_regions (unat entries) memory_map desc_size s)))"

section \<open>Allocation\<close>

function alloc_pages_zone ::
  "nat \<Rightarrow> u64 \<Rightarrow> 'a frame_state_scheme \<Rightarrow> ptr \<times> 'a frame_state_scheme" where
  "alloc_pages_zone z order s =
     (if NR_FREE_AREA \<le> order then (0, s)
      else let area = get_area s z order in
        if nr_free area = 0 then
          (if order + 1 < NR_FREE_AREA then
             (case alloc_pages_zone z (order + 1) s of (page, s1) \<Rightarrow>
                if page \<noteq> 0 then
                  (let buddy = get_buddy page order;
                       area1 = get_area s1 z order
                   in (page, set_area z order
                               (area1\<lparr>free_list := buddy, nr_free := nr_free area1 + 1\<rparr>) s1))
                else (0, s1))
           else (0, s))
        else
          (let page = free_list area;
               s1 = set_area z order
                      (area\<lparr>free_list := load64 (mem s) page, nr_free := nr_free area - 1\<rparr>) s
           in (page, s1\<lparr>g_free_pages := g_free_pages s1 - push_bit (unat order) 1\<rparr>)))"
  by pat_completeness auto
termination
proof (relation "measure (\<lambda>(z, order, s). 12 - unat order)", goal_cases)
  case (2 z order s a)
  then have "unat order < 12" by (simp add: NR_FREE_AREA_def word_le_nat_alt)
  then have "unat (order + 1) = unat order + 1" by (simp add: unat_word_ariths)
  with \<open>unat order < 12\<close> show ?case by simp
qed simp

declare alloc_pages_zone.simps [simp del]

definition alloc_pages :: "u64 \<Rightarrow> int \<Rightarrow> 'a frame_state_scheme \<Rightarrow> ptr \<times> 'a frame_state_scheme" where
  "alloc_pages order zone_idx s =
     (let zi = (if zone_idx < 0 \<or> MAX_ZONES \<le> zone_idx then ZONE_NORMAL else zone_idx)
      in alloc_pages_zone (nat zi) order s)"

definition alloc_page :: "int \<Rightarrow> 'a frame_state_scheme \<Rightarrow> ptr \<times> 'a frame_state_scheme" where
  "alloc_page zone_idx s = alloc_pages 0 zone_idx s"

section \<open>Release\<close>

text \<open>The coalescing loop: the final block, its order and the state.\<close>

function coalesce ::
  "nat \<Rightarrow> ptr \<Rightarrow> u64 \<Rightarrow> 'a frame_state_scheme \<Rightarrow> ptr \<times> u64 \<times> 'a frame_state_scheme" where
  "coalesce z page order s =
     (if order < MAX_ORDER then
        (let buddy = get_buddy page order; area = get_area s z order in
         if free_list area = buddy then
           coalesce z (page AND buddy) (order + 1)
             (set_area z order
                (area\<lparr>free_list := load64 (mem s) buddy, nr_free := nr_free area - 1\<rparr>) s)
         else (page, order, s))
      else (page, order, s))"
  by pat_completeness auto
termination
proof (relation "measure (\<lambda>(z, page, order, s). 11 - unat order)", goal_cases)
  case (2 z page order s b a)
  then have "unat order < 11" by (simp add: MAX_ORDER_def word_less_nat_alt)
  then have "unat (order + 1) = unat order + 1" by (simp add: unat_word_ariths)
  with \<open>unat order < 11\<close> show ?case by simp
qed simp

declare coalesce.simps [simp del]

definition page_zone :: "ptr \<Rightarrow> int" where
  "page_zone page =
     (let pfn = drop_bit PAGE_SHIFT page
      in if pfn < drop_bit PAGE_SHIFT 0x10000000 then ZONE_DMA else ZONE_NORMAL)"

text \<open>An order above \<open>MAX_ORDER\<close> indexes past \<open>free_area\<close>: \<open>None\<close>.\<close>

definition free_pages ::
  "ptr \<Rightarrow> u64 \<Rightarrow> 'a frame_state_scheme \<Rightarrow> 'a frame_state_scheme option" where
  "free_pages page order s =
     (if page = 0 then Some s
      else let z = nat (page_zone page) in
        (case coalesce z page order s of (page1, order1, s1) \<Rightarrow>
           if order1 < NR_FREE_AREA then
             (let s2 = s1\<lparr>mem := store64 (mem s1) page1 (free_list (get_area s1 z order1))\<rparr>;
                  area = get_area s2 z order1;
                  s3 = set_area z order1 (area\<lparr>free_list := page1, nr_free := nr_free area + 1\<rparr>) s2
              in Some (s3\<lparr>g_free_pages := g_free_pages s3 + push_bit (unat order1) 1\<rparr>))
           else None))"

definition free_page :: "ptr \<Rightarrow> 'a frame_state_scheme \<Rightarrow> 'a frame_state_scheme option" where
  "free_page page s = free_pages page 0 s"

section \<open>Statistics\<close>

definition get_total_pages :: "'a frame_state_scheme \<Rightarrow> u64" where
  "get_total_pages s = g_total_pages s"

definition get_free_pages :: "'a frame_state_scheme \<Rightarrow> u64" where
  "get_free_pages s = g_free_pages s"

definition get_used_pages :: "'a frame_state_scheme \<Rightarrow> u64" where
  "get_used_pages s = g_total_pages s - g_free_pages s"

end
