(* ===== verification/CK_Frame_Inv.thy ===== *)
theory CK_Frame_Inv
  imports CK_Frame
begin

text \<open>
  Correctness of the buddy allocator of \<^verbatim>\<open>frame_alloc.c\<close>. The abstract state is the set of
  free blocks \<open>(zone, order, address)\<close>; the invariant says that every listed block is
  aligned to its size and that no page belongs to two blocks.
\<close>

section \<open>Buddy addresses\<close>

lemma get_buddy_xor:
  assumes "aligned 12 p" "12 + unat order < 64"
  shows "get_buddy p order = p XOR 2 ^ (12 + unat order)"
proof (rule bit_word_eqI)
  fix n assume n: "n < LENGTH(64)"
  show "bit (get_buddy p order) n = bit (p XOR 2 ^ (12 + unat order)) n"
  proof (cases "12 \<le> n")
    case True
    then obtain k where "n = 12 + k" using le_Suc_ex by blast
    then show ?thesis
      using n assms(2) by (auto simp: get_buddy_def PAGE_SHIFT_def bit_simps Let_def)
  next
    case False
    then show ?thesis
      using n aligned_bit [OF assms(1), of n]
      by (auto simp: get_buddy_def PAGE_SHIFT_def bit_simps Let_def)
  qed
qed

lemma buddy_up:
  assumes "aligned (13 + unat order) p" "unat order < 50"
  shows "unat (get_buddy p order) = unat p + 2 ^ (12 + unat order)"
    and "aligned (12 + unat order) (get_buddy p order)"
proof -
  let ?n = "12 + unat order"
  have b: "get_buddy p order = p + 2 ^ ?n"
    using assms aligned_mono [OF assms(1), of 12] aligned_bit [OF assms(1), of ?n]
    by (simp add: get_buddy_xor xor_unset_bit)
  with assms show "unat (get_buddy p order) = unat p + 2 ^ (12 + unat order)"
    by (simp add: unat_add_bit)
  then show "aligned (12 + unat order) (get_buddy p order)"
    using aligned_mono [OF assms(1), of ?n] by (simp add: aligned_iff_dvd)
qed

lemma buddy_merge:
  assumes "aligned (12 + unat order) p" "unat order < 50"
  defines "q \<equiv> p AND get_buddy p order"
  shows "aligned (13 + unat order) q"
    and "(p = q \<and> get_buddy p order = q + 2 ^ (12 + unat order)) \<or>
         (get_buddy p order = q \<and> p = q + 2 ^ (12 + unat order))"
proof -
  let ?n = "12 + unat order"
  have x: "get_buddy p order = p XOR 2 ^ ?n"
    using assms(1,2) aligned_mono [OF assms(1), of 12] by (simp add: get_buddy_xor)
  have q: "bit q k \<longleftrightarrow> bit p k \<and> k \<noteq> ?n" for k
    using assms(2) bit_u64_less [of p k] by (auto simp: q_def x bit_simps)
  show al: "aligned (13 + unat order) q"
    unfolding aligned_iff_bits q
  proof (intro allI impI notI)
    fix k assume "k < 13 + unat order" "bit p k \<and> k \<noteq> ?n"
    then have "k < ?n" "bit p k" by auto
    with aligned_bit [OF assms(1)] show False by blast
  qed
  have nb: "\<not> bit q ?n" by (simp add: q)
  have s: "q + 2 ^ ?n = q XOR 2 ^ ?n" using nb by (simp add: xor_unset_bit)
  show "(p = q \<and> get_buddy p order = q + 2 ^ ?n) \<or>
         (get_buddy p order = q \<and> p = q + 2 ^ ?n)"
  proof (cases "bit p ?n")
    case True
    have "get_buddy p order = q" 
      by (rule bit_word_eqI) (use True assms(2) in \<open>auto simp: q x bit_simps\<close>)
    moreover have "p = q XOR 2 ^ ?n"
      by (rule bit_word_eqI) (use True assms(2) in \<open>auto simp: q x bit_simps\<close>)
    ultimately show ?thesis using s by simp
  next
    case False
    have "p = q" by (rule bit_word_eqI) (use False in \<open>auto simp: q\<close>)
    then show ?thesis using s x by simp
  qed
qed
section \<open>Free areas\<close>

definition area :: "'a frame_state_scheme \<Rightarrow> nat \<Rightarrow> nat \<Rightarrow> free_area_t" where
  "area s z k = free_area (g_zones s ! z) ! k"

definition shape :: "'a frame_state_scheme \<Rightarrow> bool" where
  "shape s \<longleftrightarrow> length (g_zones s) = 3 \<and> (\<forall>z<3. length (free_area (g_zones s ! z)) = 12)"

lemma get_area_area [simp]: "get_area s z order = area s z (unat order)"
  by (simp add: get_area_def area_def)

lemma area_set_area:
  "\<lbrakk>shape s; z < 3; unat order < 12\<rbrakk> \<Longrightarrow>
     area (set_area z order a s) z' k = (if z' = z \<and> k = unat order then a else area s z' k)"
  by (auto simp: area_def set_area_def shape_def nth_list_update)

lemma shape_set_area [simp]: "shape s \<Longrightarrow> shape (set_area z order a s)"
  by (cases "z < 3") (auto simp: shape_def set_area_def nth_list_update list_update_beyond)

lemma set_area_frame [simp]:
  "mem (set_area z order a s) = mem s"
  "g_free_pages (set_area z order a s) = g_free_pages s"
  "g_total_pages (set_area z order a s) = g_total_pages s"
  by (simp_all add: set_area_def)

lemma area_update [simp]:
  "area (s\<lparr>g_free_pages := n\<rparr>) z k = area s z k"
  "area (s\<lparr>mem := m\<rparr>) z k = area s z k"
  "shape (s\<lparr>g_free_pages := n\<rparr>) = shape s"
  "shape (s\<lparr>mem := m\<rparr>) = shape s"
  by (simp_all add: area_def shape_def)

section \<open>Blocks and pages\<close>

definition blocks :: "'a frame_state_scheme \<Rightarrow> nat \<Rightarrow> nat \<Rightarrow> ptr list" where
  "blocks s z k = chain (mem s) (unat (nr_free (area s z k))) (free_list (area s z k))"

definition pages :: "ptr \<Rightarrow> nat \<Rightarrow> nat set" where
  "pages p k = {unat p div 4096 ..< unat p div 4096 + 2 ^ k}"

definition free_blocks :: "'a frame_state_scheme \<Rightarrow> (nat \<times> nat \<times> ptr) set" where
  "free_blocks s = {(z, k, p). z < 3 \<and> k < 12 \<and> p \<in> set (blocks s z k)}"

definition block_pages :: "nat \<times> nat \<times> ptr \<Rightarrow> nat set" where
  "block_pages b = (case b of (z, k, p) \<Rightarrow> pages p k)"

definition free_pfns :: "'a frame_state_scheme \<Rightarrow> nat set" where
  "free_pfns s = \<Union> (block_pages ` free_blocks s)"

definition zone_pfns :: "'a frame_state_scheme \<Rightarrow> nat \<Rightarrow> nat set" where
  "zone_pfns s z = (\<Union>k<12. \<Union>p \<in> set (blocks s z k). pages p k)"

definition good_block :: "nat \<Rightarrow> ptr \<Rightarrow> bool" where
  "good_block k p \<longleftrightarrow> p \<noteq> 0 \<and> aligned (12 + k) p"

definition frame_inv :: "'a frame_state_scheme \<Rightarrow> bool" where
  "frame_inv s \<longleftrightarrow>
     shape s \<and>
     (\<forall>z<3. \<forall>k<12. distinct (blocks s z k) \<and> (\<forall>p \<in> set (blocks s z k). good_block k p)) \<and>
     (\<forall>b \<in> free_blocks s. \<forall>c \<in> free_blocks s. b \<noteq> c \<longrightarrow> block_pages b \<inter> block_pages c = {})"

section \<open>One allocation step\<close>

text \<open>
  \<open>alloc_effect z o1 k p s s'\<close>: the block \<open>p\<close> of order \<open>k\<close> was unlinked and split down to
  order \<open>o1\<close>; each upper half became the only block of its order.
\<close>

definition alloc_effect ::
  "nat \<Rightarrow> nat \<Rightarrow> nat \<Rightarrow> ptr \<Rightarrow> 'a frame_state_scheme \<Rightarrow> 'a frame_state_scheme \<Rightarrow> bool" where
  "alloc_effect z o1 k p s s' \<longleftrightarrow>
     shape s' \<and> (\<exists>gz. s' = s\<lparr>g_zones := gz, g_free_pages := g_free_pages s - 2 ^ k\<rparr>) \<and>
     (\<forall>z'<3. \<forall>j<12. area s' z' j =
        (if z' \<noteq> z then area s z' j
         else if j = k then \<lparr>nr_free = nr_free (area s z k) - 1, free_list = load64 (mem s) p\<rparr>
         else if o1 \<le> j \<and> j < k then \<lparr>nr_free = 1, free_list = get_buddy p (word_of_nat j)\<rparr>
         else area s z j))"

text \<open>\<open>first_order z o1 s k\<close>: order \<open>k\<close> is the least from \<open>o1\<close> up with a free block.\<close>

definition first_order :: "nat \<Rightarrow> nat \<Rightarrow> 'a frame_state_scheme \<Rightarrow> nat \<Rightarrow> bool" where
  "first_order z o1 s k \<longleftrightarrow> o1 \<le> k \<and> k < 12 \<and> nr_free (area s z k) \<noteq> 0 \<and>
     (\<forall>j. o1 \<le> j \<and> j < k \<longrightarrow> nr_free (area s z j) = 0)"

lemma first_order_down:
  "\<lbrakk>first_order z (Suc o1) s k; nr_free (area s z o1) = 0\<rbrakk> \<Longrightarrow> first_order z o1 s k"
  unfolding first_order_def by (metis Suc_leD Suc_leI le_neq_implies_less)

lemma area_upd_eq [simp]:
  "(a :: free_area_t)\<lparr>free_list := x, nr_free := n\<rparr> = \<lparr>nr_free = n, free_list = x\<rparr>"
  by simp

lemma order_step:
  fixes order :: u64
  assumes "unat order < 12"
  shows "unat (order + 1) = Suc (unat order)" "\<not> NR_FREE_AREA \<le> order"
    "order + 1 < NR_FREE_AREA \<longleftrightarrow> unat order < 11"
proof -
  show e: "unat (order + 1) = Suc (unat order)" using assms by (simp add: unat_word_ariths)
  show "\<not> NR_FREE_AREA \<le> order" using assms by (simp add: NR_FREE_AREA_def word_le_nat_alt)
  show "order + 1 < NR_FREE_AREA \<longleftrightarrow> unat order < 11"
    unfolding NR_FREE_AREA_def word_less_nat_alt e by simp
qed

lemma alloc_effect_pop:
  assumes "shape s" "z < 3" "unat order < 12"
  shows "alloc_effect z (unat order) (unat order) p s
     ((set_area z order \<lparr>nr_free = nr_free (area s z (unat order)) - 1,
         free_list = load64 (mem s) p\<rparr> s)\<lparr>g_free_pages := g_free_pages s - 2 ^ unat order\<rparr>)"
  unfolding alloc_effect_def using assms
  by (auto simp: area_set_area) (auto simp: set_area_def)

lemma alloc_effect_split:
  assumes "alloc_effect z (Suc (unat order)) k p s s1" "z < 3" "unat order < k" "k < 12"
    and "nr_free (area s z (unat order)) = 0"
  shows "alloc_effect z (unat order) k p s
     (set_area z order \<lparr>nr_free = 1, free_list = get_buddy p order\<rparr> s1)"
  unfolding alloc_effect_def
proof (intro conjI allI impI)
  from assms(1) show "shape (set_area z order \<lparr>nr_free = 1, free_list = get_buddy p order\<rparr> s1)"
    by (simp add: alloc_effect_def)
  from assms(1) obtain gz where "s1 = s\<lparr>g_zones := gz, g_free_pages := g_free_pages s - 2 ^ k\<rparr>"
    by (auto simp: alloc_effect_def)
  then show "\<exists>gz. set_area z order \<lparr>nr_free = 1, free_list = get_buddy p order\<rparr> s1 =
      s\<lparr>g_zones := gz, g_free_pages := g_free_pages s - 2 ^ k\<rparr>"
    by (intro exI [of _ "g_zones (set_area z order \<lparr>nr_free = 1, free_list = get_buddy p order\<rparr> s1)"])
      (simp add: set_area_def)
  fix z' j :: nat assume "z' < 3" "j < 12"
  with assms show "area (set_area z order \<lparr>nr_free = 1, free_list = get_buddy p order\<rparr> s1) z' j =
        (if z' \<noteq> z then area s z' j
         else if j = k then \<lparr>nr_free = nr_free (area s z k) - 1, free_list = load64 (mem s) p\<rparr>
         else if unat order \<le> j \<and> j < k then \<lparr>nr_free = 1, free_list = get_buddy p (word_of_nat j)\<rparr>
         else area s z j)"
    by (auto simp: alloc_effect_def area_set_area)
qed

lemma alloc_pages_zone_pop:
  assumes "unat order < 12" "nr_free (area s z (unat order)) \<noteq> 0"
  shows "alloc_pages_zone z order s =
     (free_list (area s z (unat order)),
      (set_area z order \<lparr>nr_free = nr_free (area s z (unat order)) - 1,
         free_list = load64 (mem s) (free_list (area s z (unat order)))\<rparr> s)
         \<lparr>g_free_pages := g_free_pages s - 2 ^ unat order\<rparr>)"
  using assms order_step [OF assms(1)]
  by (simp add: alloc_pages_zone.simps [of z order s] Let_def)

lemma alloc_pages_zone_split:
  assumes "unat order < 11" "nr_free (area s z (unat order)) = 0"
    and "alloc_pages_zone z (order + 1) s = (p, s1)"
  shows "alloc_pages_zone z order s =
     (if p = 0 then (0, s1)
      else (p, set_area z order \<lparr>nr_free = nr_free (area s1 z (unat order)) + 1,
                                 free_list = get_buddy p order\<rparr> s1))"
  using assms order_step [of order]
  by (simp add: alloc_pages_zone.simps [of z order s] Let_def)

lemma alloc_pages_zone_top:
  assumes "unat order = 11" "nr_free (area s z 11) = 0"
  shows "alloc_pages_zone z order s = (0, s)"
  using assms order_step [of order]
  by (simp add: alloc_pages_zone.simps [of z order s] Let_def)

definition zone_none :: "nat \<Rightarrow> u64 \<Rightarrow> 'a frame_state_scheme \<Rightarrow> bool" where
  "zone_none z order s \<longleftrightarrow> alloc_pages_zone z order s = (0, s) \<and> (\<forall>k. unat order \<le> k \<and> k < 12 \<longrightarrow> nr_free (area s z k) = 0)"

definition zone_block :: "nat \<Rightarrow> u64 \<Rightarrow> 'a frame_state_scheme \<Rightarrow> bool" where
  "zone_block z order s \<longleftrightarrow> (\<exists>k s'. first_order z (unat order) s k \<and> alloc_pages_zone z order s = (free_list (area s z k), s') \<and>
     alloc_effect z (unat order) k (free_list (area s z k)) s s')"

lemma zone_block_here:
  assumes "shape s" "z < 3" "unat order < 12" "nr_free (area s z (unat order)) \<noteq> 0"
  shows "zone_block z order s"
  using assms alloc_pages_zone_pop [of order s z] alloc_effect_pop [OF assms(1,2), of order]
  by (auto simp: zone_block_def first_order_def intro!: exI [of _ "unat order"])

lemma zone_none_down:
  assumes "zone_none z (order + 1) s" "unat order < 11" "nr_free (area s z (unat order)) = 0"
  shows "zone_none z order s"
proof -
  have u: "unat (order + 1) = Suc (unat order)" using assms(2) by (simp add: unat_word_ariths)
  have "alloc_pages_zone z order s = (0, s)" "\<forall>k. Suc (unat order) \<le> k \<and> k < 12 \<longrightarrow> nr_free (area s z k) = 0"
    using assms u alloc_pages_zone_split [of order s z 0 s] by (auto simp: zone_none_def)
  then show ?thesis using assms(3) unfolding zone_none_def by (metis Suc_leI le_neq_implies_less)
qed

lemma zone_block_split:
  assumes "zone_block z (order + 1) s" "z < 3" "unat order < 11" and empty: "nr_free (area s z (unat order)) = 0"
    and heads: "\<And>k. k < 12 \<Longrightarrow> nr_free (area s z k) \<noteq> 0 \<Longrightarrow> free_list (area s z k) \<noteq> 0"
  shows "zone_block z order s"
proof -
  have u: "unat (order + 1) = Suc (unat order)" using assms(3) by (simp add: unat_word_ariths)
  obtain k s1 where k: "first_order z (Suc (unat order)) s k" "alloc_pages_zone z (order + 1) s = (free_list (area s z k), s1)"
    and eff: "alloc_effect z (Suc (unat order)) k (free_list (area s z k)) s s1" using assms(1) u by (auto simp: zone_block_def)
  then have lt: "unat order < k" "k < 12" and ne: "free_list (area s z k) \<noteq> 0" using heads by (auto simp: first_order_def)
  have a1: "area s1 z (unat order) = area s z (unat order)" using eff lt assms(2,3) by (simp add: alloc_effect_def)
  show ?thesis unfolding zone_block_def
    using k ne empty a1 assms(3) alloc_pages_zone_split [of order s z _ s1, OF _ empty k(2)]
      alloc_effect_split [OF eff assms(2) lt empty] first_order_down [OF k(1) empty]
    by (intro exI [of _ k]) auto
qed

lemma alloc_pages_zone_run:
  assumes "shape s" "z < 3" "unat order < 12"
    and heads: "\<And>k. k < 12 \<Longrightarrow> nr_free (area s z k) \<noteq> 0 \<Longrightarrow> free_list (area s z k) \<noteq> 0"
  obtains (none) "alloc_pages_zone z order s = (0, s)"
      "\<And>k. unat order \<le> k \<Longrightarrow> k < 12 \<Longrightarrow> nr_free (area s z k) = 0"
  | (block) k s' where "first_order z (unat order) s k"
      "alloc_pages_zone z order s = (free_list (area s z k), s')"
      "alloc_effect z (unat order) k (free_list (area s z k)) s s'"
proof -
  have "zone_none z order s \<or> zone_block z order s" using assms(3)
  proof (induction "11 - unat order" arbitrary: order)
    case 0
    then have top: "unat order = 11" by simp
    then have "zone_none z order s" if "nr_free (area s z 11) = 0"
      using that alloc_pages_zone_top [OF top] by (auto simp: zone_none_def dest: le_antisym simp: less_Suc_eq_le)
    then show ?case using zone_block_here [OF assms(1,2) 0(2)] top by auto
  next
    case (Suc n)
    have "unat order < 11" "unat (order + 1) = Suc (unat order)" using Suc.hyps(2) by (auto simp: unat_word_ariths)
    then have "zone_none z (order + 1) s \<or> zone_block z (order + 1) s" using Suc.hyps(1) [of "order + 1"] Suc.hyps(2) by auto
    then show ?case using zone_none_down zone_block_split [OF _ assms(2) _ _ heads] zone_block_here [OF assms(1,2) Suc.prems] \<open>unat order < 11\<close>
      by blast
  qed
  then show thesis using none block unfolding zone_none_def zone_block_def by blast
qed

section \<open>Allocation and the invariant\<close>

lemma frame_invD:
  assumes "frame_inv s" "z < 3" "k < 12"
  shows "shape s" "distinct (blocks s z k)" "p \<in> set (blocks s z k) \<Longrightarrow> good_block k p"
    "p \<in> set (blocks s z k) \<Longrightarrow> (z, k, p) \<in> free_blocks s"
  using assms by (auto simp: frame_inv_def free_blocks_def)

lemma blocks_pop:
  assumes "nr_free (area s z k) \<noteq> 0"
  shows "blocks s z k = free_list (area s z k) #
     chain (mem s) (unat (nr_free (area s z k) - 1)) (load64 (mem s) (free_list (area s z k)))"
proof -
  have "unat (nr_free (area s z k) - 1) = unat (nr_free (area s z k)) - 1"
    using assms by (simp add: unat_minus_one)
  with assms show ?thesis by (simp add: blocks_def chain_unfold unat_gt_0)
qed

lemma blocks_empty [simp]: "nr_free (area s z k) = 0 \<Longrightarrow> blocks s z k = []"
  by (simp add: blocks_def)

lemma head_good:
  assumes "frame_inv s" "z < 3" "k < 12" "nr_free (area s z k) \<noteq> 0"
  shows "good_block k (free_list (area s z k))"
  using frame_invD(3) [OF assms(1-3)] blocks_pop [OF assms(4)] by simp

lemma alloc_effect_blocks:
  assumes "alloc_effect z o1 k p s s'" "first_order z o1 s k" "p = free_list (area s z k)"
    and "z < 3" "z' < 3" "j < 12"
  shows "blocks s' z' j =
     (if z' \<noteq> z then blocks s z' j
      else if j = k then tl (blocks s z k)
      else if o1 \<le> j \<and> j < k then [get_buddy p (word_of_nat j)]
      else blocks s z j)"
proof -
  from assms(1) have m: "mem s' = mem s" by (auto simp: alloc_effect_def)
  from assms(2) have "nr_free (area s z k) \<noteq> 0" by (simp add: first_order_def)
  then show ?thesis
    using assms blocks_pop [of s z k] by (auto simp: alloc_effect_def blocks_def m)
qed

lemma alloc_effect_free_blocks:
  assumes "frame_inv s" "alloc_effect z o1 k p s s'" "first_order z o1 s k"
    and p: "p = free_list (area s z k)" and z: "z < 3"
  shows "free_blocks s' = free_blocks s - {(z, k, p)} \<union>
     (\<lambda>j. (z, j, get_buddy p (word_of_nat j))) ` {o1..<k}"
proof -
  from assms(3) have k: "o1 \<le> k" "k < 12" "nr_free (area s z k) \<noteq> 0"
    and e: "\<And>j. o1 \<le> j \<Longrightarrow> j < k \<Longrightarrow> blocks s z j = []"
    by (auto simp: first_order_def)
  have "blocks s z k = p # tl (blocks s z k)" using blocks_pop [OF k(3)] p by simp
  moreover have "distinct (blocks s z k)" using frame_invD(2) [OF assms(1) z k(2)] .
  ultimately have "set (tl (blocks s z k)) = set (blocks s z k) - {p}"
    by (metis Diff_insert_absorb distinct.simps(2) list.simps(15))
  then have t: "q \<in> set (tl (blocks s z k)) \<longleftrightarrow> q \<in> set (blocks s z k) \<and> q \<noteq> p" for q by simp
  show ?thesis
  proof (rule set_eqI)
    fix x :: "nat \<times> nat \<times> ptr"
    obtain z' j q where x: "x = (z', j, q)" by (cases x)
    show "x \<in> free_blocks s' \<longleftrightarrow> x \<in> free_blocks s - {(z, k, p)} \<union>
        (\<lambda>j. (z, j, get_buddy p (word_of_nat j))) ` {o1..<k}"
    proof (cases "z' < 3 \<and> j < 12")
      case True
      then have b: "blocks s' z' j = (if z' \<noteq> z then blocks s z' j else if j = k then tl (blocks s z k)
          else if o1 \<le> j \<and> j < k then [get_buddy p (word_of_nat j)] else blocks s z j)"
        using alloc_effect_blocks [OF assms(2,3) p z] by blast
      consider "z' \<noteq> z" | "z' = z" "j = k" | "z' = z" "o1 \<le> j" "j < k" | "z' = z" "j \<noteq> k" "\<not> (o1 \<le> j \<and> j < k)"
        by linarith
      then show ?thesis
        using True b t e by cases (auto simp: free_blocks_def x)
    next
      case False
      then show ?thesis using k(2) z by (auto simp: free_blocks_def x)
    qed
  qed
qed

lemma pages_buddy:
  assumes "aligned (12 + k) p" "j < k" "k < 50"
  shows "pages (get_buddy p (word_of_nat j)) j =
     {unat p div 4096 + 2 ^ j ..< unat p div 4096 + 2 ^ Suc j}"
    and "aligned (12 + j) (get_buddy p (word_of_nat j))"
    and "get_buddy p (word_of_nat j) \<noteq> 0"
proof -
  have j: "unat (word_of_nat j :: u64) = j" using assms by (simp add: unat_of_nat)
  have al: "aligned (13 + unat (word_of_nat j :: u64)) p"
    using assms by (intro aligned_mono [OF assms(1)]) (simp add: j)
  have u: "unat (get_buddy p (word_of_nat j)) = unat p + 4096 * 2 ^ j"
    using buddy_up(1) [OF al] assms by (simp add: j power_add)
  then show "pages (get_buddy p (word_of_nat j)) j =
     {unat p div 4096 + 2 ^ j ..< unat p div 4096 + 2 ^ Suc j}"
    by (simp add: pages_def mult_2 add_ac)
  show "aligned (12 + j) (get_buddy p (word_of_nat j))"
    using buddy_up(2) [OF al] assms by (simp add: j)
  show "get_buddy p (word_of_nat j) \<noteq> 0"
    using u by (metis add_is_0 mult_is_0 power_not_zero unat_eq_zero zero_neq_numeral)
qed

lemma interval_split:
  "o1 \<le> n \<Longrightarrow>
     {P ..< P + 2 ^ n} = {P ..< P + 2 ^ o1} \<union> (\<Union>j\<in>{o1..<n}. {P + 2 ^ j ..< P + 2 ^ Suc j})"
  for P n :: nat
proof (induction n rule: dec_induct)
  case (step n)
  have "{P ..< P + 2 ^ Suc n} = {P ..< P + 2 ^ n} \<union> {P + 2 ^ n ..< P + 2 ^ Suc n}"
    by (rule ivl_disj_un_two(3) [symmetric]) simp_all
  with step show ?case by (simp only: atLeastLessThanSuc) (auto simp del: power_Suc)
qed simp

lemma pages_split:
  assumes "aligned (12 + k) p" "o1 \<le> k" "k < 50"
  shows "pages p k = pages p o1 \<union> (\<Union>j\<in>{o1..<k}. pages (get_buddy p (word_of_nat j)) j)"
proof -
  have "(\<Union>j\<in>{o1..<k}. pages (get_buddy p (word_of_nat j)) j) =
      (\<Union>j\<in>{o1..<k}. {unat p div 4096 + 2 ^ j ..< unat p div 4096 + 2 ^ Suc j})"
    by (rule SUP_cong) (use assms in \<open>auto simp: pages_buddy(1) simp del: power_Suc\<close>)
  then show ?thesis using interval_split [OF assms(2)] by (simp only: pages_def [of p])
qed

lemma pages_upper_disjoint:
  assumes "aligned (12 + k) p" "k < 50" "o1 \<le> j" "j < k"
  shows "pages p o1 \<inter> pages (get_buddy p (word_of_nat j)) j = {}"
proof -
  have "(2::nat) ^ o1 \<le> 2 ^ j" using assms by (intro power_increasing) auto
  then show ?thesis
    using assms by (auto simp: pages_def [of p] pages_buddy(1) [OF assms(1)])
qed

lemma pages_uppers_disjoint:
  assumes "aligned (12 + k) p" "k < 50" "i \<noteq> j" "i < k" "j < k"
  shows "pages (get_buddy p (word_of_nat i)) i \<inter> pages (get_buddy p (word_of_nat j)) j = {}"
proof -
  have "(2::nat) ^ Suc i \<le> 2 ^ j \<or> (2::nat) ^ Suc j \<le> 2 ^ i"
    using assms(3) by (metis One_nat_def Suc_leI linorder_neqE_nat numeral_2_eq_2 power_increasing zero_less_Suc le_SucI order_refl)
  then show ?thesis
    using assms by (auto simp: pages_buddy(1) [OF assms(1)])
qed

lemma free_blocks_disjoint:
  "\<lbrakk>frame_inv s; b \<in> free_blocks s; c \<in> free_blocks s; b \<noteq> c\<rbrakk> \<Longrightarrow> block_pages b \<inter> block_pages c = {}"
  by (simp add: frame_inv_def)

lemma alloc_effect_frame_inv:
  assumes "frame_inv s" "alloc_effect z o1 k p s s'" "first_order z o1 s k"
    and p: "p = free_list (area s z k)" and z: "z < 3"
  shows "frame_inv s'"
proof -
  from assms(3) have k: "o1 \<le> k" "k < 12" "nr_free (area s z k) \<noteq> 0" by (auto simp: first_order_def)
  have al: "aligned (12 + k) p" using head_good [OF assms(1) z k(2,3)] by (simp add: good_block_def p)
  have old: "(z, k, p) \<in> free_blocks s"
    using blocks_pop [OF k(3)] z k(2) by (simp add: free_blocks_def p)
  let ?new = "\<lambda>j. (z, j, get_buddy p (word_of_nat j))"
  have sub: "block_pages (?new j) \<subseteq> block_pages (z, k, p)" if "j \<in> {o1..<k}" for j
    using pages_split [OF al k(1)] k(2) that by (auto simp: block_pages_def)
  have new_new: "block_pages (?new i) \<inter> block_pages (?new j) = {}"
    if "i \<in> {o1..<k}" "j \<in> {o1..<k}" "i \<noteq> j" for i j
    using pages_uppers_disjoint [OF al, of i j] k(2) that by (simp add: block_pages_def)
  have lists: "distinct (blocks s' z' j) \<and> (\<forall>q \<in> set (blocks s' z' j). good_block j q)"
    if "z' < 3" "j < 12" for z' j
    using alloc_effect_blocks [OF assms(2,3) p z that] frame_invD [OF assms(1) that]
      pages_buddy [OF al, of j] k(2)
    by (auto simp: good_block_def distinct_tl dest: in_set_tlD)
  have fb: "free_blocks s' = free_blocks s - {(z, k, p)} \<union> ?new ` {o1..<k}"
    by (rule alloc_effect_free_blocks [OF assms])
  have "block_pages b \<inter> block_pages c = {}"
    if "b \<in> free_blocks s'" "c \<in> free_blocks s'" "b \<noteq> c" for b c
  proof -
    have one: "block_pages b \<inter> block_pages (?new j) = {}"
      if "b \<in> free_blocks s - {(z, k, p)}" "j \<in> {o1..<k}" for b j
      using free_blocks_disjoint [OF assms(1), of b "(z, k, p)"] old sub [OF that(2)] that(1) by auto
    from that(1) fb have b: "b \<in> free_blocks s - {(z, k, p)} \<or> (\<exists>i \<in> {o1..<k}. b = ?new i)" by blast
    from that(2) fb have c: "c \<in> free_blocks s - {(z, k, p)} \<or> (\<exists>i \<in> {o1..<k}. c = ?new i)" by blast
    show ?thesis
      using b c that(3) one new_new free_blocks_disjoint [OF assms(1), of b c]
      by (elim disjE bexE) (simp, blast, blast, metis)
  qed
  then show ?thesis
    using lists assms(2) by (simp add: frame_inv_def alloc_effect_def)
qed

lemma alloc_effect_free_pfns:
  assumes "frame_inv s" "alloc_effect z o1 k p s s'" "first_order z o1 s k"
    and p: "p = free_list (area s z k)" and z: "z < 3"
  shows "free_pfns s' = free_pfns s - pages p o1" "pages p o1 \<subseteq> zone_pfns s z" "good_block o1 p"
proof -
  from assms(3) have k: "o1 \<le> k" "k < 12" "nr_free (area s z k) \<noteq> 0" by (auto simp: first_order_def)
  have g: "good_block k p" using head_good [OF assms(1) z k(2,3)] by (simp add: p)
  then have al: "aligned (12 + k) p" by (simp add: good_block_def)
  show "good_block o1 p" using g k(1) aligned_mono [OF al] by (simp add: good_block_def)
  have hd: "p \<in> set (blocks s z k)" using blocks_pop [OF k(3)] by (simp add: p)
  have old: "(z, k, p) \<in> free_blocks s" using hd z k(2) by (simp add: free_blocks_def)
  note split = pages_split [OF al k(1)]
  show "pages p o1 \<subseteq> zone_pfns s z" using split hd k(2) by (auto simp: zone_pfns_def)
  let ?up = "\<Union>j\<in>{o1..<k}. pages (get_buddy p (word_of_nat j)) j"
  let ?rest = "\<Union> (block_pages ` (free_blocks s - {(z, k, p)}))"
  have rest: "?rest \<inter> pages p k = {}"
    using free_blocks_disjoint [OF assms(1) _ old] by (fastforce simp: block_pages_def)
  have all: "free_pfns s = ?rest \<union> pages p k"
    using old by (auto simp: free_pfns_def block_pages_def)
  have "free_pfns s' = ?rest \<union> ?up"
    unfolding free_pfns_def alloc_effect_free_blocks [OF assms] by (auto simp: block_pages_def)
  moreover have "pages p o1 \<inter> ?up = {}"
    using pages_upper_disjoint [OF al, of o1] k(2) by (simp add: Int_UN_distrib)
  ultimately show "free_pfns s' = free_pfns s - pages p o1"
    using all rest split k(2) by auto
qed

lemma alloc_pages_run:
  assumes inv: "frame_inv s" and order: "order < NR_FREE_AREA"
    and run: "alloc_pages order zone_idx s = (p, s')"
    and z: "z = (if zone_idx < 0 \<or> 3 \<le> zone_idx then 1 else nat zone_idx)"
  shows "frame_inv s' \<and> mem s' = mem s \<and>
    (if p = 0
     then s' = s \<and> (\<forall>k. unat order \<le> k \<and> k < 12 \<longrightarrow> blocks s z k = [])
     else aligned (12 + unat order) p \<and> pages p (unat order) \<subseteq> zone_pfns s z \<and>
          free_pfns s' = free_pfns s - pages p (unat order))"
proof -
  have o: "unat order < 12" using order by (simp add: NR_FREE_AREA_def word_less_nat_alt)
  have z3: "z < 3" using z by auto
  have r: "alloc_pages_zone z order s = (p, s')"
    using run z by (auto simp: alloc_pages_def Let_def MAX_ZONES_def ZONE_NORMAL_def split: if_splits)
  have heads: "free_list (area s z k) \<noteq> 0" if "k < 12" "nr_free (area s z k) \<noteq> 0" for k
    using head_good [OF inv z3 that] by (simp add: good_block_def)
  show ?thesis
  proof (rule alloc_pages_zone_run [of s z order])
    show "shape s" using inv by (simp add: frame_inv_def)
    show "z < 3" "unat order < 12" by (fact z3 o)+
    show "free_list (area s z k) \<noteq> 0" if "k < 12" "nr_free (area s z k) \<noteq> 0" for k
      using heads that .
    assume "alloc_pages_zone z order s = (0, s)"
      "\<And>k. unat order \<le> k \<Longrightarrow> k < 12 \<Longrightarrow> nr_free (area s z k) = 0"
    then show ?thesis using r inv by simp
  next
    fix k s1 assume k: "first_order z (unat order) s k"
      "alloc_pages_zone z order s = (free_list (area s z k), s1)"
      "alloc_effect z (unat order) k (free_list (area s z k)) s s1"
    with r have e: "p = free_list (area s z k)" "alloc_effect z (unat order) k p s s'" by auto
    then have "p \<noteq> 0" using heads k(1) by (auto simp: first_order_def)
    moreover have "mem s' = mem s" using e by (auto simp: alloc_effect_def)
    ultimately show ?thesis
      using alloc_effect_frame_inv [OF inv e(2) k(1) e(1) z3]
        alloc_effect_free_pfns [OF inv e(2) k(1) e(1) z3] by (simp add: good_block_def)
  qed
qed

end
