(* ===== verification/CK_Frame_Free.thy ===== *)
theory CK_Frame_Free
  imports CK_Frame_Inv
begin

text \<open>
  Release of blocks in \<open>src/kernel/memory/frame_alloc.c\<close>: the coalescing loop and the push on
  the free list keep the invariant of \<open>CK_Frame_Inv\<close> and give back exactly the pages of the
  freed block.
\<close>

section \<open>Release and the invariant\<close>

text \<open>Every free list ends with \<open>NULL\<close> after its \<open>nr_free\<close> blocks.\<close>

definition lists_ended :: "'a frame_state_scheme \<Rightarrow> bool" where
  "lists_ended s \<longleftrightarrow> (\<forall>z<3. \<forall>k<12.
     chain_end (mem s) (unat (nr_free (area s z k))) (free_list (area s z k)) = 0)"

text \<open>The invariant and the free pages depend on the zones and the memory only, whatever else a larger
  state holds.\<close>

lemma frame_cong:
  fixes s :: "'a frame_state_scheme" and s' :: "'b frame_state_scheme"
  assumes "g_zones s' = g_zones s" "mem s' = mem s"
  shows "area s' = area s" "shape s' = shape s" "blocks s' = blocks s" "free_blocks s' = free_blocks s"
    "free_pfns s' = free_pfns s" "frame_inv s' = frame_inv s" "lists_ended s' = lists_ended s"
proof -
  show a: "area s' = area s" using assms by (simp add: area_def fun_eq_iff)
  show sh: "shape s' = shape s" using assms by (simp add: shape_def)
  show b: "blocks s' = blocks s" by (intro ext) (simp add: blocks_def a assms(2))
  show f: "free_blocks s' = free_blocks s" by (simp add: free_blocks_def b)
  show "free_pfns s' = free_pfns s" by (simp add: free_pfns_def f)
  show "frame_inv s' = frame_inv s" by (simp add: frame_inv_def b f sh)
  show "lists_ended s' = lists_ended s" using assms by (simp add: lists_ended_def a)
qed

lemma frame_update [simp]:
  "blocks (s\<lparr>g_free_pages := n\<rparr>) = blocks s"
  "free_blocks (s\<lparr>g_free_pages := n\<rparr>) = free_blocks s"
  "free_pfns (s\<lparr>g_free_pages := n\<rparr>) = free_pfns s"
  "frame_inv (s\<lparr>g_free_pages := n\<rparr>) = frame_inv s"
  "lists_ended (s\<lparr>g_free_pages := n\<rparr>) = lists_ended s"
  by (rule frame_cong; simp)+

definition pop_area :: "nat \<Rightarrow> u64 \<Rightarrow> 'a frame_state_scheme \<Rightarrow> 'a frame_state_scheme" where
  "pop_area z order s =
     (let a = area s z (unat order) in
      set_area z order \<lparr>nr_free = nr_free a - 1, free_list = load64 (mem s) (free_list a)\<rparr> s)"

lemma pop_area_mem [simp]: "mem (pop_area z order s) = mem s"
  by (simp add: pop_area_def Let_def)

lemma pop_area_correct:
  assumes "frame_inv s" "z < 3" "unat order < 12" "nr_free (area s z (unat order)) \<noteq> 0"
  shows "frame_inv (pop_area z order s)"
    and "free_pfns (pop_area z order s) = free_pfns s - pages (free_list (area s z (unat order))) (unat order)"
    and "pages (free_list (area s z (unat order))) (unat order) \<subseteq> free_pfns s"
    and "lists_ended s \<Longrightarrow> lists_ended (pop_area z order s)"
proof -
  let ?p = "free_list (area s z (unat order))"
  let ?s = "(pop_area z order s)\<lparr>g_free_pages := g_free_pages s - 2 ^ unat order\<rparr>"
  have sh: "shape s" using assms(1) by (simp add: frame_inv_def)
  have eff: "alloc_effect z (unat order) (unat order) ?p s ?s"
    using alloc_effect_pop [OF sh assms(2,3)] by (simp add: pop_area_def Let_def)
  have fo: "first_order z (unat order) s (unat order)" using assms(3,4) by (auto simp: first_order_def)
  show "frame_inv (pop_area z order s)"
    using alloc_effect_frame_inv [OF assms(1) eff fo refl assms(2)] by simp
  show "free_pfns (pop_area z order s) = free_pfns s - pages ?p (unat order)"
    using alloc_effect_free_pfns(1) [OF assms(1) eff fo refl assms(2)] by simp
  show "pages ?p (unat order) \<subseteq> free_pfns s"
    using alloc_effect_free_pfns(2) [OF assms(1) eff fo refl assms(2)] assms(2)
    by (fastforce simp: zone_pfns_def free_pfns_def free_blocks_def block_pages_def)
  have u: "unat (nr_free (area s z (unat order)) - 1) = unat (nr_free (area s z (unat order))) - 1"
    using assms(4) by (simp add: unat_minus_one)
  have "0 < unat (nr_free (area s z (unat order)))" using assms(4) by (simp add: unat_gt_0)
  then show "lists_ended (pop_area z order s)" if "lists_ended s"
    using that sh assms(2,3) chain_end_unfold [of "unat (nr_free (area s z (unat order)))" "mem s" ?p]
    by (auto simp: lists_ended_def pop_area_def Let_def area_set_area u)
qed

text \<open>Number of blocks in one list: far below the range of \<open>nr_free\<close>.\<close>

lemma blocks_bound:
  assumes "frame_inv s" "z < 3" "k < 12"
  shows "length (blocks s z k) \<le> 2 ^ 52"
proof -
  have d: "distinct (blocks s z k)" using frame_invD(2) [OF assms] .
  have al: "4096 dvd unat p" if "p \<in> set (blocks s z k)" for p
    using frame_invD(3) [OF assms that] aligned_mono [of "12 + k" p 12]
    by (simp add: good_block_def aligned_iff_dvd)
  have "inj_on (\<lambda>p. unat p div 4096) (set (blocks s z k))"
    by (rule inj_onI) (metis al dvd_div_mult_self word_unat_eq_iff)
  moreover have "(\<lambda>p. unat p div 4096) ` set (blocks s z k) \<subseteq> {..< 2 ^ 52}"
    using u64_unat_less by (auto simp: less_mult_imp_div_less)
  ultimately have "card (set (blocks s z k)) \<le> card {..< (2::nat) ^ 52}"
    by (metis card_image card_mono finite_lessThan)
  then show ?thesis using d by (simp add: distinct_card)
qed

definition push_block :: "nat \<Rightarrow> u64 \<Rightarrow> ptr \<Rightarrow> 'a frame_state_scheme \<Rightarrow> 'a frame_state_scheme" where
  "push_block z order p s =
     (let a = area s z (unat order) in
      set_area z order \<lparr>nr_free = nr_free a + 1, free_list = p\<rparr>
        (s\<lparr>mem := store64 (mem s) p (free_list a)\<rparr>))"

lemma pages_start: "unat p div 4096 \<in> pages p k"
  by (simp add: pages_def)

lemma blocks_pages: "\<lbrakk>z < 3; k < 12; p \<in> set (blocks s z k)\<rbrakk> \<Longrightarrow> pages p k \<subseteq> free_pfns s"
  by (fastforce simp: free_pfns_def free_blocks_def block_pages_def)

lemma zone_pfns_subset: "z < 3 \<Longrightarrow> zone_pfns s z \<subseteq> free_pfns s"
  using blocks_pages by (fastforce simp: zone_pfns_def)

lemma blocks_not_used:
  assumes "z < 3" "k < 12" "pages p j \<inter> free_pfns s = {}" shows "p \<notin> set (blocks s z k)"
  using blocks_pages [OF assms(1,2)] pages_start [of p k] pages_start [of p j] assms(3) by blast

lemma push_block_blocks:
  assumes inv: "frame_inv s" and z: "z < 3" and o: "unat order < 12"
    and g: "good_block (unat order) p" and d: "pages p (unat order) \<inter> free_pfns s = {}"
    and z': "z' < 3" and k: "k < 12"
  shows "blocks (push_block z order p s) z' k =
      (if z' = z \<and> k = unat order then p # blocks s z k else blocks s z' k)"
    and "lists_ended s \<Longrightarrow>
      chain_end (mem (push_block z order p s))
        (unat (nr_free (area (push_block z order p s) z' k)))
        (free_list (area (push_block z order p s) z' k)) = 0"
proof -
  have sh: "shape s" using inv by (simp add: frame_inv_def)
  have al: "aligned 3 p" using g aligned_mono by (fastforce simp: good_block_def)
  have other: "load64 (store64 (mem s) p v) q = load64 (mem s) q" if "q \<in> set (blocks s z' k)" for q v
    using load64_store64_other [OF al, of q] blocks_not_used [OF z' k d] that
      frame_invD(3) [OF inv z' k that] aligned_mono [of "12 + k" q 3] by (fastforce simp: good_block_def)
  have ch: "chain (store64 (mem s) p v) (unat (nr_free (area s z' k))) (free_list (area s z' k)) = blocks s z' k"
    "chain_end (store64 (mem s) p v) (unat (nr_free (area s z' k))) (free_list (area s z' k)) =
     chain_end (mem s) (unat (nr_free (area s z' k))) (free_list (area s z' k))" for v
    using other by (auto simp: blocks_def intro!: chain_cong chain_end_cong)
  have "unat (nr_free (area s z' k)) < 2 ^ 64 - 1"
    using blocks_bound [OF inv z' k] by (simp add: blocks_def)
  then have u: "unat (nr_free (area s z' k) + 1) = Suc (unat (nr_free (area s z' k)))"
    by (simp add: unat_word_ariths)
  show "blocks (push_block z order p s) z' k =
      (if z' = z \<and> k = unat order then p # blocks s z k else blocks s z' k)"
    using sh z o u ch by (auto simp: blocks_def push_block_def Let_def area_set_area)
  show "chain_end (mem (push_block z order p s))
        (unat (nr_free (area (push_block z order p s) z' k)))
        (free_list (area (push_block z order p s) z' k)) = 0" if "lists_ended s"
    using that sh z o u ch z' k by (auto simp: lists_ended_def push_block_def Let_def area_set_area)
qed

lemma push_block_correct:
  assumes inv: "frame_inv s" and z: "z < 3" and o: "unat order < 12"
    and g: "good_block (unat order) p" and d: "pages p (unat order) \<inter> free_pfns s = {}"
  shows "frame_inv (push_block z order p s)"
    and "free_pfns (push_block z order p s) = free_pfns s \<union> pages p (unat order)"
    and "lists_ended s \<Longrightarrow> lists_ended (push_block z order p s)"
proof -
  note b = push_block_blocks(1) [OF assms]
  have fb: "free_blocks (push_block z order p s) = insert (z, unat order, p) (free_blocks s)"
    using b z o by (auto simp: free_blocks_def split: if_splits)
  show "free_pfns (push_block z order p s) = free_pfns s \<union> pages p (unat order)"
    by (auto simp: free_pfns_def fb block_pages_def)
  have old: "block_pages c \<inter> pages p (unat order) = {}" if "c \<in> free_blocks s" for c
    using that d by (auto simp: free_pfns_def)
  show "lists_ended (push_block z order p s)" if "lists_ended s"
    using push_block_blocks(2) [OF assms _ _ that] by (simp add: lists_ended_def)
  have sh: "shape (push_block z order p s)"
    using inv by (simp add: frame_inv_def push_block_def Let_def)
  have lists: "distinct (blocks (push_block z order p s) z' k) \<and>
      (\<forall>q \<in> set (blocks (push_block z order p s) z' k). good_block k q)" if "z' < 3" "k < 12" for z' k
    using b [OF that] frame_invD [OF inv that] g blocks_not_used [OF that d] by auto
  have "block_pages x \<inter> block_pages y = {}"
    if "x \<in> insert (z, unat order, p) (free_blocks s)" "y \<in> insert (z, unat order, p) (free_blocks s)" "x \<noteq> y" for x y
    using that old free_blocks_disjoint [OF inv, of x y] by (auto simp: block_pages_def)
  then show "frame_inv (push_block z order p s)"
    using sh lists by (simp add: frame_inv_def fb)
qed

lemma buddy_merge_pages:
  assumes "aligned (12 + unat order) p" "unat order < 11" "2 ^ 23 \<le> unat p"
  defines "q \<equiv> p AND get_buddy p order"
  shows "2 ^ 23 \<le> unat q" and "get_buddy p order \<noteq> 0"
    and "good_block (unat order + 1) q"
    and "pages q (unat order + 1) = pages p (unat order) \<union> pages (get_buddy p order) (unat order)"
proof -
  let ?n = "12 + unat order"
  have al: "aligned (13 + unat order) q" and
    c: "(p = q \<and> get_buddy p order = q + 2 ^ ?n) \<or> (get_buddy p order = q \<and> p = q + 2 ^ ?n)"
    using buddy_merge [OF assms(1)] assms(2) by (auto simp: q_def)
  have u: "unat (q + 2 ^ ?n) = unat q + 2 ^ ?n"
    using unat_add_bit [of ?n q] al assms(2) by simp
  have "(2::nat) ^ (13 + unat order) dvd 2 ^ 23" using assms(2) by (intro le_imp_power_dvd) simp
  moreover obtain a where a: "unat q = 2 ^ (13 + unat order) * a" using al by (auto simp: aligned_iff_dvd)
  ultimately obtain b :: nat where b: "(2::nat) ^ 23 = 2 ^ (13 + unat order) * b" by (auto elim: dvdE)
  have "unat p \<le> unat q + 2 ^ ?n" using c u by auto
  then have "2 ^ (13 + unat order) * b \<le> 2 ^ (13 + unat order) * a + 2 ^ ?n"
    unfolding a [symmetric] b [symmetric] by (rule le_trans [OF assms(3)])
  moreover have "(2::nat) ^ (13 + unat order) = 2 ^ ?n * 2" by (simp add: power_add)
  ultimately have "2 ^ ?n * (2 * b) \<le> 2 ^ ?n * (2 * a + 1)" by (simp only: algebra_simps)
  then have "2 * b \<le> 2 * a + 1" by (simp only: mult_le_cancel1) simp
  then have "b \<le> a" by simp
  then show qb: "2 ^ 23 \<le> unat q" unfolding a b by simp
  have "unat (q + 2 ^ ?n) \<noteq> 0" "unat q \<noteq> 0" using u qb by auto
  then show "get_buddy p order \<noteq> 0" using c by auto
  show "good_block (unat order + 1) q" using al \<open>unat q \<noteq> 0\<close> by (auto simp: good_block_def)
  show "pages q (unat order + 1) = pages p (unat order) \<union> pages (get_buddy p order) (unat order)"
    using c u by (auto simp: pages_def power_add)
qed

lemma coalesce_stop:
  "\<not> order < MAX_ORDER \<Longrightarrow> coalesce z p order s = (p, order, s)"
  "free_list (area s z (unat order)) \<noteq> get_buddy p order \<Longrightarrow> coalesce z p order s = (p, order, s)"
  by (simp_all add: coalesce.simps Let_def)

lemma coalesce_merge:
  "\<lbrakk>order < MAX_ORDER; free_list (area s z (unat order)) = get_buddy p order\<rbrakk> \<Longrightarrow>
   coalesce z p order s = coalesce z (p AND get_buddy p order) (order + 1) (pop_area z order s)"
  by (simp add: coalesce.simps [of z p order s] Let_def pop_area_def)

lemma lists_ended_nonempty:
  "\<lbrakk>lists_ended s; z < 3; k < 12; free_list (area s z k) \<noteq> 0\<rbrakk> \<Longrightarrow> nr_free (area s z k) \<noteq> 0"
  by (fastforce simp: lists_ended_def)

lemma pop_area_total [simp]: "g_total_pages (pop_area z order s) = g_total_pages s"
  by (simp add: pop_area_def Let_def)

lemma coalesce_correct:
  assumes "frame_inv s" "lists_ended s" "z < 3" "order < NR_FREE_AREA" "good_block (unat order) p"
    "2 ^ 23 \<le> unat p" "pages p (unat order) \<inter> free_pfns s = {}"
    "coalesce z p order s = (p', order', s')"
  shows "frame_inv s' \<and> lists_ended s' \<and> mem s' = mem s \<and> order' < NR_FREE_AREA \<and>
    good_block (unat order') p' \<and> pages p' (unat order') \<inter> free_pfns s' = {} \<and>
    pages p' (unat order') \<union> free_pfns s' = pages p (unat order) \<union> free_pfns s"
  using assms
proof (induction "11 - unat order" arbitrary: p order s rule: less_induct)
  case less
  have o: "unat order < 12" using less.prems(4) by (simp add: NR_FREE_AREA_def MAX_ORDER_def word_less_nat_alt)
  show ?case
  proof (cases "order < MAX_ORDER \<and> free_list (area s z (unat order)) = get_buddy p order")
    case False
    then have "(p', order', s') = (p, order, s)" using coalesce_stop less.prems(8) by metis
    then show ?thesis using less.prems by simp
  next
    case True
    let ?b = "get_buddy p order" and ?s = "pop_area z order s"
    have o11: "unat order < 11" using True by (simp add: MAX_ORDER_def word_less_nat_alt)
    have o1: "unat (order + 1) = unat order + 1" using o11 by (simp add: unat_word_ariths)
    have al: "aligned (12 + unat order) p" using less.prems(5) by (simp add: good_block_def)
    note m = buddy_merge_pages [OF al o11 less.prems(6)]
    have nr: "nr_free (area s z (unat order)) \<noteq> 0"
      using lists_ended_nonempty [OF less.prems(2,3) o] True m(2) by simp
    note pop = pop_area_correct [OF less.prems(1,3) o nr]
    have b: "free_list (area s z (unat order)) = ?b" using True by simp
    have "frame_inv s' \<and> lists_ended s' \<and> mem s' = mem ?s \<and> order' < NR_FREE_AREA \<and>
      good_block (unat order') p' \<and> pages p' (unat order') \<inter> free_pfns s' = {} \<and>
      pages p' (unat order') \<union> free_pfns s' = pages (p AND ?b) (unat (order + 1)) \<union> free_pfns ?s"
      using True less.prems(3,8) pop m(1,3,4) o1 o11 b less.prems(2,7)
      by (intro less.hyps) (auto simp: NR_FREE_AREA_def MAX_ORDER_def word_less_nat_alt coalesce_merge)
    then show ?thesis using m(4) pop(2,3) o1 b by auto
  qed
qed

lemma coalesce_frame:
  "coalesce z p order s = (p', order', s') \<Longrightarrow> mem s' = mem s \<and> g_total_pages s' = g_total_pages s"
proof (induction z p order s rule: coalesce.induct)
  case (1 z p order s)
  show ?case
  proof (cases "order < MAX_ORDER \<and> free_list (area s z (unat order)) = get_buddy p order")
    case False
    then have "(p', order', s') = (p, order, s)" using coalesce_stop 1(2) by metis
    then show ?thesis by simp
  next
    case True
    then show ?thesis using 1 by (simp add: coalesce_merge Let_def pop_area_def)
  qed
qed

lemma page_zone_less: "nat (page_zone p) < 3"
  by (simp add: page_zone_def Let_def ZONE_DMA_def ZONE_NORMAL_def)

lemma free_pages_push:
  "\<lbrakk>p \<noteq> 0; coalesce (nat (page_zone p)) p order s = (p1, order1, s1); order1 < NR_FREE_AREA\<rbrakk> \<Longrightarrow>
   free_pages p order s =
     Some ((push_block (nat (page_zone p)) order1 p1 s1)\<lparr>g_free_pages := g_free_pages s1 + 2 ^ unat order1\<rparr>)"
  by (simp add: free_pages_def Let_def push_block_def)

lemma free_pages_run:
  assumes "frame_inv s" "lists_ended s" "order < NR_FREE_AREA"
    and "aligned (12 + unat order) p" "2 ^ 23 \<le> unat p"
    and "pages p (unat order) \<inter> free_pfns s = {}"
  shows "\<exists>s'. free_pages p order s = Some s' \<and> frame_inv s' \<and> lists_ended s' \<and>
    free_pfns s' = free_pfns s \<union> pages p (unat order) \<and>
    (\<forall>a. unat a div 4096 \<notin> free_pfns s' \<longrightarrow> mem s' a = mem s a)"
proof -
  let ?z = "nat (page_zone p)"
  have g: "good_block (unat order) p" using assms(4,5) by (auto simp: good_block_def)
  obtain p1 order1 s1 where c: "coalesce ?z p order s = (p1, order1, s1)" by (cases "coalesce ?z p order s")
  note cc = coalesce_correct [OF assms(1,2) page_zone_less assms(3) g assms(5,6) c]
  have o1: "unat order1 < 12" using cc by (simp add: NR_FREE_AREA_def MAX_ORDER_def word_less_nat_alt)
  note pb = push_block_correct [of s1 ?z order1 p1, OF _ page_zone_less o1]
  let ?s = "(push_block ?z order1 p1 s1)\<lparr>g_free_pages := g_free_pages s1 + 2 ^ unat order1\<rparr>"
  have "free_pages p order s = Some ?s"
    using free_pages_push [OF _ c] cc g by (simp add: good_block_def)
  moreover have "free_pfns ?s = free_pfns s \<union> pages p (unat order)" using pb(2) cc by auto
  moreover have "mem ?s a = mem s a" if "unat a div 4096 \<notin> free_pfns ?s" for a
  proof -
    have "aligned 12 p1" using cc aligned_mono by (fastforce simp: good_block_def)
    moreover have "unat a div 4096 \<noteq> unat p1 div 4096" using that pb(2) cc pages_start [of p1 "unat order1"] by auto
    ultimately show ?thesis using cc by (simp add: push_block_def Let_def store64_outside aligned_mono [of 12 _ 3])
  qed
  ultimately show ?thesis using pb(1,3) cc by auto
qed

end
