(* ===== verification/CK_Page_Source.thy ===== *)
theory CK_Page_Source
  imports CK_Frame_Free
begin

text \<open>
  The interface through which the other memory components use the frame allocator: a source of
  single pages. \<open>avail\<close> is the set of page numbers the source may still hand out; a client may
  write any page outside it. The interpretation at the end shows that \<open>alloc_page\<close> of
  \<open>src/kernel/memory/frame_alloc.c\<close> keeps this contract.
\<close>

abbreviation pfn :: "ptr \<Rightarrow> nat" where
  "pfn a \<equiv> unat a div 4096"

lemma mem_set_page:
  assumes "aligned 12 p"
  shows "mem_set m p c 4096 a = (if pfn a = pfn p then c else m a)"
proof -
  obtain k where k: "unat p = 4096 * k" using assms by (auto simp: aligned_iff_dvd)
  have r: "unat p + 4096 \<le> 2 ^ 64" using aligned_room [OF assms] by simp
  have "unat (a - p) < 4096 \<longleftrightarrow> unat p \<le> unat a \<and> unat a < unat p + 4096"
    using r by (auto simp: unat_sub_if_size word_le_nat_alt word_size)
  also have "\<dots> \<longleftrightarrow> pfn a = pfn p" unfolding k by auto
  finally show ?thesis by (simp add: mem_set_def word_less_nat_alt)
qed

lemma load64_page_cong:
  assumes "aligned 3 a" "\<And>x. pfn x = pfn a \<Longrightarrow> m' x = m x"
  shows "load64 m' a = load64 m a"
  using assms aligned_cell_page [OF assms(1)] by (intro load64_cong) simp

locale page_source =
  fixes alloc :: "'s \<Rightarrow> ptr \<times> 's"
    and get_mem :: "'s \<Rightarrow> memory"
    and set_mem :: "memory \<Rightarrow> 's \<Rightarrow> 's"
    and inv :: "'s \<Rightarrow> bool"
    and avail :: "'s \<Rightarrow> nat set"
  assumes get_set: "get_mem (set_mem m s) = m"
    and alloc_mem: "\<lbrakk>inv s; alloc s = (p, s')\<rbrakk> \<Longrightarrow> get_mem s' = get_mem s"
    and alloc_null: "\<lbrakk>inv s; alloc s = (0, s')\<rbrakk> \<Longrightarrow> s' = s"
    and alloc_page: "\<lbrakk>inv s; alloc s = (p, s'); p \<noteq> 0\<rbrakk> \<Longrightarrow>
      inv s' \<and> aligned 12 p \<and> pfn p \<in> avail s \<and> avail s' = avail s - {pfn p}"
    and write_used: "\<lbrakk>inv s; \<And>a. pfn a \<in> avail s \<Longrightarrow> m a = get_mem s a\<rbrakk> \<Longrightarrow>
      inv (set_mem m s) \<and> avail (set_mem m s) = avail s"
begin

text \<open>A page that is allocated and cleared: it was available, it is not any more, it reads as zero
  and nothing else changed.\<close>

lemma fresh_page:
  assumes "inv s" "alloc s = (p, s1)" "p \<noteq> 0" "s2 = set_mem (mem_set (get_mem s1) p 0 4096) s1"
  shows "inv s2 \<and> avail s2 = avail s - {pfn p} \<and> pfn p \<in> avail s \<and> aligned 12 p"
    and "get_mem s2 a = (if pfn a = pfn p then 0 else get_mem s a)"
    and "\<lbrakk>aligned 3 a; pfn a = pfn p\<rbrakk> \<Longrightarrow> load64 (get_mem s2) a = 0"
    and "\<lbrakk>aligned 3 a; pfn a \<noteq> pfn p\<rbrakk> \<Longrightarrow> load64 (get_mem s2) a = load64 (get_mem s) a"
proof -
  have p: "inv s1" "aligned 12 p" "pfn p \<in> avail s" "avail s1 = avail s - {pfn p}"
    using alloc_page [OF assms(1-3)] by auto
  have m: "get_mem s2 x = (if pfn x = pfn p then 0 else get_mem s x)" for x
    using alloc_mem [OF assms(1,2)] by (simp add: assms(4) get_set mem_set_page p(2))
  then show "get_mem s2 a = (if pfn a = pfn p then 0 else get_mem s a)" .
  show "inv s2 \<and> avail s2 = avail s - {pfn p} \<and> pfn p \<in> avail s \<and> aligned 12 p"
    using write_used [OF p(1)] p mem_set_page [OF p(2), of "get_mem s1" 0] by (auto simp: assms(4))
  show "load64 (get_mem s2) a = load64 (get_mem s) a" if "aligned 3 a" "pfn a \<noteq> pfn p"
    using that m by (intro load64_page_cong) auto
  show "load64 (get_mem s2) a = 0" if a: "aligned 3 a" "pfn a = pfn p"
  proof -
    have "load64 (get_mem s2) a = load64 (\<lambda>_. 0) a" using a m by (intro load64_page_cong) auto
    then show ?thesis by (simp add: load64_def)
  qed
qed

text \<open>A 64-bit store to an aligned cell of a page that is in use.\<close>

lemma store_used:
  assumes "inv s" "aligned 3 a" "pfn a \<notin> avail s" "s2 = set_mem (store64 (get_mem s) a v) s"
  shows "inv s2 \<and> avail s2 = avail s" and "get_mem s2 = store64 (get_mem s) a v"
proof -
  have "store64 (get_mem s) a v x = get_mem s x" if "pfn x \<in> avail s" for x
    using that assms(3) by (intro store64_outside [OF assms(2)]) auto
  then show "inv s2 \<and> avail s2 = avail s" using write_used [OF assms(1)] by (simp add: assms(4))
qed (simp add: assms(4) get_set)

end

lemma alloc_page_contract:
  assumes "frame_inv s" "alloc_page z s = (p, s')" "p \<noteq> 0"
  shows "frame_inv s' \<and> aligned 12 p \<and> pfn p \<in> free_pfns s \<and> free_pfns s' = free_pfns s - {pfn p}"
proof -
  have one: "pages p 0 = {pfn p}" by (auto simp: pages_def)
  define y where "y = (if z < 0 \<or> 3 \<le> z then 1 else nat z)"
  have "y < 3" by (auto simp: y_def)
  have "(0 :: u64) < NR_FREE_AREA" by (simp add: NR_FREE_AREA_def)
  note run = alloc_pages_run [OF assms(1) this assms(2) [unfolded alloc_page_def] y_def]
  then have "frame_inv s'" "aligned 12 p" "pages p 0 \<subseteq> zone_pfns s y" "free_pfns s' = free_pfns s - pages p 0"
    using assms(3) by simp_all
  then show ?thesis using one zone_pfns_subset [OF \<open>y < 3\<close>, of s] by blast
qed

lemma frame_inv_write:
  assumes "frame_inv s" "\<And>a. pfn a \<in> free_pfns s \<Longrightarrow> m a = mem s a"
  shows "frame_inv (s\<lparr>mem := m\<rparr>) \<and> free_pfns (s\<lparr>mem := m\<rparr>) = free_pfns s"
proof -
  have b: "blocks (s\<lparr>mem := m\<rparr>) z k = blocks s z k" if zk: "z < 3" "k < 12" for z k
  proof -
    have "load64 m q = load64 (mem s) q" if "q \<in> set (blocks s z k)" for q
    proof (rule load64_page_cong)
      show "aligned 3 q" using frame_invD(3) [OF assms(1) zk that] aligned_mono by (fastforce simp: good_block_def)
      show "m x = mem s x" if "pfn x = pfn q" for x
        using blocks_pages [OF zk \<open>q \<in> set _\<close>] pages_start [of q k] that by (intro assms(2)) auto
    qed
    then show ?thesis by (auto simp: blocks_def intro!: chain_cong)
  qed
  then have f: "free_blocks (s\<lparr>mem := m\<rparr>) = free_blocks s" by (auto simp: free_blocks_def)
  show ?thesis using assms(1) b f by (simp add: frame_inv_def free_pfns_def)
qed

interpretation frames: page_source "alloc_page z" mem "\<lambda>m s. s\<lparr>mem := m\<rparr>" frame_inv free_pfns
proof (unfold_locales, goal_cases)
  case (2 s p s')
  then show ?case using alloc_pages_run [of s 0 z p s'] by (simp add: alloc_page_def NR_FREE_AREA_def)
next
  case (3 s s')
  then show ?case using alloc_pages_run [of s 0 z 0 s'] by (simp add: alloc_page_def NR_FREE_AREA_def)
next
  case (4 s p s')
  then show ?case by (rule alloc_page_contract)
next
  case (5 s m)
  then show ?case by (rule frame_inv_write)
qed simp

end
