(* ===== verification/CK_Paging.thy ===== *)
theory CK_Paging
  imports CK_Page_Source
begin

text \<open>
  Four-level page tables, \<open>src/kernel/memory/paging.c\<close>. A table is a page of 512 quadwords in the
  byte memory. \<open>phys_to_virt\<close> and \<open>virt_to_phys\<close> are not part of the sources: they are arguments
  \<open>p2v\<close> and \<open>v2p\<close> of the operations. The processor's side is the control registers and a TLB that
  maps a 36-bit virtual page number to a cached leaf entry.
\<close>

section \<open>Data\<close>

definition PTRS_PER_PTE :: u64 where "PTRS_PER_PTE = 512"
definition PTRS_PER_PMD :: u64 where "PTRS_PER_PMD = 512"
definition PTRS_PER_PUD :: u64 where "PTRS_PER_PUD = 512"
definition PTRS_PER_PGD :: u64 where "PTRS_PER_PGD = 512"

definition PTE_PRESENT :: u64 where "PTE_PRESENT = 0x001"
definition PTE_WRITABLE :: u64 where "PTE_WRITABLE = 0x002"
definition PTE_GLOBAL :: u64 where "PTE_GLOBAL = 0x100"
definition PTE_NX :: u64 where "PTE_NX = 0x8000000000000000"

text \<open>The address bits of an entry.\<close>

definition PTE_ADDR :: u64 where "PTE_ADDR = 0x000FFFFFFFFFF000"

record paging_state = frame_state +
  g_kernel_pgd :: ptr
  g_paging_enabled :: u64
  tlb :: "u64 \<Rightarrow> u64 option"
  cr0 :: u64
  cr3 :: u64
  cr4 :: u64
  msr_efer :: u64

section \<open>Processor instructions\<close>

definition vpn :: "u64 \<Rightarrow> u64" where
  "vpn virt = take_bit 36 (drop_bit 12 virt)"

definition invlpg :: "u64 \<Rightarrow> 'a paging_state_scheme \<Rightarrow> 'a paging_state_scheme" where
  "invlpg virt s = s\<lparr>tlb := (tlb s)(vpn virt := None)\<rparr>"

text \<open>A write of CR3 drops the entries that are not global; global pages exist once CR4.PGE is set.
  A write of CR4 that changes PGE or PAE, and a write of CR0 that changes PG, drop everything.\<close>

definition write_cr3 :: "u64 \<Rightarrow> 'a paging_state_scheme \<Rightarrow> 'a paging_state_scheme" where
  "write_cr3 v s =
     s\<lparr>tlb := (\<lambda>n. case tlb s n of
                  Some e \<Rightarrow> if bit (cr4 s) 7 \<and> e AND PTE_GLOBAL \<noteq> 0 then Some e else None
                | None \<Rightarrow> None),
       cr3 := v\<rparr>"

definition write_cr4 :: "u64 \<Rightarrow> 'a paging_state_scheme \<Rightarrow> 'a paging_state_scheme" where
  "write_cr4 v s =
     s\<lparr>tlb := (if bit (cr4 s) 7 = bit v 7 \<and> bit (cr4 s) 5 = bit v 5 then tlb s else (\<lambda>_. None)), cr4 := v\<rparr>"

definition write_cr0 :: "u64 \<Rightarrow> 'a paging_state_scheme \<Rightarrow> 'a paging_state_scheme" where
  "write_cr0 v s = s\<lparr>tlb := (if bit (cr0 s) 31 = bit v 31 then tlb s else (\<lambda>_. None)), cr0 := v\<rparr>"

section \<open>Table walks\<close>

definition pgd_offset :: "ptr \<Rightarrow> u64 \<Rightarrow> ptr" where
  "pgd_offset pgd addr = pgd + PAGE_SIZE * (drop_bit 39 addr AND (PTRS_PER_PGD - 1))"

definition entry_addr :: "ptr \<Rightarrow> u64 \<Rightarrow> ptr" where
  "entry_addr table i = table + 8 * i"

definition pud_offset :: "(u64 \<Rightarrow> ptr) \<Rightarrow> memory \<Rightarrow> ptr \<Rightarrow> u64 \<Rightarrow> ptr" where
  "pud_offset p2v m pgd addr =
     (let entry = load64 m (entry_addr pgd (drop_bit 39 addr AND (PTRS_PER_PGD - 1)))
      in if entry AND PTE_PRESENT = 0 then 0 else p2v (entry AND PTE_ADDR))"

definition pmd_offset :: "(u64 \<Rightarrow> ptr) \<Rightarrow> memory \<Rightarrow> ptr \<Rightarrow> u64 \<Rightarrow> ptr" where
  "pmd_offset p2v m pud addr =
     (let entry = load64 m (entry_addr pud (drop_bit 30 addr AND (PTRS_PER_PUD - 1)))
      in if entry AND PTE_PRESENT = 0 then 0 else p2v (entry AND PTE_ADDR))"

definition pte_offset :: "(u64 \<Rightarrow> ptr) \<Rightarrow> memory \<Rightarrow> ptr \<Rightarrow> u64 \<Rightarrow> ptr" where
  "pte_offset p2v m pmd addr =
     (let entry = load64 m (entry_addr pmd (drop_bit 21 addr AND (PTRS_PER_PMD - 1)))
      in if entry AND PTE_PRESENT = 0 then 0 else p2v (entry AND PTE_ADDR))"

definition create_pte :: "u64 \<Rightarrow> u64 \<Rightarrow> u64" where
  "create_pte phys_addr flags = (phys_addr AND PTE_ADDR) OR flags"

section \<open>Mapping\<close>

text \<open>
  The step \<open>map_page\<close> repeats for the PUD, the PMD and the PTE table: follow a present entry, or
  allocate a cleared page and link it. \<open>None\<close> is the allocation failure.
\<close>

definition table_or_alloc ::
  "(u64 \<Rightarrow> ptr) \<Rightarrow> (ptr \<Rightarrow> u64) \<Rightarrow> ptr \<Rightarrow> u64 \<Rightarrow> 'a paging_state_scheme \<Rightarrow> ptr option \<times> 'a paging_state_scheme" where
  "table_or_alloc p2v v2p table idx s =
     (let entry = load64 (mem s) (entry_addr table idx) in
      if entry AND PTE_PRESENT = 0 then
        (case alloc_page 0 s of (page, s1) \<Rightarrow>
           if page = 0 then (None, s1)
           else let s2 = s1\<lparr>mem := mem_set (mem s1) page 0 PAGE_SIZE\<rparr>
                in (Some page,
                    s2\<lparr>mem := store64 (mem s2) (entry_addr table idx)
                               (create_pte (v2p page) (PTE_PRESENT OR PTE_WRITABLE))\<rparr>))
      else (Some (p2v (entry AND PTE_ADDR)), s))"

definition map_page ::
  "(u64 \<Rightarrow> ptr) \<Rightarrow> (ptr \<Rightarrow> u64) \<Rightarrow> ptr \<Rightarrow> u64 \<Rightarrow> u64 \<Rightarrow> u64 \<Rightarrow> 'a paging_state_scheme \<Rightarrow>
   int \<times> 'a paging_state_scheme" where
  "map_page p2v v2p pgd virt phys flags s =
     (case table_or_alloc p2v v2p pgd (drop_bit 39 virt AND (PTRS_PER_PGD - 1)) s of
        (None, s1) \<Rightarrow> (CK_ERROR_NO_MEMORY, s1)
      | (Some pud, s1) \<Rightarrow>
     (case table_or_alloc p2v v2p pud (drop_bit 30 virt AND (PTRS_PER_PUD - 1)) s1 of
        (None, s2) \<Rightarrow> (CK_ERROR_NO_MEMORY, s2)
      | (Some pmd, s2) \<Rightarrow>
     (case table_or_alloc p2v v2p pmd (drop_bit 21 virt AND (PTRS_PER_PMD - 1)) s2 of
        (None, s3) \<Rightarrow> (CK_ERROR_NO_MEMORY, s3)
      | (Some pte, s3) \<Rightarrow>
          (CK_SUCCESS,
           invlpg virt (s3\<lparr>mem := store64 (mem s3) (entry_addr pte (drop_bit 12 virt AND (PTRS_PER_PTE - 1)))
                                   (create_pte phys (flags OR PTE_PRESENT))\<rparr>)))))"

definition unmap_page ::
  "(u64 \<Rightarrow> ptr) \<Rightarrow> ptr \<Rightarrow> u64 \<Rightarrow> 'a paging_state_scheme \<Rightarrow> int \<times> 'a paging_state_scheme" where
  "unmap_page p2v pgd virt s =
     (let pud = pud_offset p2v (mem s) pgd virt in
      if pud = 0 then (CK_ERROR_NOT_FOUND, s)
      else let pmd = pmd_offset p2v (mem s) pud virt in
      if pmd = 0 then (CK_ERROR_NOT_FOUND, s)
      else let pte = pte_offset p2v (mem s) pmd virt in
      if pte = 0 then (CK_ERROR_NOT_FOUND, s)
      else (CK_SUCCESS,
            invlpg virt (s\<lparr>mem := store64 (mem s) (entry_addr pte (drop_bit 12 virt AND (PTRS_PER_PTE - 1))) 0\<rparr>)))"

text \<open>
  The loop counter wraps around when the end lies in the last page of the address space, and the
  loop then starts again: \<open>None\<close> is a loop that never ends.
\<close>

partial_function (option) create_identity_map ::
  "(u64 \<Rightarrow> ptr) \<Rightarrow> (ptr \<Rightarrow> u64) \<Rightarrow> ptr \<Rightarrow> u64 \<Rightarrow> u64 \<Rightarrow> u64 \<Rightarrow> 'a paging_state_scheme \<Rightarrow>
   (int \<times> 'a paging_state_scheme) option" where
  "create_identity_map p2v v2p pgd addr end_addr flags s =
     (if addr < end_addr then
        (case map_page p2v v2p pgd addr addr flags s of (ret, s1) \<Rightarrow>
           if ret \<noteq> CK_SUCCESS then Some (ret, s1)
           else create_identity_map p2v v2p pgd (addr + PAGE_SIZE) end_addr flags s1)
      else Some (CK_SUCCESS, s))"

section \<open>Initialisation\<close>

text \<open>\<open>kstart\<close> and \<open>kend\<close> are the addresses of the linker symbols \<open>_kernel_start\<close> and
  \<open>_kernel_end\<close>. \<open>PAGE_SIZE - 1\<close> is an \<open>int\<close>, so its complement is sign-extended.\<close>

definition paging_init ::
  "(u64 \<Rightarrow> ptr) \<Rightarrow> (ptr \<Rightarrow> u64) \<Rightarrow> u64 \<Rightarrow> u64 \<Rightarrow> 'a paging_state_scheme \<Rightarrow> 'a paging_state_scheme option" where
  "paging_init p2v v2p kstart kend s =
     (case alloc_page 0 s of (pgd, s1) \<Rightarrow>
        let s2 = s1\<lparr>g_kernel_pgd := pgd\<rparr> in
        if pgd = 0 then Some s2
        else let s3 = s2\<lparr>mem := mem_set (mem s2) pgd 0 PAGE_SIZE\<rparr> in
          (case create_identity_map p2v v2p pgd 0 0x100000000
                  (PTE_PRESENT OR PTE_WRITABLE OR PTE_GLOBAL) s3 of
             None \<Rightarrow> None
           | Some (_, s4) \<Rightarrow>
               (let kernel_start = kstart AND NOT (PAGE_SIZE - 1);
                    kernel_end = (kend + PAGE_SIZE - 1) AND NOT (PAGE_SIZE - 1)
                in map_option snd
                     (create_identity_map p2v v2p pgd kernel_start kernel_end
                       (PTE_PRESENT OR PTE_WRITABLE OR PTE_GLOBAL OR PTE_NX) s4))))"

text \<open>
  \<open>efer\<close> is read from \<open>ecx\<close>, whose value at that point is the argument \<open>ecx\<close>; the result of
  \<open>rdmsr\<close> is not used. \<open>1 << 31\<close> is a negative \<open>int\<close>: converted to 64 bits it is sign-extended.
\<close>

definition enable_paging :: "(ptr \<Rightarrow> u64) \<Rightarrow> u32 \<Rightarrow> 'a paging_state_scheme \<Rightarrow> 'a paging_state_scheme" where
  "enable_paging v2p ecx s =
     (if g_kernel_pgd s = 0 then s
      else let s1 = write_cr3 (v2p (g_kernel_pgd s)) s;
               c4 = cr4 s1 OR push_bit 5 1;
               s2 = write_cr4 (c4 OR push_bit 7 1) s1;
               efer = ucast ecx OR push_bit 8 1 OR push_bit 11 1;
               s3 = s2\<lparr>msr_efer := push_bit 32 (drop_bit 32 efer) OR (efer AND 0xFFFFFFFF)\<rparr>;
               c0 = cr0 s3 OR scast (push_bit 31 1 :: u32);
               s4 = write_cr0 (c0 OR push_bit 16 1) s3
           in s4\<lparr>g_paging_enabled := 1\<rparr>)"

definition get_cr3 :: "'a paging_state_scheme \<Rightarrow> u64" where
  "get_cr3 s = cr3 s"

definition flush_tlb :: "'a paging_state_scheme \<Rightarrow> 'a paging_state_scheme" where
  "flush_tlb s = write_cr3 (get_cr3 s) s"

definition flush_tlb_page :: "u64 \<Rightarrow> 'a paging_state_scheme \<Rightarrow> 'a paging_state_scheme" where
  "flush_tlb_page virt s = invlpg virt s"

end
