(* ===== verification/CK_Paging_Inv.thy ===== *)
theory CK_Paging_Inv
  imports CK_Paging
begin

text \<open>
  Page tables as a tree over the byte memory. \<open>table_at\<close> is the table the hardware reaches at a
  given depth, \<open>leaf\<close> the leaf entry it ends at. Well-formed tables are pages in use, reached
  along one path only; a store to one slot therefore changes the translation of the addresses
  below that slot and of no other.
\<close>

section \<open>Slots of a table\<close>

definition pt_idx :: "nat \<Rightarrow> u64 \<Rightarrow> u64" where
  "pt_idx d v = take_bit 9 (drop_bit (39 - 9 * d) v)"

lemma and_511: "x AND (512 - 1) = (take_bit 9 x :: u64)"
  by (simp add: take_bit_eq_mask mask_eq_exp_minus_1)

lemma model_idx:
  "drop_bit 39 v AND (PTRS_PER_PGD - 1) = pt_idx 0 v"
  "drop_bit 30 v AND (PTRS_PER_PUD - 1) = pt_idx 1 v"
  "drop_bit 21 v AND (PTRS_PER_PMD - 1) = pt_idx 2 v"
  "drop_bit 12 v AND (PTRS_PER_PTE - 1) = pt_idx 3 v"
  unfolding PTRS_PER_PGD_def PTRS_PER_PUD_def PTRS_PER_PMD_def PTRS_PER_PTE_def and_511 pt_idx_def
  by simp_all

lemma pt_idx_less: "unat (pt_idx d v) < 512"
proof -
  have "unat (take_bit 9 (drop_bit (39 - 9 * d) v)) < 2 ^ 9" unfolding unsigned_take_bit_eq by (rule take_bit_nat_less_exp)
  then show ?thesis by (simp add: pt_idx_def)
qed

lemma unat_slot:
  assumes "aligned 12 t"
  shows "unat (entry_addr t (pt_idx d v)) = unat t + 8 * unat (pt_idx d v)"
proof -
  have "unat t + 4096 \<le> 2 ^ 64" using aligned_room [OF assms] by simp
  with pt_idx_less [of d v] show ?thesis by (simp add: entry_addr_def unat_word_ariths)
qed

lemma slot_facts:
  assumes "aligned 12 t"
  shows "aligned 3 (entry_addr t (pt_idx d v))" "pfn (entry_addr t (pt_idx d v)) = pfn t"
proof -
  obtain k where k: "unat t = 4096 * k" using assms by (auto simp: aligned_iff_dvd)
  show "aligned 3 (entry_addr t (pt_idx d v))" "pfn (entry_addr t (pt_idx d v)) = pfn t"
    using pt_idx_less [of d v] by (simp_all add: aligned_iff_dvd unat_slot assms k)
qed

lemma slot_inj:
  assumes "aligned 12 t" "aligned 12 t'" "entry_addr t (pt_idx d v) = entry_addr t' (pt_idx d' v')"
  shows "t = t' \<and> pt_idx d v = pt_idx d' v'"
proof -
  obtain k k' where k: "unat t = 4096 * k" "unat t' = 4096 * k'"
    using assms(1,2) by (auto simp: aligned_iff_dvd elim!: dvdE)
  have e: "4096 * k + 8 * unat (pt_idx d v) = 4096 * k' + 8 * unat (pt_idx d' v')"
    using arg_cong [OF assms(3), of unat] by (simp add: unat_slot assms(1,2) k)
  have "(4096 * k + 8 * unat (pt_idx d v)) div 4096 = k" "(4096 * k' + 8 * unat (pt_idx d' v')) div 4096 = k'"
    using pt_idx_less [of d v] pt_idx_less [of d' v'] by simp_all
  then have "k = k'" using e by simp
  then show ?thesis using e k by (auto simp: word_unat_eq_iff)
qed

section \<open>Paths and tables\<close>

definition same_path :: "nat \<Rightarrow> u64 \<Rightarrow> u64 \<Rightarrow> bool" where
  "same_path d v v' \<longleftrightarrow> (\<forall>i<d. pt_idx i v = pt_idx i v')"

lemma same_path_simps [simp]: "same_path 0 v v'" "same_path d v v"
  "same_path (Suc d) v v' \<longleftrightarrow> same_path d v v' \<and> pt_idx d v = pt_idx d v'"
  by (auto simp: same_path_def less_Suc_eq)

lemma same_path_4: "same_path 4 v v' \<longleftrightarrow> same_path 3 v v' \<and> pt_idx 3 v = pt_idx 3 v'"
  using same_path_simps(3) [of 3 v v'] by simp

lemma same_path_mono: "same_path d v v' \<Longrightarrow> d' \<le> d \<Longrightarrow> same_path d' v v'"
  by (simp add: same_path_def)

lemma same_path_sym: "same_path d v v' \<longleftrightarrow> same_path d v' v"
  by (auto simp: same_path_def)

lemma same_path_trans: "same_path d v v' \<Longrightarrow> same_path d v' v'' \<Longrightarrow> same_path d v v''"
  by (simp add: same_path_def)

definition next_table :: "(u64 \<Rightarrow> ptr) \<Rightarrow> u64 \<Rightarrow> ptr option" where
  "next_table p2v e = (if e AND PTE_PRESENT = 0 then None else Some (p2v (e AND PTE_ADDR)))"

primrec table_at :: "(u64 \<Rightarrow> ptr) \<Rightarrow> memory \<Rightarrow> ptr \<Rightarrow> u64 \<Rightarrow> nat \<Rightarrow> ptr option" where
  "table_at p2v m root v 0 = Some root"
| "table_at p2v m root v (Suc d) =
     (case table_at p2v m root v d of
        None \<Rightarrow> None
      | Some t \<Rightarrow> next_table p2v (load64 m (entry_addr t (pt_idx d v))))"

definition leaf :: "(u64 \<Rightarrow> ptr) \<Rightarrow> memory \<Rightarrow> ptr \<Rightarrow> u64 \<Rightarrow> u64" where
  "leaf p2v m root v =
     (case table_at p2v m root v 3 of None \<Rightarrow> 0 | Some t \<Rightarrow> load64 m (entry_addr t (pt_idx 3 v)))"

lemma table_at_path: "same_path d v v' \<Longrightarrow> table_at p2v m root v d = table_at p2v m root v' d"
  by (induction d) (auto split: option.splits)

text \<open>\<open>F\<close> is the set of page numbers that are not in use.\<close>

definition pt_wf :: "(u64 \<Rightarrow> ptr) \<Rightarrow> memory \<Rightarrow> ptr \<Rightarrow> nat set \<Rightarrow> bool" where
  "pt_wf p2v m root F \<longleftrightarrow>
     (\<forall>v d t. d \<le> 3 \<and> table_at p2v m root v d = Some t \<longrightarrow> t \<noteq> 0 \<and> aligned 12 t \<and> pfn t \<notin> F) \<and>
     (\<forall>v d v' d' t. d \<le> 3 \<and> d' \<le> 3 \<and> table_at p2v m root v d = Some t \<and> table_at p2v m root v' d' = Some t \<longrightarrow>
        d = d' \<and> same_path d v v')"

lemma pt_wfD:
  assumes "pt_wf p2v m root F" "d \<le> 3" "table_at p2v m root v d = Some t"
  shows "aligned 12 t" "pfn t \<notin> F" "t \<noteq> 0"
    and "d' \<le> 3 \<Longrightarrow> table_at p2v m root v' d' = Some t \<Longrightarrow> d' = d \<and> same_path d v v'"
  using assms unfolding pt_wf_def by metis+

lemma pt_wf_cong:
  assumes "\<And>v d. d \<le> 3 \<Longrightarrow> table_at p2v m' root v d = table_at p2v m root v d"
  shows "pt_wf p2v m' root F = pt_wf p2v m root F"
  using assms by (simp add: pt_wf_def cong: conj_cong)

lemma table_at_agree:
  assumes "\<And>v d t. d \<le> 3 \<Longrightarrow> table_at p2v m root v d = Some t \<Longrightarrow>
      load64 m' (entry_addr t (pt_idx d v)) = load64 m (entry_addr t (pt_idx d v))"
  shows "d \<le> 3 \<Longrightarrow> table_at p2v m' root v d = table_at p2v m root v d"
  using assms by (induction d) (auto split: option.splits)

lemma tables_agree:
  assumes "\<And>v d t. d \<le> 3 \<Longrightarrow> table_at p2v m root v d = Some t \<Longrightarrow>
      load64 m' (entry_addr t (pt_idx d v)) = load64 m (entry_addr t (pt_idx d v))"
  shows "pt_wf p2v m' root F = pt_wf p2v m root F" "leaf p2v m' root = leaf p2v m root"
proof -
  have t: "d \<le> 3 \<Longrightarrow> table_at p2v m' root v d = table_at p2v m root v d" for d v
    using table_at_agree [of p2v m root m'] assms by blast
  then show "pt_wf p2v m' root F = pt_wf p2v m root F" by (rule pt_wf_cong)
  show "leaf p2v m' root = leaf p2v m root"
    using t [of 3] assms [of 3] by (auto simp: leaf_def fun_eq_iff split: option.splits)
qed

section \<open>A store to one slot\<close>

lemma slot_store:
  assumes wf: "pt_wf p2v m root F" and t: "d \<le> 3" "table_at p2v m root v d = Some t"
    and t': "d' \<le> 3" "table_at p2v m root v' d' = Some t'"
  shows "load64 (store64 m (entry_addr t (pt_idx d v)) e) (entry_addr t' (pt_idx d' v')) =
    (if d' = d \<and> same_path (Suc d) v v' then e else load64 m (entry_addr t' (pt_idx d' v')))"
proof -
  have al: "aligned 12 t" "aligned 12 t'" using pt_wfD(1) [OF wf] t t' by blast+
  show ?thesis
  proof (cases "entry_addr t (pt_idx d v) = entry_addr t' (pt_idx d' v')")
    case True
    then have "t = t'" "pt_idx d v = pt_idx d' v'" using slot_inj al by blast+
    moreover have "d' = d \<and> same_path d v v'"
      using pt_wfD(4) [OF wf t t'(1), of v'] t'(2) \<open>t = t'\<close> by blast
    ultimately show ?thesis using slot_facts(1) [OF al(1)] by (simp add: load64_store64_same)
  next
    case False
    have "\<not> (d' = d \<and> same_path (Suc d) v v')"
      using False table_at_path [of d v v' p2v m root] t(2) t'(2) by auto
    then show ?thesis using False slot_facts(1) al by (auto simp: load64_store64_other simp del: same_path_simps)
  qed
qed

lemma store_table_at:
  assumes wf: "pt_wf p2v m root F" and t: "d \<le> 3" "table_at p2v m root v d = Some t"
    and "d' \<le> 3" "d' \<le> d \<or> \<not> same_path (Suc d) v v'"
  shows "table_at p2v (store64 m (entry_addr t (pt_idx d v)) e) root v' d' = table_at p2v m root v' d'"
  using assms(4,5)
proof (induction d')
  case (Suc d')
  then have IH: "table_at p2v (store64 m (entry_addr t (pt_idx d v)) e) root v' d' = table_at p2v m root v' d'"
    by auto
  show ?case
  proof (cases "table_at p2v m root v' d'")
    case (Some t')
    have "\<not> (d' = d \<and> same_path (Suc d) v v')" using Suc.prems by auto
    then show ?thesis using IH Some slot_store [OF wf t _ Some] Suc.prems(1) by auto
  qed (simp add: IH)
qed simp

lemma store_leaf:
  assumes wf: "pt_wf p2v m root F" and t: "table_at p2v m root v 3 = Some t"
    and m'_def: "m' = store64 m (entry_addr t (pt_idx 3 v)) e"
  shows "pt_wf p2v m' root F" "leaf p2v m' root v' = (if same_path 4 v v' then e else leaf p2v m root v')"
proof -
  have ta: "table_at p2v m' root x d = table_at p2v m root x d" if "d \<le> 3" for x d
    unfolding m'_def using store_table_at [OF wf _ t that] that by simp
  then show "pt_wf p2v m' root F" using wf pt_wf_cong by blast
  show "leaf p2v m' root v' = (if same_path 4 v v' then e else leaf p2v m root v')"
  proof (cases "table_at p2v m root v' 3")
    case None
    then have "\<not> same_path 3 v v'" using table_at_path [of 3 v v' p2v m root] t by auto
    then show ?thesis using None ta same_path_mono [of 4 v v' 3] by (auto simp: leaf_def)
  next
    case (Some t')
    then show ?thesis using ta slot_store [OF wf _ t _ Some, of e]
      by (simp add: leaf_def m'_def same_path_4)
  qed
qed

section \<open>Linking a fresh table\<close>

lemma store_fresh_zero:
  assumes "aligned 12 t" "aligned 12 q" "pfn t \<noteq> pfn q"
    and "\<And>a. aligned 3 a \<Longrightarrow> pfn a = pfn q \<Longrightarrow> load64 m a = 0"
  shows "load64 (store64 m (entry_addr t (pt_idx d v)) e) (entry_addr q (pt_idx k x)) = 0"
proof -
  have "entry_addr t (pt_idx d v) \<noteq> entry_addr q (pt_idx k x)" using slot_inj [OF assms(1,2)] assms(3) by blast
  then show ?thesis using slot_facts [OF assms(2)] slot_facts(1) [OF assms(1)] assms(4)
    by (simp add: load64_store64_other)
qed

lemma link_table_at:
  assumes wf: "pt_wf p2v m root F" and t: "d < 3" "table_at p2v m root v d = Some t"
    and e: "next_table p2v e = Some q"
    and q: "aligned 12 q" "\<And>d' v' t'. d' \<le> 3 \<Longrightarrow> table_at p2v m root v' d' = Some t' \<Longrightarrow> pfn t' \<noteq> pfn q"
    and zero: "\<And>a. aligned 3 a \<Longrightarrow> pfn a = pfn q \<Longrightarrow> load64 m a = 0"
    and m'_def: "m' = store64 m (entry_addr t (pt_idx d v)) e"
    and d': "d' \<le> 3"
  shows "table_at p2v m' root v' d' =
    (if d < d' \<and> same_path (Suc d) v v' then (if d' = Suc d then Some q else None) else table_at p2v m root v' d')"
  using d'
proof (induction d')
  case (Suc d')
  have al: "aligned 12 t" and ne: "pfn t \<noteq> pfn q" using pt_wfD(1) [OF wf _ t(2)] q(2) [OF _ t(2)] t(1) by auto
  have zq: "load64 m' (entry_addr q (pt_idx k x)) = 0" for k x
    unfolding m'_def using al ne q(1) zero by (intro store_fresh_zero)
  show ?case
  proof (cases "d < Suc d' \<and> same_path (Suc d) v v'")
    case False
    then show ?thesis using store_table_at [OF wf _ t(2) Suc.prems, of v' e] t(1) by (auto simp: m'_def)
  next
    case True
    show ?thesis
    proof (cases "d' = d")
      case True': True
      have tv: "table_at p2v m root v' d = Some t" using True table_at_path [of d v v' p2v m root] t(2) by simp
      have "load64 m' (entry_addr t (pt_idx d v')) = e"
        using slot_store [OF wf _ t(2) _ tv, of e] True t(1) by (simp add: m'_def)
      moreover have "table_at p2v m' root v' d = Some t"
        using store_table_at [OF wf _ t(2), of d v' e] tv t(1) by (simp add: m'_def)
      ultimately show ?thesis using True True' e by simp
    next
      case False
      then have "table_at p2v m' root v' d' = (if d' = Suc d then Some q else None)"
        using Suc True by auto
      then show ?thesis using True False zq by (auto simp: next_table_def PTE_PRESENT_def)
    qed
  qed
qed simp

lemma link_table:
  assumes wf: "pt_wf p2v m root F" and t: "d < 3" "table_at p2v m root v d = Some t"
    and np: "load64 m (entry_addr t (pt_idx d v)) AND PTE_PRESENT = 0"
    and e: "next_table p2v e = Some q"
    and q: "aligned 12 q" "\<And>d' v' t'. d' \<le> 3 \<Longrightarrow> table_at p2v m root v' d' = Some t' \<Longrightarrow> pfn t' \<noteq> pfn q"
    and zero: "\<And>a. aligned 3 a \<Longrightarrow> pfn a = pfn q \<Longrightarrow> load64 m a = 0"
    and m'_def: "m' = store64 m (entry_addr t (pt_idx d v)) e" and F: "q \<noteq> 0" "pfn q \<notin> F'" "F' \<subseteq> F"
  shows "pt_wf p2v m' root F'" "leaf p2v m' root v' = leaf p2v m root v'"
    "table_at p2v m' root v (Suc d) = Some q"
    "\<And>x k t'. k \<le> 3 \<Longrightarrow> table_at p2v m root x k = Some t' \<Longrightarrow> table_at p2v m' root x k = Some t'"
proof -
  have ta: "table_at p2v m' root x k =
      (if d < k \<and> same_path (Suc d) v x then (if k = Suc d then Some q else None) else table_at p2v m root x k)"
    if "k \<le> 3" for x k
    using link_table_at [OF wf t e q(1) _ _ m'_def that] q(2) zero by blast
  show q': "table_at p2v m' root v (Suc d) = Some q" using ta [of "Suc d" v] t(1) by simp
  have below: "table_at p2v m root x d' = None" if "d < d'" "same_path (Suc d) v x" for x d'
  proof -
    have "table_at p2v m root x (Suc d) = None"
      using that(2) table_at_path [of "Suc d" v x p2v m root] t(2) np by (simp add: next_table_def)
    then show ?thesis using that(1) by (induction d') (auto simp: less_Suc_eq simp del: same_path_simps)
  qed
  show "table_at p2v m' root x k = Some t'" if "k \<le> 3" "table_at p2v m root x k = Some t'" for x k t'
    using ta [OF that(1), of x] below [of k x] that(2) by auto
  show "pt_wf p2v m' root F'"
    unfolding pt_wf_def
  proof (intro conjI allI impI; elim conjE)
    fix x k s assume k: "k \<le> 3" "table_at p2v m' root x k = Some s"
    then show "s \<noteq> 0" "aligned 12 s" "pfn s \<notin> F'"
      using ta [OF k(1), of x] q(1) F pt_wfD(1-3) [OF wf k(1), of x s] by (auto split: if_splits)
  next
    fix x k x' k' s assume k: "k \<le> 3" "k' \<le> 3" "table_at p2v m' root x k = Some s" "table_at p2v m' root x' k' = Some s"
    have "(k = Suc d \<and> s = q \<and> same_path (Suc d) v x \<or> table_at p2v m root x k = Some s)"
      "(k' = Suc d \<and> s = q \<and> same_path (Suc d) v x' \<or> table_at p2v m root x' k' = Some s)"
      using ta k by (auto split: if_splits)
    moreover have "table_at p2v m root y j \<noteq> Some q" if "j \<le> 3" for y j using q(2) [OF that] by blast
    ultimately have "k = Suc d \<and> k' = Suc d \<and> same_path (Suc d) v x \<and> same_path (Suc d) v x' \<or>
        table_at p2v m root x k = Some s \<and> table_at p2v m root x' k' = Some s"
      using k(1,2) by blast
    moreover have "same_path (Suc d) x x'" if "same_path (Suc d) v x" "same_path (Suc d) v x'"
      using that same_path_trans same_path_sym by blast
    moreover have "k' = k \<and> same_path k x x'" if "table_at p2v m root x k = Some s" "table_at p2v m root x' k' = Some s"
      using pt_wfD(4) [OF wf k(1) that(1) k(2) that(2)] .
    ultimately show "k = k'" "same_path k x x'" by blast+
  qed
  show "leaf p2v m' root v' = leaf p2v m root v'"
  proof (cases "same_path (Suc d) v v'")
    case True
    have "pfn t \<noteq> pfn q" "aligned 12 t" using q(2) [OF _ t(2)] t(1) pt_wfD(1) [OF wf _ t(2)] by auto
    then have "load64 m' (entry_addr q (pt_idx 3 v')) = 0"
      unfolding m'_def by (intro store_fresh_zero q(1) zero)
    then show ?thesis using True below [of 3 v'] ta [of 3 v'] t(1) by (auto simp: leaf_def)
  next
    case False
    then have "table_at p2v m' root v' 3 = table_at p2v m root v' 3" using ta [of 3 v'] by auto
    moreover have "load64 m' (entry_addr t' (pt_idx 3 v')) = load64 m (entry_addr t' (pt_idx 3 v'))"
      if "table_at p2v m root v' 3 = Some t'" for t'
      using slot_store [OF wf _ t(2) _ that, of e] t(1) by (simp add: m'_def)
    ultimately show ?thesis by (auto simp: leaf_def split: option.splits)
  qed
qed
end
