(* ===== verification/CK_Frame_Props.thy ===== *)
theory CK_Frame_Props
  imports CK_Frame_Free
begin

text \<open>
  The properties of \<open>src/kernel/memory/frame_alloc.c\<close>: allocation and release against the
  invariant, the state after initialisation, the page counter, and the bitmap search.
\<close>

section \<open>A state with one free block\<close>

lemma area_boot: "z < 3 \<Longrightarrow> k < 12 \<Longrightarrow> area (frame_boot m) z k = \<lparr>nr_free = 0, free_list = 0\<rparr>"
  by (simp add: area_def frame_boot_def zone_zero_def)

lemma blocks_none: "nr_free (area s z k) = 0 \<Longrightarrow> blocks s z k = []"
  by (simp add: blocks_def)

lemma frame_inv_empty:
  assumes "shape s" "\<And>z k. z < 3 \<Longrightarrow> k < 12 \<Longrightarrow> nr_free (area s z k) = 0"
  shows "frame_inv s" and "free_pfns s = {}"
proof -
  have b: "blocks s z k = []" if "z < 3" "k < 12" for z k using assms(2) [OF that] by (rule blocks_none)
  then have "free_blocks s = {}" by (auto simp: free_blocks_def)
  then show "frame_inv s" "free_pfns s = {}" using assms(1) b by (auto simp: frame_inv_def free_pfns_def)
qed

lemma shape_boot: "shape (frame_boot m)"
  by (simp add: shape_def frame_boot_def zone_zero_def)

lemma frame_boot_inv: "frame_inv (frame_boot m)" "free_pfns (frame_boot m) = {}" "lists_ended (frame_boot m)"
  using frame_inv_empty [OF shape_boot] by (auto simp: area_boot lists_ended_def)

text \<open>The memory of one block of \<open>2 ^ k\<close> pages at \<open>0x800000\<close>, in the DMA zone.\<close>

definition one_block :: "u64 \<Rightarrow> frame_state" where
  "one_block k = push_block 0 k 0x800000 (frame_boot (\<lambda>_. 0))"

lemma one_block_inv:
  assumes "k < 12"
  shows "frame_inv (one_block k)" "free_pfns (one_block k) = pages 0x800000 (unat k)"
    "lists_ended (one_block k)"
proof -
  have k: "unat k < 12" using assms by (simp add: word_less_nat_alt)
  have "(2::nat) ^ (12 + unat k) dvd 2 ^ 23" by (rule le_imp_power_dvd) (use k in simp)
  then have g: "good_block (unat k) 0x800000" by (simp add: good_block_def aligned_iff_dvd)
  note p = push_block_correct [OF frame_boot_inv(1) _ k g]
  show "frame_inv (one_block k)" "lists_ended (one_block k)" "free_pfns (one_block k) = pages 0x800000 (unat k)"
    using p frame_boot_inv by (simp_all add: one_block_def)
qed

lemma area_one_block:
  "k < 12 \<Longrightarrow> z < 3 \<Longrightarrow> j < 12 \<Longrightarrow> area (one_block k) z j =
    (if z = 0 \<and> j = unat k then \<lparr>nr_free = 1, free_list = 0x800000\<rparr> else \<lparr>nr_free = 0, free_list = 0\<rparr>)"
  using shape_boot [of "\<lambda>_. 0"]
  by (simp add: one_block_def push_block_def Let_def area_set_area word_less_nat_alt area_boot)

lemma shape_one_block: "k < 12 \<Longrightarrow> shape (one_block k)"
  using one_block_inv(1) by (simp add: frame_inv_def)

lemma alloc_one_block:
  "alloc_pages 0 0 (one_block 1) =
     (0x800000, set_area 0 0 \<lparr>nr_free = 1, free_list = 0x801000\<rparr>
       ((pop_area 0 1 (one_block 1))\<lparr>g_free_pages := g_free_pages (one_block 1) - 2\<rparr>))"
proof -
  have "alloc_pages_zone 0 1 (one_block 1) =
    (0x800000, (pop_area 0 1 (one_block 1))\<lparr>g_free_pages := g_free_pages (one_block 1) - 2\<rparr>)"
    using alloc_pages_zone_pop [of 1 "one_block 1" 0] by (simp add: area_one_block pop_area_def)
  then show ?thesis
    using alloc_pages_zone_split [of 0 "one_block 1" 0] shape_one_block [of 1]
    by (simp add: area_one_block alloc_pages_def MAX_ZONES_def pop_area_def area_set_area get_buddy_def
        PAGE_SHIFT_def)
qed

section \<open>Allocation and release\<close>

text \<open>C1: In a state that satisfies the allocator's invariant, \<open>alloc_pages\<close> of a valid order never
  writes memory and keeps the invariant. If it returns \<open>NULL\<close> nothing changed and the zone has no
  free block of that order or a larger one; otherwise the block is aligned to its size, all its
  pages were free in that zone, and exactly these pages stop being free. An invalid zone index
  means the normal zone.\<close>

theorem alloc_pages_correct:
  assumes "frame_inv s" and "order < NR_FREE_AREA" and "alloc_pages order zone_idx s = (p, s')"
    and "z = (if zone_idx < 0 \<or> 3 \<le> zone_idx then 1 else nat zone_idx)"
  shows "frame_inv s' \<and> mem s' = mem s \<and>
    (if p = 0
     then s' = s \<and> (\<forall>k. unat order \<le> k \<and> k < 12 \<longrightarrow> blocks s z k = [])
     else aligned (12 + unat order) p \<and> pages p (unat order) \<subseteq> zone_pfns s z \<and>
          free_pfns s' = free_pfns s - pages p (unat order))"
  using assms by (rule alloc_pages_run)

theorem alloc_pages_correct_witness:
  "frame_inv (snd (alloc_pages 0 0 (one_block 1))) \<and>
   free_pfns (snd (alloc_pages 0 0 (one_block 1))) = {0x801}"
proof -
  have "pages 0x800000 0 = {0x800}" "pages 0x800000 1 = {0x800, 0x801}" by (auto simp: pages_def)
  then show ?thesis
    using alloc_pages_correct [OF one_block_inv(1) _ alloc_one_block refl] one_block_inv(2) [of 1]
    by (auto simp: alloc_one_block NR_FREE_AREA_def)
qed

text \<open>C2: Releasing a block that is aligned to its size, is not free, and lies at or above 8 MiB,
  in a state in which every free list ends with \<open>NULL\<close>, always returns, keeps the invariant and the termination of every list, and makes exactly the
  pages of the block free, whatever buddies were merged on the way; memory outside the free pages
  is untouched.\<close>

theorem free_pages_correct:
  assumes "frame_inv s" "lists_ended s" "order < NR_FREE_AREA"
    and "aligned (12 + unat order) p" "2 ^ 23 \<le> unat p"
    and "pages p (unat order) \<inter> free_pfns s = {}"
  shows "\<exists>s'. free_pages p order s = Some s' \<and> frame_inv s' \<and> lists_ended s' \<and>
    free_pfns s' = free_pfns s \<union> pages p (unat order) \<and>
    (\<forall>a. unat a div 4096 \<notin> free_pfns s' \<longrightarrow> mem s' a = mem s a)"
  using assms by (rule free_pages_run)

theorem free_pages_correct_witness:
  "\<exists>s'. free_pages 0x801000 0 (one_block 0) = Some s' \<and> free_pfns s' = {0x800, 0x801}"
proof -
  have "pages 0x801000 (unat (0 :: u64)) = {0x801}" "pages 0x800000 (unat (0 :: u64)) = {0x800}"
    by (auto simp: pages_def)
  then show ?thesis
    using free_pages_correct [OF one_block_inv(1,3), of 0 0 "0x801000"]
    by (auto simp: NR_FREE_AREA_def one_block_inv aligned_def insert_commute)
qed

text \<open>The counter behind \<open>get_free_pages\<close> drops by the size of the block taken from the free
  list, \<open>2 ^ k\<close> for the smallest non-empty order \<open>k\<close>, and not by the \<open>2 ^ order\<close> pages handed out,
  although the split halves stay free.\<close>

theorem alloc_pages_counter:
  assumes "frame_inv s" and "z < 3" and "order < NR_FREE_AREA" and "first_order z (unat order) s k"
  shows "get_free_pages (snd (alloc_pages order (int z) s)) = get_free_pages s - 2 ^ k"
proof -
  have o: "unat order < 12" using assms(3) by (simp add: NR_FREE_AREA_def word_less_nat_alt)
  have a: "alloc_pages order (int z) s = alloc_pages_zone z order s"
    using assms(2) by (simp add: alloc_pages_def MAX_ZONES_def)
  show ?thesis
  proof (rule alloc_pages_zone_run [of s z order])
    show "shape s" "z < 3" "unat order < 12" using assms o by (simp_all add: frame_inv_def)
    show "free_list (area s z j) \<noteq> 0" if "j < 12" "nr_free (area s z j) \<noteq> 0" for j
      using head_good [OF assms(1,2) that] by (simp add: good_block_def)
    show ?thesis if "alloc_pages_zone z order s = (0, s)"
      "\<And>k. unat order \<le> k \<Longrightarrow> k < 12 \<Longrightarrow> nr_free (area s z k) = 0"
      using that(2) assms(4) by (auto simp: first_order_def)
    show ?thesis if f: "first_order z (unat order) s j" and
      r: "alloc_pages_zone z order s = (free_list (area s z j), s1)"
      "alloc_effect z (unat order) j (free_list (area s z j)) s s1" for j s1
    proof -
      have "j = k" using f assms(4) unfolding first_order_def by (metis linorder_neqE_nat)
      then show ?thesis using r a by (auto simp: alloc_effect_def get_free_pages_def)
    qed
  qed
qed

theorem alloc_pages_counter_witness:
  "get_free_pages (snd (alloc_pages 0 0 (one_block 1))) = get_free_pages (one_block 1) - 2"
proof -
  have "first_order 0 (unat 0) (one_block 1) 1" by (auto simp: first_order_def area_one_block)
  then show ?thesis
    using alloc_pages_counter [OF one_block_inv(1), of 1 0 0 1] by (simp add: NR_FREE_AREA_def)
qed

text \<open>When the buddy of a released block of order below \<open>MAX_ORDER\<close> heads its free list and the
  merged block cannot be merged again, the counter grows by \<open>2 ^ (order + 1)\<close>: the buddy's pages,
  which were counted as free already, are counted a second time.\<close>

theorem free_pages_counter:
  assumes "p \<noteq> 0" and "order < MAX_ORDER" and "z = nat (page_zone p)" and "shape s"
    and "free_list (area s z (unat order)) = get_buddy p order"
    and "q = p AND get_buddy p order"
    and "free_list (area s z (unat order + 1)) \<noteq> get_buddy q (order + 1)"
  shows "\<exists>s'. free_pages p order s = Some s' \<and>
    get_free_pages s' = get_free_pages s + 2 ^ (unat order + 1)"
proof -
  have o: "unat order < 11" using assms(2) by (simp add: MAX_ORDER_def word_less_nat_alt)
  then have o1: "unat (order + 1) = unat order + 1" by (simp add: unat_word_ariths)
  have "area (pop_area z order s) z (unat order + 1) = area s z (unat order + 1)"
    using assms(3,4) o page_zone_less by (simp add: pop_area_def Let_def area_set_area)
  then have c: "coalesce z p order s = (q, order + 1, pop_area z order s)"
    using coalesce_merge [OF assms(2,5)] coalesce_stop(2) [of "pop_area z order s" z "order + 1" q] assms(6,7) o1
    by simp
  have "order + 1 < NR_FREE_AREA" using o o1 by (simp add: NR_FREE_AREA_def word_less_nat_alt)
  from free_pages_push [OF assms(1) c [unfolded assms(3)] this]
  show ?thesis by (simp add: get_free_pages_def pop_area_def Let_def o1)
qed

theorem free_pages_counter_witness:
  "\<exists>s'. free_pages 0x801000 0 (one_block 0) = Some s' \<and>
    get_free_pages s' = get_free_pages (one_block 0) + 2"
proof -
  have z: "0 = nat (page_zone 0x801000)" by (simp add: page_zone_def PAGE_SHIFT_def ZONE_DMA_def)
  have b: "get_buddy 0x801000 0 = 0x800000" "get_buddy 0x800000 (0 + 1) = 0x802000"
    by (simp_all add: get_buddy_def PAGE_SHIFT_def)
  have a: "free_list (area (one_block 0) 0 (unat (0 :: u64))) = get_buddy 0x801000 0"
    "free_list (area (one_block 0) 0 (unat (0 :: u64) + 1)) \<noteq> get_buddy 0x800000 (0 + 1)"
    unfolding b by (simp_all add: area_one_block)
  show ?thesis
    using free_pages_counter [OF _ _ z _ a(1) _ a(2)] shape_one_block [of 0]
    by (simp add: MAX_ORDER_def b)
qed

text \<open>Releasing a single page whose buddy is page frame 0 while the DMA list of order 0 is empty
  takes the empty list for the buddy: the count of that empty list wraps around to
  \<open>2 ^ 64 - 1\<close>.\<close>

theorem free_pages_null_buddy:
  assumes "shape s" and "area s 0 0 = \<lparr>nr_free = 0, free_list = 0\<rparr>"
    and "free_list (area s 0 1) \<noteq> 0x2000"
  shows "\<exists>s'. free_pages 0x1000 0 s = Some s' \<and> nr_free (area s' 0 0) = 0xFFFFFFFFFFFFFFFF"
proof -
  have z: "nat (page_zone 0x1000) = 0" by (simp add: page_zone_def PAGE_SHIFT_def ZONE_DMA_def)
  have b: "get_buddy 0x1000 0 = 0" "get_buddy 0 1 = 0x2000" by (simp_all add: get_buddy_def PAGE_SHIFT_def)
  have m: "area (pop_area 0 0 s) 0 1 = area s 0 1"
    using assms(1) by (simp add: pop_area_def Let_def area_set_area)
  have c: "coalesce 0 0x1000 0 s = (0, 1, pop_area 0 0 s)"
    using coalesce_merge [of 0 s 0 "0x1000"] coalesce_stop(2) [of "pop_area 0 0 s" 0 1 0] assms(2,3) m b
    by (simp add: MAX_ORDER_def)
  show ?thesis
    using free_pages_push [of "0x1000" 0 s, unfolded z, OF _ c] assms(1,2)
    by (simp add: NR_FREE_AREA_def push_block_def pop_area_def Let_def area_set_area)
qed

theorem free_pages_null_buddy_witness:
  "\<exists>s'. free_pages 0x1000 0 (frame_boot (\<lambda>_. 0)) = Some s' \<and> nr_free (area s' 0 0) = 0xFFFFFFFFFFFFFFFF"
  using free_pages_null_buddy [OF shape_boot, of "\<lambda>_. 0"] by (simp add: area_boot)

section \<open>Initialisation\<close>

definition conventional_pages :: "efi_memory_descriptor_t \<Rightarrow> u64" where
  "conventional_pages d = (if type d = EfiConventionalMemory then num_pages d else 0)"

lemma add_region_frame:
  "mem (add_region d s) = mem s"
  "g_total_pages (add_region d s) = g_total_pages s + conventional_pages d"
  "g_free_pages (add_region d s) = g_free_pages s + conventional_pages d"
  "shape s \<Longrightarrow> shape (add_region d s)"
  by (auto simp: add_region_def Let_def conventional_pages_def shape_def nth_list_update
      ZONE_DMA_def ZONE_NORMAL_def)

lemma add_regions_frame:
  "mem (add_regions n d ds s) = mem s"
  "g_total_pages (add_regions n d ds s) =
     g_total_pages s + (\<Sum>i<n. conventional_pages (read_desc (mem s) (d + of_nat i * ds)))"
  "g_free_pages (add_regions n d ds s) =
     g_free_pages s + (\<Sum>i<n. conventional_pages (read_desc (mem s) (d + of_nat i * ds)))"
  "shape s \<Longrightarrow> shape (add_regions n d ds s)"
  by (induction n d ds s rule: add_regions.induct)
    (simp_all add: add_region_frame sum.lessThan_Suc_shift algebra_simps del: sum.lessThan_Suc)

lemma clear_free_lists_empty:
  assumes "shape s"
  shows "shape (clear_free_lists s)" "z < 3 \<Longrightarrow> k < 12 \<Longrightarrow> nr_free (area (clear_free_lists s) z k) = 0"
  using assms by (simp_all add: clear_free_lists_def shape_def area_def)

lemma alloc_pages_empty:
  assumes "frame_inv s" "free_pfns s = {}"
  shows "alloc_pages order z s = (0, s)"
proof (cases "order < NR_FREE_AREA")
  case True
  obtain p s' where r: "alloc_pages order z s = (p, s')" by (cases "alloc_pages order z s")
  have "zone_pfns s y = {}" if "y < 3" for y
    using zone_pfns_subset [OF that] assms(2) by blast
  then show ?thesis using alloc_pages_run [OF assms(1) True r refl] r pages_start [of p "unat order"]
    by (auto split: if_splits)
next
  case False
  then show ?thesis by (auto simp: alloc_pages_def alloc_pages_zone.simps)
qed

text \<open>C38: Initialisation with a non-zero descriptor size returns, adds to both page counters the pages
  of the conventional-memory descriptors of the map, and leaves every free list empty: the
  counter reports free memory, but every allocation of any order from any zone returns
  \<open>NULL\<close>.\<close>

theorem init_leaves_no_free_memory:
  assumes "shape s" and "ds \<noteq> 0"
    and "np = (\<Sum>i < unat (sz div ds). conventional_pages (read_desc (mem s) (mm + of_nat i * ds)))"
  shows "\<exists>s'. frame_allocator_init mm sz ds s = Some s' \<and> frame_inv s' \<and>
    get_total_pages s' = get_total_pages s + np \<and> get_free_pages s' = get_free_pages s + np \<and>
    (\<forall>order z. alloc_pages order z s' = (0, s'))"
proof -
  let ?s = "clear_free_lists (add_regions (unat (sz div ds)) mm ds s)"
  have i: "frame_inv ?s" "free_pfns ?s = {}"
    using frame_inv_empty [OF clear_free_lists_empty [OF add_regions_frame(4) [OF assms(1)]]] by blast+
  have "get_total_pages ?s = get_total_pages s + np" "get_free_pages ?s = get_free_pages s + np"
    by (simp_all add: get_total_pages_def get_free_pages_def clear_free_lists_def add_regions_frame assms(3))
  then show ?thesis using i alloc_pages_empty [OF i] assms(2)
    by (simp add: frame_allocator_init_def)
qed

theorem init_leaves_no_free_memory_witness:
  "\<exists>s'. frame_allocator_init 0x1000 48 48
      (frame_boot (\<lambda>a. if a = 0x1000 then 7 else if a = 0x1018 then 5 else 0)) = Some s' \<and>
    get_free_pages s' = 5 \<and> alloc_page 0 s' = (0, s')"
proof -
  let ?m = "\<lambda>a. if a = 0x1000 then 7 else if a = 0x1018 then 5 else 0 :: u8"
  have "5 = (\<Sum>i < unat (48 div 48 :: u64). conventional_pages
      (read_desc (mem (frame_boot ?m)) (0x1000 + of_nat i * 48)))"
    by (simp add: frame_boot_def conventional_pages_def read_desc_def load64_def load32_def
        EfiConventionalMemory_def)
  from init_leaves_no_free_memory [OF shape_boot _ this] show ?thesis
    by (auto simp: frame_boot_def get_free_pages_def alloc_page_def)
qed

section \<open>Bitmaps\<close>

definition bm_bit :: "u64 list \<Rightarrow> nat \<Rightarrow> bool" where
  "bm_bit bm k \<longleftrightarrow> bit (bm ! (k div 64)) (k mod 64)"

lemma shift_and_one: "drop_bit j (w :: u64) AND 1 = of_bool (bit w j)"
  by (simp add: and_one_eq bit_iff_odd_drop_bit mod_2_eq_odd)

lemma find_zero_bit_spec:
  "case find_zero_bit w j n of
     Some k \<Rightarrow> j \<le> k \<and> k < j + n \<and> \<not> bit w k \<and> (\<forall>l. j \<le> l \<and> l < k \<longrightarrow> bit w l)
   | None \<Rightarrow> \<forall>l. j \<le> l \<and> l < j + n \<longrightarrow> bit w l"
proof (induction n arbitrary: j)
  case (Suc n)
  have le: "j \<le> l \<longleftrightarrow> j = l \<or> Suc j \<le> l" for l by auto
  show ?case using Suc [of "Suc j"] by (auto simp: shift_and_one le split: option.splits)
qed auto

lemma find_zero_word_Cons:
  "find_zero_word (w # ws) i =
     (case find_zero_bit w 0 64 of Some j \<Rightarrow> Some (i * 64 + j) | None \<Rightarrow> find_zero_word ws (Suc i))"
proof (cases "w = 0xFFFFFFFFFFFFFFFF")
  case True
  then have "w = - 1" by simp
  then have "bit w k" if "k < 64" for k using that by (simp only: bit_minus_1_iff) simp
  then have "find_zero_bit w 0 64 = None" using find_zero_bit_spec [where w = w and j = 0 and n = 64] by (auto split: option.splits)
  then show ?thesis using True by simp
qed simp

lemma bm_bit_Cons: "bm_bit (w # ws) l \<longleftrightarrow> (if l < 64 then bit w l else bm_bit ws (l - 64))"
  by (auto simp: bm_bit_def div_if [of l] le_mod_geq)

lemma find_zero_word_spec:
  "case find_zero_word ws i of
     Some k \<Rightarrow> \<exists>l. k = i * 64 + l \<and> l < 64 * length ws \<and> \<not> bm_bit ws l \<and> (\<forall>m<l. bm_bit ws m)
   | None \<Rightarrow> \<forall>l < 64 * length ws. bm_bit ws l"
proof (induction ws arbitrary: i)
  case (Cons w ws)
  show ?case
  proof (cases "find_zero_bit w 0 64")
    case (Some j)
    then show ?thesis using find_zero_bit_spec [where w = w and j = 0 and n = 64]
      by (auto simp: find_zero_word_Cons bm_bit_Cons simp del: find_zero_word.simps)
  next
    case None
    then have full: "l < 64 \<Longrightarrow> bit w l" for l using find_zero_bit_spec [where w = w and j = 0 and n = 64] by auto
    show ?thesis
    proof (cases "find_zero_word ws (Suc i)")
      case (Some k)
      then obtain l where l: "k = Suc i * 64 + l" "l < 64 * length ws" "\<not> bm_bit ws l" "\<forall>m<l. bm_bit ws m"
        using Cons [of "Suc i"] by auto
      have "k = i * 64 + (64 + l) \<and> 64 + l < 64 * length (w # ws) \<and> \<not> bm_bit (w # ws) (64 + l) \<and>
          (\<forall>m < 64 + l. bm_bit (w # ws) m)"
        using l full by (auto simp: bm_bit_Cons)
      then show ?thesis using None Some by (auto simp: find_zero_word_Cons simp del: find_zero_word.simps)
    next
      case None': None
      then show ?thesis using None full Cons [of "Suc i"]
        by (auto simp: find_zero_word_Cons bm_bit_Cons simp del: find_zero_word.simps)
    qed
  qed
qed simp

text \<open>On a bitmap of \<open>sz\<close> words with less than \<open>2 ^ 31\<close> bits, \<open>bitmap_find_zero\<close> returns the least
  clear bit, or \<open>-1\<close> when all bits are set.\<close>

theorem bitmap_find_zero_least:
  assumes "unat sz \<le> length bm" and "64 * unat sz < 2 ^ 31"
  shows "\<exists>r. bitmap_find_zero bm sz n = Some r \<and>
    (if r = -1 then \<forall>k < 64 * unat sz. bm_bit bm k
     else 0 \<le> r \<and> nat r < 64 * unat sz \<and> \<not> bm_bit bm (nat r) \<and> (\<forall>k < nat r. bm_bit bm k))"
proof -
  have b: "bm_bit (take (unat sz) bm) k \<longleftrightarrow> bm_bit bm k" if "k < 64 * unat sz" for k
    using that by (simp add: bm_bit_def less_mult_imp_div_less mult.commute)
  show ?thesis
  proof (cases "find_zero_word (take (unat sz) bm) 0")
    case None
    then show ?thesis using find_zero_word_spec [of "take (unat sz) bm" 0] assms(1) b
      by (simp add: bitmap_find_zero_def)
  next
    case (Some k)
    then have k: "k < 64 * unat sz" "\<not> bm_bit bm k" "\<forall>m<k. bm_bit bm m"
      using find_zero_word_spec [of "take (unat sz) bm" 0] assms(1) b by auto
    then have "sint (word_of_nat k :: u32) = int k" using assms(2) by (intro sint_u32_nat) simp
    then show ?thesis using k Some assms(1) by (auto simp: bitmap_find_zero_def)
  qed
qed

theorem bitmap_find_zero_least_witness:
  "bitmap_find_zero [0xFFFFFFFFFFFFFFFF, 0b1011] 2 128 = Some 66 \<and> \<not> bm_bit [0xFFFFFFFFFFFFFFFF, 0b1011] 66"
proof -
  have r: "bitmap_find_zero [0xFFFFFFFFFFFFFFFF, 0b1011] 2 128 = Some 66"
    by code_simp
  then show ?thesis using bitmap_find_zero_least [of 2 "[0xFFFFFFFFFFFFFFFF, 0b1011]" 128] by simp
qed

lemma bitmap_test_bit:
  "bitmap_test bm b =
     (if unat (b div 64) < length bm then Some (of_bool (bit (bm ! unat (b div 64)) (unat (b mod 64)))) else None)"
  by (simp add: bitmap_test_def Let_def shift_and_one)

text \<open>Setting or clearing a bit inside the bitmap determines what \<open>bitmap_test\<close> reads there, and
  changes no other bit.\<close>

theorem bitmap_update_test:
  assumes "unat (b div 64) < length bm"
  shows "\<exists>bm1 bm0. bitmap_set bm b = Some bm1 \<and> bitmap_clear bm b = Some bm0 \<and>
    (\<forall>c. bitmap_test bm1 c = (if c = b then Some 1 else bitmap_test bm c) \<and>
         bitmap_test bm0 c = (if c = b then Some 0 else bitmap_test bm c))"
proof -
  let ?i = "unat (b div 64)" and ?m = "push_bit (unat (b mod 64)) 1 :: u64"
  let ?bm1 = "bm[?i := bm ! ?i OR ?m]" and ?bm0 = "bm[?i := bm ! ?i AND NOT ?m]"
  have lt: "unat (c mod 64) < 64" for c :: u64 by (simp add: unat_mod)
  have "bitmap_test ?bm1 c = (if c = b then Some 1 else bitmap_test bm c) \<and>
      bitmap_test ?bm0 c = (if c = b then Some 0 else bitmap_test bm c)" for c
  proof (cases "c div 64 = b div 64")
    case True
    then have "c = b \<longleftrightarrow> unat (c mod 64) = unat (b mod 64)"
      by (metis word_unat_eq_iff div_mult_mod_eq)
    then show ?thesis using True assms lt [of b] lt [of c]
      by (auto simp: bitmap_test_bit bit_simps)
  next
    case False
    then have "c \<noteq> b" "unat (c div 64) \<noteq> ?i" using word_unat_eq_iff by blast+
    then show ?thesis by (simp add: bitmap_test_bit)
  qed
  then show ?thesis using assms by (simp add: bitmap_set_def bitmap_clear_def Let_def)
qed

theorem bitmap_update_test_witness:
  "\<exists>bm1 bm0. bitmap_set [0, 5] 65 = Some bm1 \<and> bitmap_clear [0, 5] 65 = Some bm0 \<and>
    bitmap_test bm1 65 = Some 1 \<and> bitmap_test bm0 64 = Some 1"
proof -
  have "bitmap_test [0, 5] 64 = Some 1" by (simp add: bitmap_test_def)
  then show ?thesis using bitmap_update_test [of 65 "[0, 5]"] by fastforce
qed

end
