(* ===== verification/CK_Paging_Props.thy ===== *)
theory CK_Paging_Props
  imports CK_Paging_Inv CK_Frame_Props
begin

text \<open>
  Correctness of \<open>map_page\<close>, \<open>unmap_page\<close> and \<open>create_identity_map\<close> of
  \<open>src/kernel/memory/paging.c\<close> against the translation the hardware computes.
\<close>

section \<open>State invariant\<close>

definition paging_ok :: "(u64 \<Rightarrow> ptr) \<Rightarrow> ptr \<Rightarrow> 'a paging_state_scheme \<Rightarrow> bool" where
  "paging_ok p2v root s \<longleftrightarrow> frame_inv s \<and> pt_wf p2v (mem s) root (free_pfns s)"

text \<open>Every cached translation is the one in memory.\<close>

definition tlb_ok :: "(u64 \<Rightarrow> ptr) \<Rightarrow> ptr \<Rightarrow> 'a paging_state_scheme \<Rightarrow> bool" where
  "tlb_ok p2v root s \<longleftrightarrow> (\<forall>v. tlb s (vpn v) \<in> {None, Some (leaf p2v (mem s) root v)})"

text \<open>\<open>phys_to_virt\<close> inverts \<open>virt_to_phys\<close> on the pages the allocator may hand out, and their
  physical addresses fit the address field of an entry.\<close>

definition direct_map :: "(u64 \<Rightarrow> ptr) \<Rightarrow> (ptr \<Rightarrow> u64) \<Rightarrow> nat set \<Rightarrow> bool" where
  "direct_map p2v v2p A \<longleftrightarrow> (\<forall>p. aligned 12 p \<and> pfn p \<in> A \<longrightarrow> p2v (v2p p AND PTE_ADDR) = p)"

lemma direct_map_mono: "direct_map p2v v2p A \<Longrightarrow> B \<subseteq> A \<Longrightarrow> direct_map p2v v2p B"
  by (auto simp: direct_map_def)

lemma pt_idx_bit: "d < 4 \<Longrightarrow> bit (pt_idx d v) n \<longleftrightarrow> n < 9 \<and> bit v (39 - 9 * d + n)"
  by (auto simp: pt_idx_def bit_simps add.commute)

lemma vpn_bit: "bit (vpn v) n \<longleftrightarrow> n < 36 \<and> bit v (12 + n)"
  by (auto simp: vpn_def bit_simps)

lemma same_path_vpn: "same_path 4 v v' \<longleftrightarrow> vpn v = vpn v'"
proof
  assume s: "same_path 4 v v'"
  show "vpn v = vpn v'"
  proof (rule bit_word_eqI)
    fix n assume "n < LENGTH(64)"
    show "bit (vpn v) n = bit (vpn v') n"
    proof (cases "n < 36")
      case True
      then have d: "3 - n div 9 < 4" "39 - 9 * (3 - n div 9) + n mod 9 = 12 + n" by (auto simp: algebra_simps)
      have "pt_idx (3 - n div 9) v = pt_idx (3 - n div 9) v'" using s by (simp add: same_path_def)
      then have "bit (pt_idx (3 - n div 9) v) (n mod 9) = bit (pt_idx (3 - n div 9) v') (n mod 9)" by simp
      then show ?thesis using d True by (simp add: pt_idx_bit vpn_bit)
    qed (simp add: vpn_bit)
  qed
next
  assume e: "vpn v = vpn v'"
  have b: "bit v (12 + n) = bit v' (12 + n)" if "n < 36" for n
    using arg_cong [OF e, of "\<lambda>x. bit x n"] that by (simp add: vpn_bit)
  have "pt_idx d v = pt_idx d v'" if "d < 4" for d
  proof (rule bit_word_eqI)
    fix n assume "n < LENGTH(64)"
    show "bit (pt_idx d v) n = bit (pt_idx d v') n"
      using b [of "27 - 9 * d + n"] that by (auto simp: pt_idx_bit)
  qed
  then show "same_path 4 v v'" by (simp add: same_path_def)
qed

lemma create_pte_next:
  "next_table p2v (create_pte a (PTE_PRESENT OR PTE_WRITABLE)) = Some (p2v (a AND PTE_ADDR))"
proof -
  have "((a AND PTE_ADDR) OR 3) AND PTE_ADDR = a AND PTE_ADDR"
    by (simp add: bit.conj_disj_distrib2 PTE_ADDR_def and.assoc)
  moreover have "((a AND PTE_ADDR) OR 3) AND 1 \<noteq> 0"
    by (simp add: bit.conj_disj_distrib2 PTE_ADDR_def and.assoc)
  ultimately show ?thesis
    by (simp add: next_table_def create_pte_def PTE_PRESENT_def PTE_WRITABLE_def)
qed

section \<open>One level\<close>

lemma set_area_fields:
  "s1 = s\<lparr>g_zones := g_zones s1, g_free_pages := g_free_pages s1\<rparr> \<Longrightarrow>
   set_area z order a s1 = s\<lparr>g_zones := g_zones (set_area z order a s1), g_free_pages := g_free_pages s1\<rparr>"
  by (cases s1, cases s) (simp add: set_area_def)

lemma alloc_pages_zone_fields:
  "alloc_pages_zone z order s = (p, s') \<Longrightarrow>
   s' = s\<lparr>g_zones := g_zones s', g_free_pages := g_free_pages s'\<rparr>"
proof (induction z order s arbitrary: p s' rule: alloc_pages_zone.induct)
  case (1 z order s)
  obtain p1 s1 where r1: "alloc_pages_zone z (order + 1) s = (p1, s1)" by (cases "alloc_pages_zone z (order + 1) s")
  consider "s' = s" | "\<exists>a n. s' = (set_area z order a s)\<lparr>g_free_pages := n\<rparr>"
    | "\<not> NR_FREE_AREA \<le> order" "nr_free (get_area s z order) = 0" "order + 1 < NR_FREE_AREA"
      "s' = s1 \<or> (\<exists>a. s' = set_area z order a s1)"
    using 1(2) r1 by (fastforce simp: alloc_pages_zone.simps [of z order s] Let_def split: if_splits)
  then show ?case
  proof cases
    case 3
    have "s1 = s\<lparr>g_zones := g_zones s1, g_free_pages := g_free_pages s1\<rparr>" using 1(1) 3 r1 by (auto simp: Let_def)
    then show ?thesis using 3(4) set_area_fields by fastforce
  qed (auto simp: set_area_def)
qed

lemma alloc_page_fields:
  "alloc_page z s = (p, s') \<Longrightarrow> s' = s\<lparr>g_zones := g_zones s', g_free_pages := g_free_pages s'\<rparr>"
  using alloc_pages_zone_fields by (auto simp: alloc_page_def alloc_pages_def Let_def)

lemma alloc_page_tlb:
  fixes s :: "'a paging_state_scheme"
  assumes "alloc_page z s = (p, s')" shows "tlb s' = tlb s"
  using arg_cong [OF alloc_page_fields [OF assms], of tlb] by simp

text \<open>\<open>tables_grow\<close>: every table that was reachable is still there. \<open>missing\<close> counts the tables on the way to
  depth \<open>d\<close> that do not exist.\<close>

definition tables_grow :: "(u64 \<Rightarrow> ptr) \<Rightarrow> ptr \<Rightarrow> memory \<Rightarrow> memory \<Rightarrow> bool" where
  "tables_grow p2v root m m' \<longleftrightarrow>
     (\<forall>v d t. d \<le> 3 \<longrightarrow> table_at p2v m root v d = Some t \<longrightarrow> table_at p2v m' root v d = Some t)"

primrec missing :: "(u64 \<Rightarrow> ptr) \<Rightarrow> memory \<Rightarrow> ptr \<Rightarrow> u64 \<Rightarrow> nat \<Rightarrow> nat" where
  "missing p2v m root v 0 = 0"
| "missing p2v m root v (Suc d) =
     missing p2v m root v d + (if table_at p2v m root v (Suc d) = None then 1 else 0)"

lemma tables_grow_refl [simp]: "tables_grow p2v root m m"
  by (simp add: tables_grow_def)

lemma tables_grow_trans: "tables_grow p2v root m m' \<Longrightarrow> tables_grow p2v root m' m'' \<Longrightarrow> tables_grow p2v root m m''"
  by (simp add: tables_grow_def)

lemma tables_grow_None: "tables_grow p2v root m m' \<Longrightarrow> d \<le> 3 \<Longrightarrow> table_at p2v m' root v d = None \<Longrightarrow> table_at p2v m root v d = None"
  unfolding tables_grow_def by (metis not_None_eq)

lemma missing_le: "missing p2v m root v d \<le> d"
  by (induction d) auto

lemma missing_mono: "d \<le> d' \<Longrightarrow> missing p2v m root v d \<le> missing p2v m root v d'"
  by (induction d') (auto simp: le_Suc_eq)

lemma table_or_alloc_correct:
  assumes ok: "paging_ok p2v root s" and dm: "direct_map p2v v2p (free_pfns s)"
    and t: "d < 3" "table_at p2v (mem s) root v d = Some t"
    and run: "table_or_alloc p2v v2p t (pt_idx d v) s = (r, s')"
  shows "paging_ok p2v root s'" "leaf p2v (mem s') root = leaf p2v (mem s) root"
    "free_pfns s' \<subseteq> free_pfns s" "tlb s' = tlb s" "tables_grow p2v root (mem s) (mem s')"
    "case r of None \<Rightarrow> s' = s \<and> alloc_page 0 s = (0, s)
     | Some q \<Rightarrow> table_at p2v (mem s') root v (Suc d) = Some q"
proof -
  have wf: "pt_wf p2v (mem s) root (free_pfns s)" and inv: "frame_inv s" using ok by (auto simp: paging_ok_def)
  let ?slot = "entry_addr t (pt_idx d v)"
  have al: "aligned 12 t" "pfn t \<notin> free_pfns s" using pt_wfD [OF wf _ t(2)] t(1) by auto
  consider (old) "load64 (mem s) ?slot AND PTE_PRESENT \<noteq> 0"
    | (null) "load64 (mem s) ?slot AND PTE_PRESENT = 0" "alloc_page 0 s = (0, s)"
    | (new) q s1 where "load64 (mem s) ?slot AND PTE_PRESENT = 0" "alloc_page 0 s = (q, s1)" "q \<noteq> 0"
    using frames.alloc_null [OF inv, of 0] by (cases "alloc_page 0 s"; cases "fst (alloc_page 0 s) = 0") auto
  then have "paging_ok p2v root s' \<and> leaf p2v (mem s') root = leaf p2v (mem s) root \<and>
    free_pfns s' \<subseteq> free_pfns s \<and> tlb s' = tlb s \<and> tables_grow p2v root (mem s) (mem s') \<and>
    (case r of None \<Rightarrow> s' = s \<and> alloc_page 0 s = (0, s)
     | Some q \<Rightarrow> table_at p2v (mem s') root v (Suc d) = Some q)"
  proof cases
    case old
    then show ?thesis using run ok t(2) by (auto simp: table_or_alloc_def Let_def next_table_def)
  next
    case null
    then show ?thesis using run ok by (auto simp: table_or_alloc_def Let_def)
  next
    case (new q s1)
    define s2 where "s2 = s1\<lparr>mem := mem_set (mem s1) q 0 4096\<rparr>"
    define e where "e = create_pte (v2p q) (PTE_PRESENT OR PTE_WRITABLE)"
    note fp = frames.fresh_page [OF inv new(2,3) s2_def]
    have r: "r = Some q" "s' = s2\<lparr>mem := store64 (mem s2) ?slot e\<rparr>"
      using run new by (simp_all add: table_or_alloc_def Let_def s2_def e_def PAGE_SIZE_def)
    have tabs: "pfn t' \<noteq> pfn q \<and> aligned 12 t'" if "k \<le> 3" "table_at p2v (mem s) root x k = Some t'" for k x t'
    proof
      show "pfn t' \<noteq> pfn q" using pt_wfD(2) [OF wf that] fp(1) by metis
    qed (rule pt_wfD(1) [OF wf that])
    have agree: "load64 (mem s2) (entry_addr t' (pt_idx k x)) = load64 (mem s) (entry_addr t' (pt_idx k x))"
      if "k \<le> 3" "table_at p2v (mem s) root x k = Some t'" for k x t'
      using tabs [OF that] fp(4) slot_facts by simp
    note ta = table_at_agree [of p2v "mem s" root "mem s2", OF agree]
    have wf2: "pt_wf p2v (mem s2) root (free_pfns s)" and lf: "leaf p2v (mem s2) root = leaf p2v (mem s) root"
      using tables_agree [of p2v "mem s" root "mem s2", OF agree] wf by auto
    have t2: "table_at p2v (mem s2) root v d = Some t" using ta t by simp
    have np: "load64 (mem s2) ?slot AND PTE_PRESENT = 0" using agree [OF _ t(2)] t(1) new(1) by simp
    have nx: "next_table p2v e = Some q" using dm fp(1) by (simp add: e_def create_pte_next direct_map_def)
    have d2: "\<And>k x t'. k \<le> 3 \<Longrightarrow> table_at p2v (mem s2) root x k = Some t' \<Longrightarrow> pfn t' \<noteq> pfn q"
      using tabs ta by simp
    have st: "frame_inv s'" "free_pfns s' = free_pfns s2"
      using frames.store_used [of s2 ?slot s' e] fp(1) slot_facts [OF al(1)] al(2) r(2) by auto
    have m': "mem s' = store64 (mem s2) ?slot e" using r(2) by simp
    have q: "aligned 12 q" "pfn q \<notin> free_pfns s2" "free_pfns s2 \<subseteq> free_pfns s" using fp(1) by auto
    note l = link_table [OF wf2 t(1) t2 np nx q(1) d2 fp(3) m' new(3) q(2,3)]
    have ta': "table_at p2v (mem s2) root x k = table_at p2v (mem s) root x k" if "k \<le> 3" for x k using ta that by simp
    have "table_at p2v (mem s') root x k = Some t'" if "k \<le> 3" "table_at p2v (mem s2) root x k = Some t'" for x k t'
      by (rule link_table(4) [OF wf2 t(1) t2 np nx q(1) d2 fp(3) m' new(3) q(2,3) that])
    then have "tables_grow p2v root (mem s) (mem s')" using ta' by (simp add: tables_grow_def)
    moreover have "tlb s' = tlb s" using alloc_page_tlb [OF new(2)] by (simp add: r(2) s2_def)
    ultimately show ?thesis using l(1-3) lf st fp(1) r(1) by (auto simp: paging_ok_def fun_eq_iff)
  qed
  then show "paging_ok p2v root s'" "leaf p2v (mem s') root = leaf p2v (mem s) root"
    "free_pfns s' \<subseteq> free_pfns s" "tlb s' = tlb s" "tables_grow p2v root (mem s) (mem s')"
    "case r of None \<Rightarrow> s' = s \<and> alloc_page 0 s = (0, s)
     | Some q \<Rightarrow> table_at p2v (mem s') root v (Suc d) = Some q" by auto
qed

text \<open>Each level takes at most one block from the list of single pages, and fails only when that
  list is empty.\<close>

abbreviation single_pages :: "'a frame_state_scheme \<Rightarrow> nat" where
  "single_pages s \<equiv> unat (nr_free (area s 0 0))"

lemma alloc_page_supply:
  assumes inv: "frame_inv s" and run: "alloc_page 0 s = (p, s')"
  shows "single_pages s \<le> single_pages s' + 1" "p = 0 \<Longrightarrow> single_pages s = 0"
proof -
  have "single_pages s \<le> single_pages s' + 1 \<and> (p = 0 \<longrightarrow> single_pages s = 0)"
  proof (cases "nr_free (area s 0 0) = 0")
    case False
    have "alloc_pages_zone 0 0 s = (p, s')" using run by (simp add: alloc_page_def alloc_pages_def MAX_ZONES_def)
    moreover have "shape s" using inv by (simp add: frame_inv_def)
    ultimately show ?thesis
      using alloc_pages_zone_pop [of 0 s 0] head_good [OF inv, of 0 0] False
      by (auto simp: area_set_area good_block_def unat_minus_one)
  qed simp
  then show "single_pages s \<le> single_pages s' + 1" "p = 0 \<Longrightarrow> single_pages s = 0" by auto
qed

lemma table_or_alloc_supply:
  assumes "frame_inv s" "table_or_alloc p2v v2p t i s = (r, s')"
  shows "single_pages s \<le> single_pages s' + 1" "r = None \<Longrightarrow> single_pages s = 0"
    "next_table p2v (load64 (mem s) (entry_addr t i)) \<noteq> None \<Longrightarrow> s' = s \<and> r \<noteq> None"
proof -
  obtain p s1 where a: "alloc_page 0 s = (p, s1)" by (cases "alloc_page 0 s")
  show "s' = s \<and> r \<noteq> None" if "next_table p2v (load64 (mem s) (entry_addr t i)) \<noteq> None"
    using that assms(2) by (auto simp: table_or_alloc_def Let_def next_table_def split: if_splits)
  show "single_pages s \<le> single_pages s' + 1" "r = None \<Longrightarrow> single_pages s = 0"
    using assms(2) alloc_page_supply [OF assms(1) a] a
    by (auto simp: table_or_alloc_def Let_def split: if_splits)
qed

section \<open>Mapping\<close>

text \<open>\<open>same_view s s1\<close>: no translation and no cached entry changed and no page became free.\<close>

definition same_view :: "(u64 \<Rightarrow> ptr) \<Rightarrow> ptr \<Rightarrow> 'a paging_state_scheme \<Rightarrow> 'a paging_state_scheme \<Rightarrow> bool" where
  "same_view p2v root s s1 \<longleftrightarrow> paging_ok p2v root s1 \<and> leaf p2v (mem s1) root = leaf p2v (mem s) root \<and>
     tlb s1 = tlb s \<and> free_pfns s1 \<subseteq> free_pfns s \<and> tables_grow p2v root (mem s) (mem s1)"

text \<open>The walk of \<open>map_page\<close> has reached table \<open>t\<close> at depth \<open>d\<close>.\<close>

definition walked ::
  "(u64 \<Rightarrow> ptr) \<Rightarrow> ptr \<Rightarrow> u64 \<Rightarrow> 'a paging_state_scheme \<Rightarrow> nat \<Rightarrow> ptr \<Rightarrow> 'a paging_state_scheme \<Rightarrow> bool" where
  "walked p2v root v s d t s1 \<longleftrightarrow> same_view p2v root s s1 \<and> single_pages s \<le> single_pages s1 + missing p2v (mem s) root v d \<and>
     table_at p2v (mem s1) root v d = Some t"

lemma walked_step:
  assumes w: "walked p2v root v s d t s1" and d: "d < 3" and dm: "direct_map p2v v2p (free_pfns s)"
    and run: "table_or_alloc p2v v2p t (pt_idx d v) s1 = (r, s2)" and d': "d' = Suc d"
  shows "case r of None \<Rightarrow> same_view p2v root s s2 \<and> alloc_page 0 s2 = (0, s2) \<and> single_pages s < missing p2v (mem s) root v 3
     | Some q \<Rightarrow> walked p2v root v s d' q s2"
proof -
  have s1: "paging_ok p2v root s1" "table_at p2v (mem s1) root v d = Some t" "frame_inv s1" "free_pfns s1 \<subseteq> free_pfns s"
    using w by (auto simp: walked_def same_view_def paging_ok_def)
  have gr: "tables_grow p2v root (mem s) (mem s1)" using w by (simp add: walked_def same_view_def)
  note c = table_or_alloc_correct [OF s1(1) direct_map_mono [OF dm s1(4)] d s1(2) run]
  note u = table_or_alloc_supply [OF s1(3) run]
  have sv: "same_view p2v root s s2" using w c(1-5) tables_grow_trans [OF gr] by (auto simp: walked_def same_view_def)
  have tn: "table_at p2v (mem s1) root v (Suc d) = next_table p2v (load64 (mem s1) (entry_addr t (pt_idx d v)))"
    using s1(2) by simp
  have old: "table_at p2v (mem s1) root v (Suc d) = None" if "s2 \<noteq> s1 \<or> r = None" using u(3) that unfolding tn by blast
  have new: "table_at p2v (mem s) root v (Suc d) = None" if "s2 \<noteq> s1 \<or> r = None"
    by (rule tables_grow_None [OF gr _ old [OF that]]) (use d in simp)
  have m3: "missing p2v (mem s) root v (Suc d) \<le> missing p2v (mem s) root v 3" using d by (intro missing_mono) simp
  have sup: "single_pages s \<le> single_pages s1 + missing p2v (mem s) root v d" using w by (simp add: walked_def)
  show ?thesis
  proof (cases r)
    case None
    then show ?thesis using sv c(6) sup u(2) new m3 by simp
  next
    case (Some q)
    have "single_pages s \<le> single_pages s2 + missing p2v (mem s) root v d'"
    proof (cases "s2 = s1")
      case False
      then show ?thesis using new sup u(1) d' by simp
    qed (use sup d' in simp)
    then show ?thesis using Some sv c(6) d' by (simp add: walked_def)
  qed
qed

lemma walked_store:
  assumes w: "walked p2v root v s 3 t s1" and e: "s2 = s1\<lparr>mem := store64 (mem s1) (entry_addr t (pt_idx 3 v)) e\<rparr>"
  shows "paging_ok p2v root s2 \<and> free_pfns s2 \<subseteq> free_pfns s \<and> tlb s2 = tlb s \<and>
    leaf p2v (mem s2) root x = (if vpn x = vpn v then e else leaf p2v (mem s) root x) \<and>
    tables_grow p2v root (mem s) (mem s2) \<and> table_at p2v (mem s2) root v 3 = Some t"
proof -
  have s1: "paging_ok p2v root s1" "table_at p2v (mem s1) root v 3 = Some t" "frame_inv s1" "pt_wf p2v (mem s1) root (free_pfns s1)"
    using w by (auto simp: walked_def same_view_def paging_ok_def)
  have t: "aligned 12 t" "pfn t \<notin> free_pfns s1" using pt_wfD(1,2) [OF s1(4) _ s1(2)] by auto
  have "frame_inv s2 \<and> free_pfns s2 = free_pfns s1"
    using frames.store_used(1) [OF s1(3) _ _ e] slot_facts [OF t(1), of 3 v] t(2) by simp
  moreover have "pt_wf p2v (mem s2) root (free_pfns s1)"
    "leaf p2v (mem s2) root x = (if vpn x = vpn v then e else leaf p2v (mem s1) root x)"
    using store_leaf [OF s1(4,2), of "mem s2" e] e by (auto simp: same_path_vpn)
  moreover have ta: "table_at p2v (mem s2) root y d = table_at p2v (mem s1) root y d" if "d \<le> 3" for y d
    using store_table_at [OF s1(4) _ s1(2) that] that e by simp
  moreover have "tables_grow p2v root (mem s) (mem s2)" using w ta by (auto simp: walked_def same_view_def tables_grow_def)
  ultimately show ?thesis using w e s1(2) by (simp add: walked_def same_view_def paging_ok_def)
qed

lemma invlpg_frame [simp]: "mem (invlpg v s) = mem s" "tlb (invlpg v s) = (tlb s)(vpn v := None)"
  "frame_inv (invlpg v s) = frame_inv s" "free_pfns (invlpg v s) = free_pfns s"
  "paging_ok p2v root (invlpg v s) = paging_ok p2v root s"
proof -
  show m: "mem (invlpg v s) = mem s" "tlb (invlpg v s) = (tlb s)(vpn v := None)" by (simp_all add: invlpg_def)
  have z: "g_zones (invlpg v s) = g_zones s" by (simp add: invlpg_def)
  show f: "frame_inv (invlpg v s) = frame_inv s" "free_pfns (invlpg v s) = free_pfns s"
    using frame_cong [OF z m(1)] by simp_all
  show "paging_ok p2v root (invlpg v s) = paging_ok p2v root s" by (simp add: paging_ok_def m f)
qed

lemma map_page_run:
  assumes ok: "paging_ok p2v root s" and dm: "direct_map p2v v2p (free_pfns s)"
    and run: "map_page p2v v2p root virt phys flags s = (ret, s')"
  shows "(ret = CK_SUCCESS \<and> paging_ok p2v root s' \<and> free_pfns s' \<subseteq> free_pfns s \<and>
      (\<forall>v. leaf p2v (mem s') root v =
            (if vpn v = vpn virt then create_pte phys (flags OR PTE_PRESENT) else leaf p2v (mem s) root v)) \<and>
      tlb s' = (tlb s)(vpn virt := None) \<and> tables_grow p2v root (mem s) (mem s') \<and>
      table_at p2v (mem s') root virt 3 \<noteq> None \<and> single_pages s \<le> single_pages s' + missing p2v (mem s) root virt 3) \<or>
    (ret = CK_ERROR_NO_MEMORY \<and> same_view p2v root s s' \<and> alloc_page 0 s' = (0, s') \<and>
      single_pages s < missing p2v (mem s) root virt 3)"
proof -
  let ?step = "\<lambda>d t. table_or_alloc p2v v2p t (pt_idx d virt)"
  have n: "0 < (3 :: nat)" "1 = Suc 0" "1 < (3 :: nat)" "2 = Suc 1" "2 < (3 :: nat)" "3 = Suc 2" by simp_all
  have w0: "walked p2v root virt s 0 root s" using ok by (simp add: walked_def same_view_def)
  obtain r1 s1 where e1: "?step 0 root s = (r1, s1)" by fastforce
  note l1 = walked_step [OF w0 n(1) dm e1 n(2)]
  show ?thesis
  proof (cases r1)
    case None
    then show ?thesis using run e1 l1 by (simp add: map_page_def model_idx)
  next
    case t1: (Some t1)
    then have w1: "walked p2v root virt s 1 t1 s1" using l1 by simp
    obtain r2 s2 where e2: "?step 1 t1 s1 = (r2, s2)" by fastforce
    note l2 = walked_step [OF w1 n(3) dm e2 n(4)]
    show ?thesis
    proof (cases r2)
      case None
      then show ?thesis using run e1 t1 e2 l2 by (simp add: map_page_def model_idx)
    next
      case t2: (Some t2)
      then have w2: "walked p2v root virt s 2 t2 s2" using l2 by simp
      obtain r3 s3 where e3: "?step 2 t2 s2 = (r3, s3)" by fastforce
      note l3 = walked_step [OF w2 n(5) dm e3 n(6)]
      show ?thesis
      proof (cases r3)
        case None
        then show ?thesis using run e1 t1 e2 t2 e3 l3 by (simp add: map_page_def model_idx)
      next
        case t3: (Some t3)
        then have w3: "walked p2v root virt s 3 t3 s3" using l3 by simp
        have "ret = CK_SUCCESS" "s' = invlpg virt (s3\<lparr>mem := store64 (mem s3) (entry_addr t3 (pt_idx 3 virt))
            (create_pte phys (flags OR PTE_PRESENT))\<rparr>)"
          using run e1 t1 e2 t2 e3 t3 by (simp_all add: map_page_def model_idx)
        moreover have "single_pages (invlpg virt (s3\<lparr>mem := m\<rparr>)) = single_pages s3" for m
          by (simp add: invlpg_def area_def)
        ultimately show ?thesis using walked_store [OF w3 refl] w3 by (simp add: walked_def)
      qed
    qed
  qed
qed

lemma tlb_ok_same_view: "tlb_ok p2v root s \<Longrightarrow> same_view p2v root s s' \<Longrightarrow> tlb_ok p2v root s'"
  by (simp add: tlb_ok_def same_view_def)

lemma tlb_ok_flush:
  assumes "tlb_ok p2v root s" "tlb s' = (tlb s)(vpn x := None)"
    and "\<And>v. vpn v \<noteq> vpn x \<Longrightarrow> leaf p2v (mem s') root v = leaf p2v (mem s) root v"
  shows "tlb_ok p2v root s'"
  using assms by (simp add: tlb_ok_def)

text \<open>C3: \<open>map_page\<close> keeps the page tables well formed, the allocator's invariant and the agreement of
  the TLB with memory. On success the address translates to the given frame with the given flags
  and present, and every other page keeps its translation. It fails only for lack of memory (never
  with three free single pages), and then no translation changed.\<close>

theorem map_page_correct:
  assumes "paging_ok p2v root s" and "tlb_ok p2v root s" and "direct_map p2v v2p (free_pfns s)"
    and "map_page p2v v2p root virt phys flags s = (ret, s')"
  shows "paging_ok p2v root s' \<and> tlb_ok p2v root s' \<and>
    (if ret = CK_SUCCESS
     then \<forall>v. leaf p2v (mem s') root v =
            (if vpn v = vpn virt then create_pte phys (flags OR PTE_PRESENT) else leaf p2v (mem s) root v)
     else ret = CK_ERROR_NO_MEMORY \<and> leaf p2v (mem s') root = leaf p2v (mem s) root \<and>
          single_pages s < 3 \<and> alloc_page 0 s' = (0, s'))"
  using map_page_run [OF assms(1,3,4)]
proof (elim disjE conjE)
  assume "ret = CK_SUCCESS" "paging_ok p2v root s'" "tlb s' = (tlb s)(vpn virt := None)" and
    l: "\<forall>v. leaf p2v (mem s') root v =
          (if vpn v = vpn virt then create_pte phys (flags OR PTE_PRESENT) else leaf p2v (mem s) root v)"
  moreover have "tlb_ok p2v root s'" by (rule tlb_ok_flush [OF assms(2)]) (auto simp: calculation l)
  ultimately show ?thesis by simp
next
  assume "ret = CK_ERROR_NO_MEMORY" "same_view p2v root s s'" "alloc_page 0 s' = (0, s')" "single_pages s < missing p2v (mem s) root virt 3"
  moreover have "missing p2v (mem s) root virt 3 \<le> 3" by (rule missing_le)
  ultimately show ?thesis using tlb_ok_same_view [OF assms(2)] by (simp add: same_view_def status_defs)
qed

lemma pt_wf_empty:
  assumes "aligned 12 root" "pfn root \<notin> F" "root \<noteq> 0" "\<And>a. aligned 3 a \<Longrightarrow> pfn a = pfn root \<Longrightarrow> load64 m a = 0"
  shows "pt_wf p2v m root F" "leaf p2v m root v = 0"
proof -
  have z: "load64 m (entry_addr root (pt_idx d x)) = 0" for d x using assms(4) slot_facts [OF assms(1)] by blast
  have one: "table_at p2v m root x (Suc d) = None" for x d
    by (induction d) (simp_all add: z next_table_def)
  have "d = 0 \<and> t = root" if "table_at p2v m root x d = Some t" for x d t
    using that one by (cases d) auto
  then show "pt_wf p2v m root F" using assms(1-3) unfolding pt_wf_def by (metis same_path_simps(1))
  show "leaf p2v m root v = 0" using one [of v 2] by (simp add: leaf_def numeral_3_eq_3)
qed

text \<open>A page-table root at \<open>0x900000\<close> that maps nothing, with three single free pages.\<close>

definition boot_regs :: "memory \<Rightarrow> paging_state" where
  "boot_regs m =
     \<lparr>g_zones = replicate 3 zone_zero, g_total_pages = 0, g_free_pages = 0, mem = m,
      g_kernel_pgd = 0x900000, g_paging_enabled = 0, tlb = (\<lambda>_. None),
      cr0 = 0, cr3 = 0, cr4 = 0, msr_efer = 0\<rparr>"

definition three_pages :: paging_state where
  "three_pages =
     push_block 0 0 0x806000 (push_block 0 0 0x803000 (push_block 0 0 0x800000 (boot_regs (\<lambda>_. 0))))"

lemma boot_regs_inv: "frame_inv (boot_regs m)" "free_pfns (boot_regs m) = {}" "shape (boot_regs m)"
  "\<And>z k. z < 3 \<Longrightarrow> k < 12 \<Longrightarrow> area (boot_regs m) z k = \<lparr>nr_free = 0, free_list = 0\<rparr>"
proof -
  have "g_zones (boot_regs m) = g_zones (frame_boot m)" "mem (boot_regs m) = mem (frame_boot m)"
    by (simp_all add: boot_regs_def frame_boot_def)
  note c = frame_cong [OF this]
  show "frame_inv (boot_regs m)" "free_pfns (boot_regs m) = {}" "shape (boot_regs m)"
    "\<And>z k. z < 3 \<Longrightarrow> k < 12 \<Longrightarrow> area (boot_regs m) z k = \<lparr>nr_free = 0, free_list = 0\<rparr>"
    by (simp_all add: c frame_boot_inv shape_boot area_boot)
qed

lemma push_page:
  assumes "frame_inv s" "p \<noteq> 0" "aligned 12 p" "pfn p \<notin> free_pfns s"
  shows "frame_inv (push_block 0 0 p s)" "free_pfns (push_block 0 0 p s) = insert (pfn p) (free_pfns s)"
    "shape s \<Longrightarrow> nr_free (area (push_block 0 0 p s) 0 0) = nr_free (area s 0 0) + 1"
proof -
  have one: "pages p 0 = {pfn p}" by (auto simp: pages_def)
  have z: "(0 :: nat) < 3" "unat (0 :: u64) < 12" "good_block (unat (0 :: u64)) p" "pages p (unat (0 :: u64)) \<inter> free_pfns s = {}"
    using assms(2-4) one by (simp_all add: good_block_def)
  show "frame_inv (push_block 0 0 p s)" "free_pfns (push_block 0 0 p s) = insert (pfn p) (free_pfns s)"
    using push_block_correct(1,2) [OF assms(1) z] one by simp_all
  show "nr_free (area (push_block 0 0 p s) 0 0) = nr_free (area s 0 0) + 1" if "shape s"
    using that by (simp add: push_block_def Let_def area_set_area)
qed

lemma three_pages_facts:
  "frame_inv three_pages" "free_pfns three_pages = {0x806, 0x803, 0x800}" "nr_free (area three_pages 0 0) = 3"
  "tlb three_pages = (\<lambda>_. None)" "pfn a = 0x900 \<Longrightarrow> mem three_pages a = 0"
proof -
  let ?s0 = "boot_regs (\<lambda>_. 0)"
  let ?s1 = "push_block 0 0 0x800000 ?s0"
  let ?s2 = "push_block 0 0 0x803000 ?s1"
  have p1: "frame_inv ?s1" "free_pfns ?s1 = {0x800}" "nr_free (area ?s1 0 0) = 1"
    using push_page [of ?s0 "0x800000"] boot_regs_inv [where m = "\<lambda>_. 0"] by (simp_all add: aligned_def)
  have p2: "frame_inv ?s2" "free_pfns ?s2 = {0x803, 0x800}" "nr_free (area ?s2 0 0) = 2"
    using push_page [OF p1(1), of "0x803000"] p1 by (simp_all add: aligned_def frame_inv_def)
  show "frame_inv three_pages" "free_pfns three_pages = {0x806, 0x803, 0x800}" "nr_free (area three_pages 0 0) = 3"
    using push_page [OF p2(1), of "0x806000"] p2 by (simp_all add: aligned_def frame_inv_def three_pages_def)
  show "tlb three_pages = (\<lambda>_. None)"
    by (simp add: three_pages_def push_block_def Let_def set_area_def boot_regs_def)
  show "mem three_pages a = 0" if "pfn a = 0x900"
    using that
    by (simp add: three_pages_def push_block_def Let_def store64_outside aligned_def boot_regs_def)
qed

lemma three_pages_ok:
  "paging_ok p2v 0x900000 three_pages" "tlb_ok p2v 0x900000 three_pages"
  "direct_map id id (free_pfns three_pages)" "single_pages three_pages = 3"
proof -
  have root: "aligned 12 0x900000" "pfn 0x900000 \<notin> free_pfns three_pages" "pfn 0x900000 = 0x900"
    by (simp_all add: aligned_def three_pages_facts)
  have z: "load64 (mem three_pages) a = 0" if "aligned 3 a" "pfn a = pfn 0x900000" for a
  proof -
    have "load64 (mem three_pages) a = load64 (\<lambda>_. 0) a"
      using that root(3) three_pages_facts(5) by (intro load64_page_cong) auto
    then show ?thesis by (simp add: load64_def)
  qed
  show "paging_ok p2v 0x900000 three_pages"
    using pt_wf_empty(1) [OF root(1,2) _ z] three_pages_facts(1) by (simp add: paging_ok_def)
  show "tlb_ok p2v 0x900000 three_pages" by (simp add: tlb_ok_def three_pages_facts(4))
  show "single_pages three_pages = 3" by (simp add: three_pages_facts(3))
  show "direct_map id id (free_pfns three_pages)"
    unfolding direct_map_def three_pages_facts(2)
  proof (intro allI impI, elim conjE)
    fix p :: ptr assume "aligned 12 p" "pfn p \<in> {0x806, 0x803, 0x800}"
    then obtain k where "unat p = 4096 * k" "k \<in> {0x806, 0x803, 0x800}" by (auto simp: aligned_iff_dvd elim!: dvdE)
    then have "p \<in> {0x806000, 0x803000, 0x800000}" by (auto simp: word_unat_eq_iff)
    then show "id (id p AND PTE_ADDR) = p" by (auto simp: PTE_ADDR_def)
  qed
qed

theorem map_page_correct_witness:
  "fst (map_page id id 0x900000 0x400000 0x5000 PTE_WRITABLE three_pages) = CK_SUCCESS \<and>
   leaf id (mem (snd (map_page id id 0x900000 0x400000 0x5000 PTE_WRITABLE three_pages))) 0x900000 0x400000 = 0x5003"
proof -
  obtain ret s' where r: "map_page id id 0x900000 0x400000 0x5000 PTE_WRITABLE three_pages = (ret, s')" by fastforce
  have "ret = CK_SUCCESS \<and> leaf id (mem s') 0x900000 0x400000 = create_pte 0x5000 (PTE_WRITABLE OR PTE_PRESENT)"
    using map_page_correct [OF three_pages_ok(1-3) r] three_pages_ok(4) by (auto split: if_splits)
  then show ?thesis unfolding r by (simp add: create_pte_def PTE_ADDR_def PTE_WRITABLE_def PTE_PRESENT_def)
qed

section \<open>Unmapping\<close>

lemma unmap_walk:
  assumes wf: "pt_wf p2v m root F"
  shows "table_at p2v m root v 1 = (if pud_offset p2v m root v = 0 then None else Some (pud_offset p2v m root v))"
    and "table_at p2v m root v 1 = Some t \<Longrightarrow>
      table_at p2v m root v 2 = (if pmd_offset p2v m t v = 0 then None else Some (pmd_offset p2v m t v))"
    and "table_at p2v m root v 2 = Some t \<Longrightarrow>
      table_at p2v m root v 3 = (if pte_offset p2v m t v = 0 then None else Some (pte_offset p2v m t v))"
proof -
  have nz: "table_at p2v m root v d \<noteq> Some 0" if "d \<le> 3" for d using pt_wfD(3) [OF wf that] by blast
  show "table_at p2v m root v 1 = (if pud_offset p2v m root v = 0 then None else Some (pud_offset p2v m root v))"
    using nz [of 1] by (simp add: pud_offset_def model_idx next_table_def Let_def split: if_splits)
  show "table_at p2v m root v 2 = (if pmd_offset p2v m t v = 0 then None else Some (pmd_offset p2v m t v))"
    if "table_at p2v m root v 1 = Some t"
    using nz [of 2] that by (simp add: pmd_offset_def model_idx next_table_def Let_def numeral_2_eq_2 split: if_splits)
  show "table_at p2v m root v 3 = (if pte_offset p2v m t v = 0 then None else Some (pte_offset p2v m t v))"
    if "table_at p2v m root v 2 = Some t"
    using nz [of 3] that by (simp add: pte_offset_def model_idx next_table_def Let_def numeral_3_eq_3 numeral_2_eq_2 split: if_splits)
qed

lemma table_at_None: "table_at p2v m root v d = None \<Longrightarrow> d \<le> k \<Longrightarrow> table_at p2v m root v k = None"
  by (induction k) (auto simp: le_Suc_eq)

lemma unmap_page_run:
  assumes ok: "paging_ok p2v root s" and run: "unmap_page p2v root virt s = (ret, s')"
  shows "(ret = CK_SUCCESS \<and> paging_ok p2v root s' \<and>
      (\<forall>v. leaf p2v (mem s') root v = (if vpn v = vpn virt then 0 else leaf p2v (mem s) root v)) \<and>
      tlb s' = (tlb s)(vpn virt := None) \<and> table_at p2v (mem s) root virt 3 \<noteq> None) \<or>
    (ret = CK_ERROR_NOT_FOUND \<and> s' = s \<and> table_at p2v (mem s) root virt 3 = None)"
proof -
  have wf: "pt_wf p2v (mem s) root (free_pfns s)" using ok by (simp add: paging_ok_def)
  note ta = unmap_walk [OF wf, of virt]
  show ?thesis
  proof (cases "table_at p2v (mem s) root virt 3")
    case None
    have "ret = CK_ERROR_NOT_FOUND \<and> s' = s"
      using run ta None by (auto simp: unmap_page_def Let_def split: if_splits)
    then show ?thesis using None by simp
  next
    case (Some t3)
    obtain t1 t2 where t: "table_at p2v (mem s) root virt 1 = Some t1" "table_at p2v (mem s) root virt 2 = Some t2"
      using Some table_at_None [of p2v "mem s" root virt 1 3] table_at_None [of p2v "mem s" root virt 2 3]
      by (cases "table_at p2v (mem s) root virt 1"; cases "table_at p2v (mem s) root virt 2") auto
    have "unmap_page p2v root virt s =
      (CK_SUCCESS, invlpg virt (s\<lparr>mem := store64 (mem s) (entry_addr t3 (pt_idx 3 virt)) 0\<rparr>))"
      using t Some ta(1) ta(2) [OF t(1)] ta(3) [OF t(2)]
      by (simp add: unmap_page_def Let_def model_idx split: if_splits)
    moreover have "walked p2v root virt s 3 t3 s" using ok Some by (simp add: walked_def same_view_def)
    ultimately show ?thesis using run Some walked_store [of p2v root virt s t3 s _ 0] by auto
  qed
qed

text \<open>C17: \<open>unmap_page\<close> keeps the tables well formed and the TLB in agreement with memory. It returns
  \<open>NOT_FOUND\<close>, changing nothing, exactly when a table on the way to the page is missing; otherwise
  the page has no translation afterwards and every other page keeps its own.\<close>

theorem unmap_page_correct:
  assumes "paging_ok p2v root s" and "tlb_ok p2v root s" and "unmap_page p2v root virt s = (ret, s')"
  shows "paging_ok p2v root s' \<and> tlb_ok p2v root s' \<and>
    (if table_at p2v (mem s) root virt 3 = None then ret = CK_ERROR_NOT_FOUND \<and> s' = s
     else ret = CK_SUCCESS \<and>
       (\<forall>v. leaf p2v (mem s') root v = (if vpn v = vpn virt then 0 else leaf p2v (mem s) root v)))"
  using unmap_page_run [OF assms(1,3)]
proof (elim disjE conjE)
  assume a: "ret = CK_SUCCESS" "paging_ok p2v root s'" "tlb s' = (tlb s)(vpn virt := None)" and
    l: "\<forall>v. leaf p2v (mem s') root v = (if vpn v = vpn virt then 0 else leaf p2v (mem s) root v)" and
    t: "table_at p2v (mem s) root virt 3 \<noteq> None"
  have "tlb_ok p2v root s'" by (rule tlb_ok_flush [OF assms(2) a(3)]) (simp add: l)
  then show ?thesis using a l t by auto
next
  assume "ret = CK_ERROR_NOT_FOUND" "s' = s" "table_at p2v (mem s) root virt 3 = None"
  then show ?thesis using assms(1,2) by simp
qed

theorem unmap_page_correct_witness:
  "\<exists>s1 s2. map_page id id 0x900000 0x400000 0x5000 PTE_WRITABLE three_pages = (CK_SUCCESS, s1) \<and>
     unmap_page id 0x900000 0x400000 s1 = (CK_SUCCESS, s2) \<and> leaf id (mem s2) 0x900000 0x400000 = 0"
proof -
  obtain ret s1 where r: "map_page id id 0x900000 0x400000 0x5000 PTE_WRITABLE three_pages = (ret, s1)" by fastforce
  have s1: "ret = CK_SUCCESS" "paging_ok id 0x900000 s1" "leaf id (mem s1) 0x900000 0x400000 = create_pte 0x5000 (PTE_WRITABLE OR PTE_PRESENT)"
    "tlb s1 = (tlb three_pages)(vpn 0x400000 := None)"
    using map_page_run [OF three_pages_ok(1,3) r] three_pages_ok(4) missing_le [of id "mem three_pages" "0x900000" "0x400000" 3]
    by auto
  have t: "table_at id (mem s1) 0x900000 0x400000 3 \<noteq> None" and k: "tlb_ok id 0x900000 s1"
    using s1(3) by (auto simp: leaf_def create_pte_def PTE_ADDR_def PTE_WRITABLE_def PTE_PRESENT_def tlb_ok_def s1(4)
        three_pages_facts(4) split: option.splits)
  obtain ret2 s2 where u: "unmap_page id 0x900000 0x400000 s1 = (ret2, s2)" by fastforce
  show ?thesis using unmap_page_correct [OF s1(2) k u] r s1(1) u t by simp
qed

section \<open>Identity mapping\<close>

lemma unat_vpn:
  assumes "unat v < 2 ^ 48" shows "unat (vpn v) = unat v div 4096"
proof -
  have "unat (drop_bit 12 v) = unat v div 4096" by (subst unat_drop_bit_eq) (simp add: drop_bit_eq_div)
  moreover have "unat v div 4096 < 2 ^ 36" using assms by (simp add: less_mult_imp_div_less)
  ultimately show ?thesis by (simp only: vpn_def unsigned_take_bit_eq take_bit_nat_eq_self)
qed

lemma vpn_later:
  assumes "unat a + 4096 * Suc k < 2 ^ 48" shows "vpn a \<noteq> vpn (a + of_nat (4096 * Suc k))"
proof -
  define b where "b = a + of_nat (4096 * Suc k)"
  have u: "unat b = unat a + 4096 * Suc k"
    using assms by (simp add: b_def unat_word_ariths unat_of_nat)
  have "unat b div 4096 = unat a div 4096 + Suc k" unfolding u by simp
  then have "unat (vpn a) \<noteq> unat (vpn b)" using assms u by (simp add: unat_vpn)
  then show ?thesis unfolding b_def by metis
qed

lemma map_page_pgd:
  fixes s :: "'a paging_state_scheme"
  assumes "map_page p2v v2p root virt phys flags s = (ret, s')" shows "g_kernel_pgd s' = g_kernel_pgd s"
proof -
  have al: "g_kernel_pgd s1 = g_kernel_pgd s" if "alloc_page z s = (p, s1)" for p z and s s1 :: "'a paging_state_scheme"
    using arg_cong [OF alloc_page_fields [OF that], of g_kernel_pgd] by simp
  have "g_kernel_pgd s1 = g_kernel_pgd s" if "table_or_alloc p2v v2p t i s = (r, s1)" for t i r and s s1 :: "'a paging_state_scheme"
    using that al by (auto simp: table_or_alloc_def Let_def split: if_splits prod.splits)
  then show ?thesis using assms
    by (auto simp: map_page_def invlpg_def split: prod.splits option.splits)
qed

lemma create_identity_map_step:
  "create_identity_map p2v v2p pgd addr e flags s =
     (if addr < e then
        (case map_page p2v v2p pgd addr addr flags s of (ret, s1) \<Rightarrow>
           if ret \<noteq> CK_SUCCESS then Some (ret, s1)
           else create_identity_map p2v v2p pgd (addr + 4096) e flags s1)
      else Some (CK_SUCCESS, s))"
  by (subst create_identity_map.simps) (simp only: PAGE_SIZE_def)

lemma create_identity_map_returns:
  assumes "unat e \<le> 2 ^ 64 - 4096" "paging_ok p2v root s" "direct_map p2v v2p (free_pfns s)"
  shows "\<exists>ret s'. create_identity_map p2v v2p root addr e flags s = Some (ret, s') \<and> paging_ok p2v root s' \<and>
     free_pfns s' \<subseteq> free_pfns s \<and> ret \<in> {CK_SUCCESS, CK_ERROR_NO_MEMORY} \<and> g_kernel_pgd s' = g_kernel_pgd s"
  using assms(2,3)
proof (induction "unat e - unat addr" arbitrary: addr s rule: less_induct)
  case less
  obtain ret s1 where r: "map_page p2v v2p root addr addr flags s = (ret, s1)" by fastforce
  note m = map_page_run [OF less.prems r]
  have s1: "paging_ok p2v root s1" "free_pfns s1 \<subseteq> free_pfns s" "ret \<in> {CK_SUCCESS, CK_ERROR_NO_MEMORY}"
    using m by (auto simp: same_view_def)
  show ?case
  proof (cases "addr < e \<and> ret = CK_SUCCESS")
    case True
    then have u: "unat (addr + 4096) = unat addr + 4096" "unat addr < unat e"
      using assms(1) by (simp_all add: unat_word_ariths word_less_nat_alt)
    have "unat e - unat (addr + 4096) < unat e - unat addr" using u by simp
    from less.hyps [OF this s1(1) direct_map_mono [OF less.prems(2) s1(2)]]
    show ?thesis using True r s1(2) map_page_pgd [OF r] by (subst create_identity_map_step) auto
  next
    case False
    then show ?thesis using r s1 less.prems map_page_pgd [OF r] by (subst create_identity_map_step) auto
  qed
qed

lemma create_identity_map_maps:
  assumes "unat e \<le> 2 ^ 48" "paging_ok p2v root s" "direct_map p2v v2p (free_pfns s)"
    "create_identity_map p2v v2p root addr e flags s = Some (CK_SUCCESS, s')"
  shows "(\<forall>k. unat addr + 4096 * k < unat e \<longrightarrow> leaf p2v (mem s') root (addr + of_nat (4096 * k)) =
            create_pte (addr + of_nat (4096 * k)) (flags OR PTE_PRESENT)) \<and>
    (\<forall>v. (\<forall>k. unat addr + 4096 * k < unat e \<longrightarrow> vpn v \<noteq> vpn (addr + of_nat (4096 * k))) \<longrightarrow>
            leaf p2v (mem s') root v = leaf p2v (mem s) root v)"
  using assms(2-4)
proof (induction "unat e - unat addr" arbitrary: addr s rule: less_induct)
  case less
  obtain ret s1 where r: "map_page p2v v2p root addr addr flags s = (ret, s1)" by fastforce
  note m = map_page_run [OF less.prems(1,2) r]
  show ?case
  proof (cases "addr < e")
    case False
    then show ?thesis using less.prems(3)
      by (subst (asm) create_identity_map_step) (auto simp: word_less_nat_alt)
  next
    case True
    then have ret: "ret = CK_SUCCESS" and rest: "create_identity_map p2v v2p root (addr + 4096) e flags s1 = Some (CK_SUCCESS, s')"
      using less.prems(3) r by (auto simp: create_identity_map_step [of p2v v2p root addr] split: if_splits)
    have s1: "paging_ok p2v root s1" "free_pfns s1 \<subseteq> free_pfns s"
      "\<And>v. leaf p2v (mem s1) root v = (if vpn v = vpn addr then create_pte addr (flags OR PTE_PRESENT) else leaf p2v (mem s) root v)"
      using m ret by (auto simp: status_defs)
    have u: "unat (addr + 4096) = unat addr + 4096" "unat addr < unat e"
      using True assms(1) by (simp_all add: unat_word_ariths word_less_nat_alt)
    have sh: "addr + 4096 + of_nat (4096 * k) = addr + of_nat (4096 * Suc k)" for k by simp
    have "unat e - unat (addr + 4096) < unat e - unat addr" using u by simp
    note IH = less.hyps [OF this s1(1) direct_map_mono [OF less.prems(2) s1(2)] rest, unfolded u(1) sh]
    show ?thesis
    proof (intro conjI allI impI)
      fix k assume k: "unat addr + 4096 * k < unat e"
      show "leaf p2v (mem s') root (addr + of_nat (4096 * k)) = create_pte (addr + of_nat (4096 * k)) (flags OR PTE_PRESENT)"
      proof (cases k)
        case 0
        have "vpn addr \<noteq> vpn (addr + of_nat (4096 * Suc j))" if "unat addr + 4096 + 4096 * j < unat e" for j
          using that assms(1) by (intro vpn_later) simp
        then show ?thesis using 0 conjunct2 [OF IH] s1(3) by simp
      next
        case (Suc j)
        then show ?thesis using conjunct1 [OF IH] k by simp
      qed
    next
      fix v assume v: "\<forall>k. unat addr + 4096 * k < unat e \<longrightarrow> vpn v \<noteq> vpn (addr + of_nat (4096 * k))"
      have "vpn v \<noteq> vpn addr" using v [rule_format, of 0] u(2) by simp
      moreover have "vpn v \<noteq> vpn (addr + of_nat (4096 * Suc k))" if "unat addr + 4096 + 4096 * k < unat e" for k
        using v [rule_format, of "Suc k"] that by simp
      ultimately show "leaf p2v (mem s') root v = leaf p2v (mem s) root v" using conjunct2 [OF IH] s1(3) by simp
    qed
  qed
qed

text \<open>C16: \<open>create_identity_map\<close> of a range that ends at or below \<open>2 ^ 48\<close> always returns, with success
  or \<open>NO_MEMORY\<close>. On success every page step of the range translates to itself with the given flags,
  and no page outside the range changed its translation.\<close>

theorem create_identity_map_correct:
  assumes "unat end_addr \<le> 2 ^ 48" and "paging_ok p2v root s" and "direct_map p2v v2p (free_pfns s)"
  shows "\<exists>ret s'. create_identity_map p2v v2p root start end_addr flags s = Some (ret, s') \<and>
    paging_ok p2v root s' \<and>
    (if ret = CK_SUCCESS
     then (\<forall>k. unat start + 4096 * k < unat end_addr \<longrightarrow>
             leaf p2v (mem s') root (start + of_nat (4096 * k)) =
               create_pte (start + of_nat (4096 * k)) (flags OR PTE_PRESENT)) \<and>
          (\<forall>v. (\<forall>k. unat start + 4096 * k < unat end_addr \<longrightarrow> vpn v \<noteq> vpn (start + of_nat (4096 * k))) \<longrightarrow>
             leaf p2v (mem s') root v = leaf p2v (mem s) root v)
     else ret = CK_ERROR_NO_MEMORY)"
proof -
  have "unat end_addr \<le> 2 ^ 64 - 4096" using assms(1) by simp
  then obtain ret s' where r: "create_identity_map p2v v2p root start end_addr flags s = Some (ret, s')"
    "paging_ok p2v root s'" "ret \<in> {CK_SUCCESS, CK_ERROR_NO_MEMORY}"
    using create_identity_map_returns [OF _ assms(2,3)] by blast
  then show ?thesis using create_identity_map_maps [OF assms, of start flags s'] by auto
qed

theorem create_identity_map_correct_witness:
  "\<exists>ret s'. create_identity_map id id 0x900000 0x400000 0x401000 PTE_WRITABLE three_pages = Some (ret, s') \<and>
     paging_ok id 0x900000 s'"
  using create_identity_map_correct [OF _ three_pages_ok(1,3), of "0x401000" "0x400000" PTE_WRITABLE] by auto

section \<open>Control registers\<close>

text \<open>With a page directory, \<open>enable_paging\<close> loads its physical address into CR3, sets PAE and PGE in
  CR4, LME and NXE in EFER, and PG and WP in CR0. The sign extension of \<open>1 << 31\<close> also sets all the
  reserved upper 32 bits of CR0, and EFER is built from whatever \<open>ecx\<close> held: its old value is lost.\<close>

theorem enable_paging_registers:
  assumes "g_kernel_pgd s \<noteq> 0"
  shows "cr3 (enable_paging v2p ecx s) = v2p (g_kernel_pgd s) \<and>
    cr4 (enable_paging v2p ecx s) = (cr4 s OR 0xA0) \<and>
    msr_efer (enable_paging v2p ecx s) = (ucast ecx OR 0x900) \<and>
    cr0 (enable_paging v2p ecx s) = (cr0 s OR 0xFFFFFFFF80010000) \<and>
    g_paging_enabled (enable_paging v2p ecx s) = 1"
proof -
  have hi: "push_bit 32 (drop_bit 32 e) OR (e AND 0xFFFFFFFF) = e" for e :: u64
  proof -
    have "e AND 0xFFFFFFFF = take_bit 32 e" by (simp add: take_bit_eq_mask mask_eq_exp_minus_1)
    then show ?thesis by (simp add: or.commute bit_eq_iff) (auto simp: bit_simps)
  qed
  have c: "(- 2147418112 :: u64) = 0xFFFFFFFF80010000" by simp
  show ?thesis using assms
    by (simp add: enable_paging_def Let_def write_cr3_def write_cr4_def write_cr0_def hi or.assoc c)
qed

theorem enable_paging_registers_witness:
  "cr0 (enable_paging id 0 (boot_regs (\<lambda>_. 0))) = 0xFFFFFFFF80010000"
  using enable_paging_registers [of "boot_regs (\<lambda>_. 0)" id 0] by (simp add: boot_regs_def)

end
