(* ===== verification/CK_Paging_Boot.thy ===== *)
theory CK_Paging_Boot
  imports CK_Paging_Props
begin

text \<open>
  The address space \<open>paging_init\<close> of \<open>src/kernel/memory/paging.c\<close> builds: which pages it maps, with
  which flags, and how much memory it needs.
\<close>

section \<open>An empty allocator\<close>

lemma alloc_page_dry_iff:
  assumes "frame_inv s"
  shows "alloc_page 0 s = (0, s) \<longleftrightarrow> (\<forall>k<12. nr_free (area s 0 k) = 0)"
proof -
  have a: "alloc_page 0 s = alloc_pages_zone 0 0 s" by (simp add: alloc_page_def alloc_pages_def MAX_ZONES_def)
  have h: "free_list (area s 0 k) \<noteq> 0" if "k < 12" "nr_free (area s 0 k) \<noteq> 0" for k
    using head_good [OF assms _ that] by (simp add: good_block_def)
  have sh: "shape s" using assms by (simp add: frame_inv_def)
  show ?thesis
  proof (rule alloc_pages_zone_run [of s 0 0])
    fix k s' assume "first_order 0 (unat (0 :: u64)) s k" "alloc_pages_zone 0 0 s = (free_list (area s 0 k), s')"
    then show ?thesis using h [of k] a by (auto simp: first_order_def)
  qed (use a h sh in auto)
qed

lemma dry_cong:
  assumes "alloc_page 0 s = (0, s)" "frame_inv s" "frame_inv s'" "g_zones s' = g_zones s"
  shows "alloc_page 0 s' = (0, s')"
  using assms(1,4) alloc_page_dry_iff [OF assms(2)] alloc_page_dry_iff [OF assms(3)] by (simp add: area_def)

lemma table_or_alloc_dry: "alloc_page 0 s = (0, s) \<Longrightarrow> table_or_alloc p2v v2p t i s = (r, s') \<Longrightarrow> s' = s"
  by (auto simp: table_or_alloc_def Let_def split: if_splits)

lemma map_page_dry:
  assumes dry: "alloc_page 0 s = (0, s)" and inv: "frame_inv s" "frame_inv s'"
    and run: "map_page p2v v2p root virt phys flags s = (ret, s')"
  shows "alloc_page 0 s' = (0, s')"
proof (rule dry_cong [OF dry inv])
  show "g_zones s' = g_zones s"
    using run by (auto simp: map_page_def Let_def invlpg_def split: prod.splits option.splits dest!: table_or_alloc_dry [OF dry])
qed

section \<open>The loop\<close>

lemma create_identity_map_rule:
  assumes e: "unat e \<le> 2 ^ 64 - 4096"
    and step: "\<And>a t r t'. a < e \<Longrightarrow> I a t \<Longrightarrow> map_page p2v v2p root a a flags t = (r, t') \<Longrightarrow>
      if r = CK_SUCCESS then I (a + 4096) t' else Q r t'"
    and fin: "\<And>a t. \<not> a < e \<Longrightarrow> I a t \<Longrightarrow> Q CK_SUCCESS t"
    and I: "I addr s" and run: "create_identity_map p2v v2p root addr e flags s = Some (ret, s')"
  shows "Q ret s'"
  using I run
proof (induction "unat e - unat addr" arbitrary: addr s rule: less_induct)
  case less
  obtain r t where m: "map_page p2v v2p root addr addr flags s = (r, t)" by fastforce
  show ?case
  proof (cases "addr < e")
    case True
    then have "unat (addr + 4096) = unat addr + 4096" "unat addr < unat e"
      using e by (simp_all add: unat_word_ariths word_less_nat_alt)
    then have d: "unat e - unat (addr + 4096) < unat e - unat addr" by simp
    have s: "if r = CK_SUCCESS then I (addr + 4096) t else Q r t" by (rule step [OF True less.prems(1) m])
    have "(if r = CK_SUCCESS then create_identity_map p2v v2p root (addr + 4096) e flags t else Some (r, t)) = Some (ret, s')"
      using less.prems(2) m True by (simp add: create_identity_map_step [of p2v v2p root addr] split: if_splits)
    then show ?thesis using s less.hyps [OF d] by (auto split: if_splits)
  next
    case False
    then show ?thesis using less.prems fin by (simp add: create_identity_map_step [of p2v v2p root addr])
  qed
qed

section \<open>Entries of the identity map\<close>

definition page_entry :: "u64 \<Rightarrow> u64 \<Rightarrow> u64" where
  "page_entry flags v = (push_bit 12 (vpn v) OR flags)"

lemma create_pte_self:
  assumes "unat a < 2 ^ 48" "vpn v = vpn a" shows "create_pte a flags = page_entry flags v"
proof -
  have m: "PTE_ADDR = push_bit 12 (mask 40)" by (simp add: PTE_ADDR_def mask_eq_exp_minus_1 push_bit_eq_mult)
  have t: "take_bit 48 a = a" using assms(1) by (simp add: word_unat_eq_iff unsigned_take_bit_eq take_bit_nat_eq_self)
  have hi: "\<not> bit a n" if "48 \<le> n" for n
    using that by (subst t [symmetric]) (simp add: bit_simps)
  have "a AND PTE_ADDR = push_bit 12 (vpn a)"
  proof (rule bit_word_eqI)
    fix n assume "n < LENGTH(64)"
    show "bit (a AND PTE_ADDR) n = bit (push_bit 12 (vpn a)) n"
      unfolding m using hi [of n] by (cases "48 \<le> n") (auto simp: bit_simps vpn_bit)
  qed
  then show ?thesis using assms(2) by (simp add: create_pte_def page_entry_def)
qed

lemma leaf_vpn:
  assumes "vpn v = vpn v'" shows "leaf p2v m root v = leaf p2v m root v'"
proof -
  have "same_path 3 v v'" "pt_idx 3 v = pt_idx 3 v'" using assms same_path_vpn same_path_4 by blast+
  then show ?thesis using table_at_path [of 3 v v' p2v m root] by (simp add: leaf_def split: option.split)
qed

text \<open>A whole run over an aligned range: what it mapped, what it may have mapped when it failed, and that
  it fails only when the allocator has no page left.\<close>

lemma create_identity_map_range:
  assumes "unat e \<le> 2 ^ 48" "paging_ok p2v root s" "direct_map p2v v2p (free_pfns s)" "aligned 12 addr" "aligned 12 e"
    "create_identity_map p2v v2p root addr e flags s = Some (CK_SUCCESS, s')"
  shows "leaf p2v (mem s') root v =
    (if pfn addr \<le> unat (vpn v) \<and> unat (vpn v) < pfn e then page_entry (flags OR PTE_PRESENT) v
     else leaf p2v (mem s) root v)"
proof -
  note m = create_identity_map_maps [OF assms(1-3,6)]
  obtain i j where ij: "unat addr = 4096 * i" "unat e = 4096 * j"
    using assms(4,5) by (auto simp: aligned_iff_dvd elim!: dvdE)
  have page: "unat (addr + of_nat (4096 * k)) = 4096 * (i + k)" "unat (vpn (addr + of_nat (4096 * k))) = i + k"
    if "i + k < j" for k
  proof -
    have "4096 * (i + k) < 2 ^ 48" using that assms(1) ij(2) by simp
    then show u: "unat (addr + of_nat (4096 * k)) = 4096 * (i + k)"
      using ij(1) by (simp add: unat_word_ariths unat_of_nat)
    show "unat (vpn (addr + of_nat (4096 * k))) = i + k"
      using u \<open>4096 * (i + k) < 2 ^ 48\<close> by (subst unat_vpn) simp_all
  qed
  show ?thesis
  proof (cases "i \<le> unat (vpn v) \<and> unat (vpn v) < j")
    case True
    define k where "k = unat (vpn v) - i"
    have k: "i + k < j" "unat (vpn v) = i + k" using True by (simp_all add: k_def)
    let ?a = "addr + of_nat (4096 * k) :: u64"
    have v: "vpn v = vpn ?a" using page(2) [OF k(1)] k(2) by (simp add: word_unat_eq_iff)
    have "leaf p2v (mem s') root v = create_pte ?a (flags OR PTE_PRESENT)"
      using m k(1) ij leaf_vpn [OF v] by simp
    also have "\<dots> = page_entry (flags OR PTE_PRESENT) v"
      using page(1) [OF k(1)] k(1) assms(1) ij(2) by (intro create_pte_self v) simp
    finally show ?thesis using True ij by simp
  next
    case False
    have "vpn v \<noteq> vpn (addr + of_nat (4096 * k))" if "unat addr + 4096 * k < unat e" for k
      using False page(2) [of k] that ij by auto
    then show ?thesis using m False ij by auto
  qed
qed

lemma create_identity_map_outcome:
  assumes e: "unat e \<le> 2 ^ 64 - 4096" and ok: "paging_ok p2v root s" and dm: "direct_map p2v v2p (free_pfns s)"
    and run: "create_identity_map p2v v2p root addr e flags s = Some (ret, s')"
  shows "ret \<noteq> CK_SUCCESS \<or> alloc_page 0 s = (0, s) \<Longrightarrow> alloc_page 0 s' = (0, s')"
    and "unat e \<le> 2 ^ 48 \<Longrightarrow> leaf p2v (mem s') root v \<in> {leaf p2v (mem s) root v, page_entry (flags OR PTE_PRESENT) v}"
proof -
  let ?dry = "\<lambda>t. alloc_page 0 t = (0, t)"
  let ?same = "\<lambda>t. unat e \<le> 2 ^ 48 \<longrightarrow>
    leaf p2v (mem t) root v \<in> {leaf p2v (mem s) root v, page_entry (flags OR PTE_PRESENT) v}"
  let ?I = "\<lambda>t. paging_ok p2v root t \<and> free_pfns t \<subseteq> free_pfns s \<and> (?dry s \<longrightarrow> ?dry t) \<and> ?same t"
  have "((ret \<noteq> CK_SUCCESS \<or> ?dry s) \<longrightarrow> ?dry s') \<and> ?same s'"
  proof (rule create_identity_map_rule [OF e _ _ _ run, where I = "\<lambda>_. ?I"])
    fix a t r t' assume a: "a < e" and t: "?I t" and m: "map_page p2v v2p root a a flags t = (r, t')"
    have "direct_map p2v v2p (free_pfns t)" using direct_map_mono [OF dm] t by blast
    note mr = map_page_run [OF conjunct1 [OF t] this m]
    have ml: "leaf p2v (mem t') root v \<in> {leaf p2v (mem t) root v, create_pte a (flags OR PTE_PRESENT)}"
      "vpn v \<noteq> vpn a \<Longrightarrow> leaf p2v (mem t') root v = leaf p2v (mem t) root v"
      using mr by (auto simp: same_view_def)
    have f: "frame_inv t" "frame_inv t'" "paging_ok p2v root t'" "free_pfns t' \<subseteq> free_pfns s"
      using t mr by (auto simp: paging_ok_def same_view_def)
    have l: "?same t'"
    proof
      assume b: "unat e \<le> 2 ^ 48"
      then have "create_pte a (flags OR PTE_PRESENT) = page_entry (flags OR PTE_PRESENT) v" if "vpn v = vpn a"
        using a that by (intro create_pte_self) (simp_all add: word_less_nat_alt)
      then show "leaf p2v (mem t') root v \<in> {leaf p2v (mem s) root v, page_entry (flags OR PTE_PRESENT) v}"
        using ml t b by (cases "vpn v = vpn a") auto
    qed
    have d: "?dry t'" if "?dry s" using map_page_dry [OF _ f(1,2) m] t that by blast
    show "if r = CK_SUCCESS then ?I t' else ((r \<noteq> CK_SUCCESS \<or> ?dry s) \<longrightarrow> ?dry t') \<and> ?same t'"
      using f l d mr by (auto simp: status_defs)
  qed (use ok in auto)
  then show "ret \<noteq> CK_SUCCESS \<or> ?dry s \<Longrightarrow> ?dry s'"
    "unat e \<le> 2 ^ 48 \<Longrightarrow> leaf p2v (mem s') root v \<in> {leaf p2v (mem s) root v, page_entry (flags OR PTE_PRESENT) v}"
    by blast+
qed

section \<open>Memory for the tables of the first 4 GiB\<close>

text \<open>Page \<open>k\<close> needs a new page table when it is the first of 2 MiB, a new middle directory when it is the
  first of 1 GiB and the upper directory when it is page 0.\<close>

definition tables_left :: "nat \<Rightarrow> nat" where
  "tables_left k = (2 ^ 20 - k) div 512 + (2 ^ 20 - k) div 2 ^ 18 + (if k = 0 then 1 else 0)"

definition tables_here :: "nat \<Rightarrow> nat" where
  "tables_here k = (if k mod 512 = 0 then 1 else 0) + (if k mod 2 ^ 18 = 0 then 1 else 0) + (if k = 0 then 1 else 0)"

lemma blocks_left:
  assumes "k < n" "m dvd n" "0 < (m :: nat)"
  shows "(n - k) div m = (n - Suc k) div m + (if k mod m = 0 then 1 else 0)"
proof -
  obtain j where j: "n = m * j" using assms(2) by (auto elim: dvdE)
  define r where "r = n - Suc k"
  have r: "n - k = Suc r" "Suc r + k = n" using assms(1) by (simp_all add: r_def)
  have "Suc r mod m = 0 \<longleftrightarrow> k mod m = 0"
    using r(2) assms(2) by (metis dvd_add_right_iff dvd_add_left_iff mod_0_imp_dvd dvd_imp_mod_0)
  then show ?thesis unfolding r_def [symmetric] r(1) by (simp add: div_Suc)
qed

lemma tables_left_step: "k < 2 ^ 20 \<Longrightarrow> tables_left k = tables_left (Suc k) + tables_here k"
  using blocks_left [of k "2 ^ 20" 512] blocks_left [of k "2 ^ 20" "2 ^ 18"]
  by (simp add: tables_left_def tables_here_def)

lemma unat_pt_idx: "d < 4 \<Longrightarrow> unat (pt_idx d v) = unat v div 2 ^ (39 - 9 * d) mod 512"
proof -
  have "unat (drop_bit n v) = unat v div 2 ^ n" for n by (subst unat_drop_bit_eq) (simp add: drop_bit_eq_div)
  moreover assume "d < 4"
  ultimately show ?thesis by (simp only: pt_idx_def unsigned_take_bit_eq) (simp add: take_bit_eq_mod)
qed

lemma same_path_div:
  assumes "d \<le> 4" "unat v div 2 ^ (48 - 9 * d) = unat v' div 2 ^ (48 - 9 * d)"
  shows "same_path d v v'"
  unfolding same_path_def
proof (intro allI impI)
  fix i assume i: "i < d"
  have "unat x div 2 ^ (39 - 9 * i) = unat x div 2 ^ (48 - 9 * d) div 2 ^ (9 * (d - Suc i))" for x :: u64
  proof -
    have "39 - 9 * i = 48 - 9 * d + 9 * (d - Suc i)" using i assms(1) by simp
    then show ?thesis by (simp only: power_add div_mult2_eq)
  qed
  then have "unat (pt_idx i v) = unat (pt_idx i v')" using assms i by (simp add: unat_pt_idx)
  then show "pt_idx i v = pt_idx i v'" by (simp add: word_unat_eq_iff)
qed

lemma same_block:
  assumes "unat a = 4096 * Suc k" "unat b = 4096 * k"
  shows "Suc k mod 512 \<noteq> 0 \<Longrightarrow> same_path 3 a b" "Suc k mod 2 ^ 18 \<noteq> 0 \<Longrightarrow> same_path 2 a b"
    "Suc k < 2 ^ 20 \<Longrightarrow> same_path 1 a b"
proof -
  have d: "4096 * x div 2 ^ n = x div 2 ^ (n - 12)" if "12 \<le> n" for x n :: nat
  proof -
    have "(2 :: nat) ^ n = 4096 * 2 ^ (n - 12)" using power_add [of "2 :: nat" 12 "n - 12"] that by simp
    then show ?thesis by simp
  qed
  have e: "unat a div 2 ^ n = Suc k div 2 ^ (n - 12)" "unat b div 2 ^ n = k div 2 ^ (n - 12)" if "12 \<le> n" for n
    unfolding assms by (rule d [OF that])+
  show "same_path 3 a b" if "Suc k mod 512 \<noteq> 0"
    by (rule same_path_div) (use that e [of 21] in \<open>simp_all add: div_Suc\<close>)
  show "same_path 2 a b" if "Suc k mod 2 ^ 18 \<noteq> 0"
    by (rule same_path_div) (use that e [of 30] in \<open>simp_all add: div_Suc\<close>)
  show "same_path 1 a b" if "Suc k < 2 ^ 20"
    by (rule same_path_div) (use that e [of 39] in \<open>simp_all add: div_Suc\<close>)
qed

text \<open>All pages below page \<open>k\<close> have their tables.\<close>

definition tabled :: "(u64 \<Rightarrow> ptr) \<Rightarrow> ptr \<Rightarrow> nat \<Rightarrow> memory \<Rightarrow> bool" where
  "tabled p2v root k m \<longleftrightarrow> (\<forall>v. unat (vpn v) < k \<longrightarrow> table_at p2v m root v 3 \<noteq> None)"

lemma tabled_missing:
  assumes "tabled p2v root k m" "unat a = 4096 * k" "k < 2 ^ 20"
  shows "missing p2v m root a 3 \<le> tables_here k"
proof (cases k)
  case 0
  then show ?thesis using missing_le [of p2v m root a 3] by (simp add: tables_here_def)
next
  case (Suc j)
  define b where "b = (of_nat (4096 * j) :: u64)"
  have b: "unat b = 4096 * j" unfolding b_def by (subst unat_of_nat) (use assms(3) Suc in simp)
  have "unat (vpn b) = j" using b assms(3) Suc by (subst unat_vpn) simp_all
  then have t: "table_at p2v m root b 3 \<noteq> None" using assms(1) Suc by (simp add: tabled_def)
  have tb: "table_at p2v m root b d \<noteq> None" if "d \<le> 3" for d
    using table_at_None [of p2v m root b d 3] t that by blast
  note sb = same_block [OF assms(2) [unfolded Suc] b]
  have ta: "table_at p2v m root a d \<noteq> None" if "d \<le> 3" "same_path d a b" for d
    using table_at_path [OF that(2), of p2v m root] tb [OF that(1)] by simp
  have p: "table_at p2v m root a 1 \<noteq> None" "k mod 2 ^ 18 \<noteq> 0 \<Longrightarrow> table_at p2v m root a 2 \<noteq> None"
    "k mod 512 \<noteq> 0 \<Longrightarrow> table_at p2v m root a 3 \<noteq> None"
    using ta [of 1] ta [of 2] ta [of 3] sb assms(3) Suc by simp_all
  have "missing p2v m root a 3 = (if table_at p2v m root a 1 = None then 1 else 0) +
      (if table_at p2v m root a 2 = None then 1 else 0) + (if table_at p2v m root a 3 = None then 1 else 0)"
    by (simp add: numeral_3_eq_3 numeral_2_eq_2)
  then show ?thesis using p by (auto simp: tables_here_def)
qed

lemma tabled_map:
  assumes ok: "paging_ok p2v root s" and dm: "direct_map p2v v2p (free_pfns s)" and tb: "tabled p2v root k (mem s)"
    and a: "unat a = 4096 * k" "k < 2 ^ 20" and sup: "tables_left k \<le> single_pages s"
    and run: "map_page p2v v2p root a a flags s = (ret, s')"
  shows "ret = CK_SUCCESS" "paging_ok p2v root s'" "free_pfns s' \<subseteq> free_pfns s" "tabled p2v root (Suc k) (mem s')"
    "tables_left (Suc k) \<le> single_pages s'"
proof -
  have m: "missing p2v (mem s) root a 3 \<le> tables_here k" by (rule tabled_missing [OF tb a])
  have le: "tables_left k = tables_left (Suc k) + tables_here k" by (rule tables_left_step [OF a(2)])
  have r: "ret = CK_SUCCESS" "paging_ok p2v root s'" "free_pfns s' \<subseteq> free_pfns s" "tables_grow p2v root (mem s) (mem s')"
    "table_at p2v (mem s') root a 3 \<noteq> None" "single_pages s \<le> single_pages s' + missing p2v (mem s) root a 3"
    using map_page_run [OF ok dm run] m le sup by auto
  show "ret = CK_SUCCESS" "paging_ok p2v root s'" "free_pfns s' \<subseteq> free_pfns s" by (rule r)+
  show "tables_left (Suc k) \<le> single_pages s'" using r(6) m le sup by simp
  have va: "unat (vpn a) = k" using a by (subst unat_vpn) simp_all
  show "tabled p2v root (Suc k) (mem s')"
    unfolding tabled_def
  proof (intro allI impI)
    fix v assume "unat (vpn v) < Suc k"
    then consider "unat (vpn v) < k" | "vpn v = vpn a" using va by (auto simp: less_Suc_eq word_unat_eq_iff)
    then show "table_at p2v (mem s') root v 3 \<noteq> None"
    proof cases
      case 1
      then show ?thesis using tb tables_grow_None [OF r(4) order_refl] unfolding tabled_def by blast
    next
      case 2
      then have "same_path 3 v a" using same_path_vpn same_path_4 by blast
      then show ?thesis using table_at_path [of 3 v a p2v "mem s'" root] r(5) by simp
    qed
  qed
qed

lemma create_identity_map_low:
  assumes ok: "paging_ok p2v root s" and dm: "direct_map p2v v2p (free_pfns s)" and sup: "2053 \<le> single_pages s"
    and run: "create_identity_map p2v v2p root 0 0x100000000 flags s = Some (ret, s')"
  shows "ret = CK_SUCCESS \<and> tabled p2v root (2 ^ 20) (mem s')"
proof -
  let ?I = "\<lambda>a t. \<exists>k. unat a = 4096 * k \<and> k \<le> 2 ^ 20 \<and> paging_ok p2v root t \<and> free_pfns t \<subseteq> free_pfns s \<and>
    tabled p2v root k (mem t) \<and> tables_left k \<le> single_pages t"
  show ?thesis
  proof (rule create_identity_map_rule [OF _ _ _ _ run, where I = ?I])
    fix a t r t' assume a: "a < 0x100000000" and I: "?I a t" and m: "map_page p2v v2p root a a flags t = (r, t')"
    from I obtain k where k: "unat a = 4096 * k" "paging_ok p2v root t" "free_pfns t \<subseteq> free_pfns s"
      "tabled p2v root k (mem t)" "tables_left k \<le> single_pages t" by blast
    have k': "k < 2 ^ 20" using a k(1) by (simp add: word_less_nat_alt)
    note tm = tabled_map [OF k(2) direct_map_mono [OF dm k(3)] k(4,1) k' k(5) m]
    have "unat (a + 4096) = 4096 * Suc k" using k(1) k' by (simp add: unat_word_ariths)
    then have "?I (a + 4096) t'" using tm k' k(3) by (intro exI [of _ "Suc k"]) auto
    then show "if r = CK_SUCCESS then ?I (a + 4096) t' else r = CK_SUCCESS \<and> tabled p2v root (2 ^ 20) (mem t')"
      using tm(1) by simp
  next
    fix a :: u64 and t assume "\<not> a < 0x100000000" "?I a t"
    then obtain k where "unat a = 4096 * k" "k \<le> 2 ^ 20" "2 ^ 32 \<le> unat a" "tabled p2v root k (mem t)"
      by (auto simp: word_less_nat_alt)
    moreover from this have "k = 2 ^ 20" by simp
    ultimately show "CK_SUCCESS = CK_SUCCESS \<and> tabled p2v root (2 ^ 20) (mem t)" by simp
  next
    show "?I 0 s" using ok sup by (intro exI [of _ 0]) (simp add: tabled_def tables_left_def)
  qed simp
qed

lemma create_identity_map_tabled:
  assumes ok: "paging_ok p2v root s" and dm: "direct_map p2v v2p (free_pfns s)" and tb: "tabled p2v root (2 ^ 20) (mem s)"
    and e: "unat e \<le> 2 ^ 32" and run: "create_identity_map p2v v2p root addr e flags s = Some (ret, s')"
  shows "ret = CK_SUCCESS"
proof (rule create_identity_map_rule [OF _ _ _ _ run, where Q = "\<lambda>r _. r = CK_SUCCESS" and
      I = "\<lambda>_ t. paging_ok p2v root t \<and> free_pfns t \<subseteq> free_pfns s \<and> tabled p2v root (2 ^ 20) (mem t)"])
  fix a t r t' assume a: "a < e" and I: "paging_ok p2v root t \<and> free_pfns t \<subseteq> free_pfns s \<and> tabled p2v root (2 ^ 20) (mem t)"
    and m: "map_page p2v v2p root a a flags t = (r, t')"
  have u: "unat a < 2 ^ 32" using a e by (simp add: word_less_nat_alt)
  then have "unat a div 4096 < 2 ^ 20" by (simp add: less_mult_imp_div_less)
  moreover have "unat (vpn a) = unat a div 4096" using u by (intro unat_vpn) simp
  ultimately have "table_at p2v (mem t) root a 3 \<noteq> None" using I by (simp add: tabled_def)
  then have "table_at p2v (mem t) root a d \<noteq> None" if "d \<le> 3" for d
    using table_at_None [of p2v "mem t" root a d 3] that by metis
  from this [of 1] this [of 2] this [of 3] have z: "missing p2v (mem t) root a 3 = 0"
    by (simp add: numeral_3_eq_3 numeral_2_eq_2)
  have "direct_map p2v v2p (free_pfns t)" using direct_map_mono [OF dm] I by blast
  from map_page_run [OF conjunct1 [OF I] this m] z
  have r: "r = CK_SUCCESS" "paging_ok p2v root t'" "free_pfns t' \<subseteq> free_pfns t" "tables_grow p2v root (mem t) (mem t')" by auto
  have "tabled p2v root (2 ^ 20) (mem t')" using I tables_grow_None [OF r(4) order_refl] unfolding tabled_def by blast
  then show "if r = CK_SUCCESS then paging_ok p2v root t' \<and> free_pfns t' \<subseteq> free_pfns s \<and> tabled p2v root (2 ^ 20) (mem t')
    else r = CK_SUCCESS" using r I by auto
qed (use ok tb e in auto)

section \<open>Initialisation\<close>

lemma kernel_end_bound: "unat ((kend + PAGE_SIZE - 1) AND NOT (PAGE_SIZE - 1)) \<le> 2 ^ 64 - 4096"
proof -
  have "(kend + PAGE_SIZE - 1) AND NOT (PAGE_SIZE - 1) \<le> NOT (PAGE_SIZE - 1)"
    by (simp add: word_and_le1)
  then show ?thesis by (simp add: word_le_nat_alt PAGE_SIZE_def)
qed

lemma fresh_root:
  assumes "frame_inv s" "alloc_page 0 s = (pgd, s1)" "pgd \<noteq> 0"
    and s2: "s2 = s1\<lparr>g_kernel_pgd := pgd, mem := mem_set (mem s1) pgd 0 4096\<rparr>"
  shows "paging_ok p2v pgd s2" "free_pfns s2 \<subseteq> free_pfns s" "leaf p2v (mem s2) pgd v = 0"
proof -
  define s3 where "s3 = s1\<lparr>mem := mem_set (mem s1) pgd 0 4096\<rparr>"
  note fp = frames.fresh_page [OF assms(1-3) s3_def]
  have m: "mem s2 = mem s3" "g_zones s2 = g_zones s3" by (simp_all add: s2 s3_def)
  note c = frame_cong [OF m(2,1)]
  have a: "aligned 12 pgd" "pfn pgd \<notin> free_pfns s3" "frame_inv s3" "free_pfns s3 \<subseteq> free_pfns s" using fp(1) by auto
  have z: "load64 (mem s2) a = 0" if "aligned 3 a" "pfn a = pfn pgd" for a using fp(3) [OF that] by (simp add: m)
  show "paging_ok p2v pgd s2" "leaf p2v (mem s2) pgd v = 0" "free_pfns s2 \<subseteq> free_pfns s"
    using pt_wf_empty [OF a(1,2) assms(3) z, where p2v = p2v] a(3,4) c by (simp_all add: paging_ok_def m)
qed

lemma unat_page_down: "unat (x AND NOT (PAGE_SIZE - 1)) = 4096 * (unat x div 4096)"
proof -
  have m: "PAGE_SIZE - 1 = mask 12" by (simp add: PAGE_SIZE_def mask_eq_exp_minus_1)
  have "x AND NOT (PAGE_SIZE - 1) = push_bit 12 (drop_bit 12 x)"
    unfolding m by (rule bit_word_eqI) (auto simp: bit_simps)
  moreover have "unat (drop_bit 12 x) = unat x div 4096" by (subst unat_drop_bit_eq) (simp add: drop_bit_eq_div)
  moreover have "4096 * (unat x div 4096) < 2 ^ 64" using u64_unat_less [of x] by (simp add: less_mult_imp_div_less)
  ultimately show ?thesis by (simp add: push_bit_eq_mult unat_word_ariths)
qed

lemma page_down:
  "aligned 12 (x AND NOT (PAGE_SIZE - 1))" "pfn (x AND NOT (PAGE_SIZE - 1)) = pfn x"
  by (simp_all add: aligned_iff_dvd unat_page_down)

lemma page_up:
  assumes "unat kend \<le> 2 ^ 48"
  shows "pfn ((kend + PAGE_SIZE - 1) AND NOT (PAGE_SIZE - 1)) = (unat kend + 4095) div 4096"
    "unat ((kend + PAGE_SIZE - 1) AND NOT (PAGE_SIZE - 1)) \<le> 2 ^ 48"
    "unat kend \<le> 2 ^ 32 \<Longrightarrow> unat ((kend + PAGE_SIZE - 1) AND NOT (PAGE_SIZE - 1)) \<le> 2 ^ 32"
proof -
  have p: "kend + PAGE_SIZE - 1 = kend + 4095" by (simp add: PAGE_SIZE_def)
  have u: "unat (kend + 4095) = unat kend + 4095" using assms by (simp add: unat_word_ariths)
  show "pfn ((kend + PAGE_SIZE - 1) AND NOT (PAGE_SIZE - 1)) = (unat kend + 4095) div 4096"
    by (simp only: page_down(2)) (simp only: p u)
  have "unat ((kend + PAGE_SIZE - 1) AND NOT (PAGE_SIZE - 1)) = 4096 * ((unat kend + 4095) div 4096)"
    by (simp only: unat_page_down) (simp only: p u)
  then show "unat ((kend + PAGE_SIZE - 1) AND NOT (PAGE_SIZE - 1)) \<le> 2 ^ 48"
    "unat kend \<le> 2 ^ 32 \<Longrightarrow> unat ((kend + PAGE_SIZE - 1) AND NOT (PAGE_SIZE - 1)) \<le> 2 ^ 32" using assms by auto
qed

text \<open>The entry \<open>paging_init\<close> means to give the page of \<open>v\<close>, for a kernel image from \<open>kstart\<close> to \<open>kend\<close>.\<close>

definition boot_entry :: "u64 \<Rightarrow> u64 \<Rightarrow> u64 \<Rightarrow> u64" where
  "boot_entry kstart kend v =
     (if unat kstart div 4096 \<le> unat (vpn v) \<and> unat (vpn v) < (unat kend + 4095) div 4096
      then page_entry (PTE_PRESENT OR PTE_WRITABLE OR PTE_GLOBAL OR PTE_NX) v
      else if unat (vpn v) < 2 ^ 20 then page_entry (PTE_PRESENT OR PTE_WRITABLE OR PTE_GLOBAL) v
      else 0)"

lemma paging_init_run:
  assumes "frame_inv s" "direct_map p2v v2p (free_pfns s)" "alloc_page 0 s = (pgd, s1)" "pgd \<noteq> 0"
  obtains s2 r3 s3 r4 s4 where "paging_init p2v v2p kstart kend s = Some s4" "g_kernel_pgd s4 = pgd"
    "paging_ok p2v pgd s2" "direct_map p2v v2p (free_pfns s2)" "\<And>v. leaf p2v (mem s2) pgd v = 0"
    "single_pages s2 = single_pages s1"
    "create_identity_map p2v v2p pgd 0 0x100000000 (PTE_PRESENT OR PTE_WRITABLE OR PTE_GLOBAL) s2 = Some (r3, s3)"
    "paging_ok p2v pgd s3" "direct_map p2v v2p (free_pfns s3)"
    "create_identity_map p2v v2p pgd (kstart AND NOT (PAGE_SIZE - 1)) ((kend + PAGE_SIZE - 1) AND NOT (PAGE_SIZE - 1))
       (PTE_PRESENT OR PTE_WRITABLE OR PTE_GLOBAL OR PTE_NX) s3 = Some (r4, s4)"
    "paging_ok p2v pgd s4"
proof -
  define s2 where "s2 = s1\<lparr>g_kernel_pgd := pgd, mem := mem_set (mem s1) pgd 0 4096\<rparr>"
  note f = fresh_root [OF assms(1,3,4) s2_def]
  have d2: "direct_map p2v v2p (free_pfns s2)" by (rule direct_map_mono [OF assms(2) f(2)])
  let ?fl = "PTE_PRESENT OR PTE_WRITABLE OR PTE_GLOBAL"
  obtain r3 s3 where c3: "create_identity_map p2v v2p pgd 0 0x100000000 ?fl s2 = Some (r3, s3)"
    "paging_ok p2v pgd s3" "free_pfns s3 \<subseteq> free_pfns s2" "g_kernel_pgd s3 = g_kernel_pgd s2"
    using create_identity_map_returns [OF _ f(1) d2, of "0x100000000" 0 ?fl] by auto
  have d3: "direct_map p2v v2p (free_pfns s3)" by (rule direct_map_mono [OF d2 c3(3)])
  obtain r4 s4 where c4: "create_identity_map p2v v2p pgd (kstart AND NOT (PAGE_SIZE - 1))
      ((kend + PAGE_SIZE - 1) AND NOT (PAGE_SIZE - 1)) (PTE_PRESENT OR PTE_WRITABLE OR PTE_GLOBAL OR PTE_NX) s3 = Some (r4, s4)"
    "paging_ok p2v pgd s4" "g_kernel_pgd s4 = g_kernel_pgd s3"
    using create_identity_map_returns [OF kernel_end_bound c3(2) d3] by blast
  have i: "paging_init p2v v2p kstart kend s = Some s4"
    using assms(3,4) c3(1) c4(1) by (simp add: paging_init_def Let_def s2_def PAGE_SIZE_def)
  have g: "g_kernel_pgd s4 = pgd" "single_pages s2 = single_pages s1" using c3(4) c4(3) by (simp_all add: s2_def area_def)
  show thesis by (rule that [OF i g(1) f(1) d2 f(3) g(2) c3(1,2) d3 c4(1,2)])
qed

lemma boot_entries:
  assumes s2: "paging_ok p2v pgd s2" "direct_map p2v v2p (free_pfns s2)" "\<And>v. leaf p2v (mem s2) pgd v = 0"
    and c3: "create_identity_map p2v v2p pgd 0 0x100000000 (PTE_PRESENT OR PTE_WRITABLE OR PTE_GLOBAL) s2 = Some (r3, s3)"
    and s3: "paging_ok p2v pgd s3" "direct_map p2v v2p (free_pfns s3)"
    and c4: "create_identity_map p2v v2p pgd (kstart AND NOT (PAGE_SIZE - 1)) ((kend + PAGE_SIZE - 1) AND NOT (PAGE_SIZE - 1))
       (PTE_PRESENT OR PTE_WRITABLE OR PTE_GLOBAL OR PTE_NX) s3 = Some (r4, s4)"
    and kend: "unat kend \<le> 2 ^ 48"
  shows "leaf p2v (mem s4) pgd v \<in> {0, page_entry (PTE_PRESENT OR PTE_WRITABLE OR PTE_GLOBAL) v,
      page_entry (PTE_PRESENT OR PTE_WRITABLE OR PTE_GLOBAL OR PTE_NX) v}"
    and "r3 = CK_SUCCESS \<Longrightarrow> r4 = CK_SUCCESS \<Longrightarrow> leaf p2v (mem s4) pgd v = boot_entry kstart kend v"
    and "r3 \<noteq> CK_SUCCESS \<or> r4 \<noteq> CK_SUCCESS \<Longrightarrow> alloc_page 0 s4 = (0, s4)"
proof -
  have fl: "PTE_PRESENT OR PTE_WRITABLE OR PTE_GLOBAL OR PTE_PRESENT = (PTE_PRESENT OR PTE_WRITABLE OR PTE_GLOBAL)"
    "(PTE_PRESENT OR PTE_WRITABLE OR PTE_GLOBAL OR PTE_NX) OR PTE_PRESENT = (PTE_PRESENT OR PTE_WRITABLE OR PTE_GLOBAL OR PTE_NX)"
    "(PTE_PRESENT OR PTE_WRITABLE OR PTE_GLOBAL) OR PTE_PRESENT = (PTE_PRESENT OR PTE_WRITABLE OR PTE_GLOBAL)"
    by (simp_all add: PTE_PRESENT_def PTE_WRITABLE_def PTE_GLOBAL_def PTE_NX_def)
  note ke = page_up [OF kend] and be = kernel_end_bound [of kend]
  have e: "unat (0x100000000 :: u64) \<le> 2 ^ 64 - 4096" "unat (0x100000000 :: u64) \<le> 2 ^ 48" "aligned 12 (0 :: u64)"
    "aligned 12 (0x100000000 :: u64)" by (simp_all add: aligned_def)
  note o3 = create_identity_map_outcome [OF e(1) s2(1,2) c3] and o4 = create_identity_map_outcome [OF be s3 c4]
  show "leaf p2v (mem s4) pgd v \<in> {0, page_entry (PTE_PRESENT OR PTE_WRITABLE OR PTE_GLOBAL) v,
      page_entry (PTE_PRESENT OR PTE_WRITABLE OR PTE_GLOBAL OR PTE_NX) v}"
    using o3(2) [OF e(2), of v] o4(2) [OF ke(2), of v] s2(3) unfolding fl by auto
  show "alloc_page 0 s4 = (0, s4)" if "r3 \<noteq> CK_SUCCESS \<or> r4 \<noteq> CK_SUCCESS" using that o3(1) o4(1) by blast
  show "leaf p2v (mem s4) pgd v = boot_entry kstart kend v" if "r3 = CK_SUCCESS" "r4 = CK_SUCCESS"
    using create_identity_map_range [OF e(2) s2(1,2) e(3,4) c3 [unfolded that], of v] s2(3)
      create_identity_map_range [OF ke(2) s3 page_down(1) page_down(1) c4 [unfolded that], of v]
    unfolding fl ke(1) unfolding page_down(2) boot_entry_def by simp
qed

text \<open>C18: \<open>paging_init\<close> always returns, wherever the kernel image lies. Either no page was available and
  there is no page directory, or the directory it leaves behind is well formed. For an image that
  ends at or below \<open>2 ^ 48\<close>, the pages of the kernel image translate to themselves, present, writable,
  global and not executable, every other page below 4 GiB translates to itself, present, writable and
  global, and no other page has a translation. The exception is an allocator that has run out of
  pages: then a page may have no entry, or the low-memory entry. With 2054 free single pages
  and an image below 4 GiB there is no exception.\<close>

theorem paging_init_correct:
  assumes "frame_inv s" and "direct_map p2v v2p (free_pfns s)"
  shows "\<exists>s'. paging_init p2v v2p kstart kend s = Some s' \<and>
    (if g_kernel_pgd s' = 0 then alloc_page 0 s = (0, s)
     else paging_ok p2v (g_kernel_pgd s') s' \<and>
       (unat kend \<le> 2 ^ 48 \<longrightarrow>
         (\<forall>v. leaf p2v (mem s') (g_kernel_pgd s') v \<in>
            {0, page_entry (PTE_PRESENT OR PTE_WRITABLE OR PTE_GLOBAL) v,
             page_entry (PTE_PRESENT OR PTE_WRITABLE OR PTE_GLOBAL OR PTE_NX) v}) \<and>
         (alloc_page 0 s' \<noteq> (0, s') \<or> 2054 \<le> single_pages s \<and> unat kend \<le> 2 ^ 32 \<longrightarrow>
            leaf p2v (mem s') (g_kernel_pgd s') = boot_entry kstart kend)))"
proof -
  obtain pgd s1 where a: "alloc_page 0 s = (pgd, s1)" by fastforce
  show ?thesis
  proof (cases "pgd = 0")
    case True
    then show ?thesis using a frames.alloc_null [OF assms(1), of 0 s1] by (simp add: paging_init_def)
  next
    case False
    obtain s2 r3 s3 r4 s4 where s4: "paging_init p2v v2p kstart kend s = Some s4" "g_kernel_pgd s4 = pgd"
      and s2: "paging_ok p2v pgd s2" "direct_map p2v v2p (free_pfns s2)" "\<And>v. leaf p2v (mem s2) pgd v = 0"
        "single_pages s2 = single_pages s1"
      and c3: "create_identity_map p2v v2p pgd 0 0x100000000 (PTE_PRESENT OR PTE_WRITABLE OR PTE_GLOBAL) s2 = Some (r3, s3)"
      and s3: "paging_ok p2v pgd s3" "direct_map p2v v2p (free_pfns s3)"
      and c4: "create_identity_map p2v v2p pgd (kstart AND NOT (PAGE_SIZE - 1)) ((kend + PAGE_SIZE - 1) AND NOT (PAGE_SIZE - 1))
        (PTE_PRESENT OR PTE_WRITABLE OR PTE_GLOBAL OR PTE_NX) s3 = Some (r4, s4)" and ok: "paging_ok p2v pgd s4"
      using paging_init_run [OF assms a False, of kstart kend] by metis
    note be = boot_entries [OF s2(1-3) c3 s3 c4]
    have "r3 = CK_SUCCESS \<and> r4 = CK_SUCCESS" if m: "2054 \<le> single_pages s" and k: "unat kend \<le> 2 ^ 32"
    proof -
      have "2053 \<le> single_pages s2" using alloc_page_supply(1) [OF assms(1) a] m s2(4) by simp
      note low = create_identity_map_low [OF s2(1,2) this c3]
      have "unat ((kend + PAGE_SIZE - 1) AND NOT (PAGE_SIZE - 1)) \<le> 2 ^ 32" using k by (intro page_up(3)) simp_all
      then show ?thesis using low create_identity_map_tabled [OF s3 _ _ c4] by blast
    qed
    then show ?thesis using s4 ok False be by auto
  qed
qed

text \<open>\<open>n\<close> free single pages from \<open>0x800000\<close> on.\<close>

primrec page_pool :: "nat \<Rightarrow> paging_state" where
  "page_pool 0 = boot_regs (\<lambda>_. 0)"
| "page_pool (Suc n) = push_block 0 0 (of_nat (4096 * (2048 + n))) (page_pool n)"

lemma page_pool_facts:
  "n \<le> 4096 \<Longrightarrow> frame_inv (page_pool n) \<and> free_pfns (page_pool n) = {2048..<2048 + n} \<and>
     nr_free (area (page_pool n) 0 0) = of_nat n"
proof (induction n)
  case 0
  then show ?case using boot_regs_inv [where m = "\<lambda>_. 0"] by simp
next
  case (Suc n)
  let ?p = "of_nat (4096 * (2048 + n)) :: ptr"
  have u: "unat ?p = 4096 * (2048 + n)" by (subst unat_of_nat) (use Suc.prems in simp)
  have p: "?p \<noteq> 0" "aligned 12 ?p" "pfn ?p = 2048 + n" using u by (auto simp: aligned_iff_dvd unat_eq_zero [symmetric] simp del: unat_eq_zero)
  have "frame_inv (page_pool n)" "pfn ?p \<notin> free_pfns (page_pool n)" using Suc p(3) by auto
  from push_page [OF this(1) p(1,2) this(2)] show ?case
    using Suc p(3) by (auto simp: frame_inv_def)
qed

lemma page_pool_direct: "n \<le> 4096 \<Longrightarrow> direct_map id id (free_pfns (page_pool n))"
  unfolding direct_map_def
proof (intro allI impI, elim conjE)
  fix p :: ptr assume n: "n \<le> 4096" and p: "aligned 12 p" "pfn p \<in> free_pfns (page_pool n)"
  have "pfn p < 2 ^ 36" using page_pool_facts [OF n] p(2) n by auto
  then have "unat p < 2 ^ 48" by simp
  then have "create_pte p 0 = page_entry 0 p" by (rule create_pte_self) simp
  moreover have "unat (push_bit 12 (vpn p)) = unat p"
    using p(1) \<open>unat p < 2 ^ 48\<close> unat_vpn [of p]
    by (auto simp: push_bit_eq_mult unat_word_ariths aligned_iff_dvd elim!: dvdE)
  then have "push_bit 12 (vpn p) = p" by (simp add: word_unat_eq_iff)
  ultimately show "id (id p AND PTE_ADDR) = p" by (simp add: create_pte_def page_entry_def)
qed

theorem paging_init_correct_witness:
  "\<exists>s'. paging_init id id 0x100000 0x10200000 (page_pool 2054) = Some s' \<and>
     leaf id (mem s') (g_kernel_pgd s') 0x100000 = 0x8000000000100103 \<and>
     leaf id (mem s') (g_kernel_pgd s') 0x20000123 = 0x20000103 \<and>
     leaf id (mem s') (g_kernel_pgd s') 0x100000000 = 0"
proof -
  have f: "frame_inv (page_pool 2054)" "single_pages (page_pool 2054) = 2054" using page_pool_facts [of 2054] by simp_all
  then have "alloc_page 0 (page_pool 2054) \<noteq> (0, page_pool 2054)" using alloc_page_supply(2) [OF f(1), of 0] by fastforce
  then obtain s' where s': "paging_init id id 0x100000 0x10200000 (page_pool 2054) = Some s'"
    "leaf id (mem s') (g_kernel_pgd s') = boot_entry 0x100000 0x10200000"
    using paging_init_correct [OF f(1) page_pool_direct, of "0x100000" "0x10200000"] f(2) by (auto split: if_splits)
  have v: "vpn 0x100000 = 0x100" "vpn 0x20000123 = 0x20000" "vpn 0x100000000 = 0x100000"
    by (simp_all add: vpn_def)
  show ?thesis using s' by (simp add: boot_entry_def page_entry_def v PTE_PRESENT_def PTE_WRITABLE_def PTE_GLOBAL_def PTE_NX_def)
qed

end
