(* ===== verification/CK_Slab.thy ===== *)
theory CK_Slab
  imports CK_Paging
begin

text \<open>
  The kernel object allocator \<open>src/kernel/memory/slab.c\<close>. A slab is one page from the frame
  allocator: a header \<open>slab_t\<close> followed by equally sized objects, the free ones linked through
  their first word. The headers are a heap of records indexed by the slab's address; the links of
  the free objects live in the byte memory. A cache is named by its index in \<open>g_caches\<close>, with
  \<open>None\<close> for the null pointer.
\<close>

section \<open>Data\<close>

definition SLAB_MAGIC :: u64 where "SLAB_MAGIC = 0xDEADBEEFCAFEBABE"
definition SLAB_FLAG_HWCACHE :: u32 where "SLAB_FLAG_HWCACHE = 0x01"
definition SLAB_FLAG_POISON :: u32 where "SLAB_FLAG_POISON = 0x02"
definition MAX_CACHES :: u32 where "MAX_CACHES = 64"
definition MIN_OBJECT_SIZE :: u64 where "MIN_OBJECT_SIZE = 32"
definition MAX_OBJECT_SIZE :: u64 where "MAX_OBJECT_SIZE = PAGE_SIZE div 2"

record slab_t =
  sl_cache :: nat
  sl_magic :: u64
  sl_inuse :: u32
  sl_total :: u32
  sl_freelist :: ptr
  sl_objects :: ptr
  sl_bitmap :: ptr
  sl_next :: ptr
  sl_prev :: ptr

text \<open>Eight 8-byte words: a cache pointer, the magic, two 32-bit counters, five pointers.\<close>

definition sizeof_slab_t :: u64 where "sizeof_slab_t = 64"

record slab_cache_t =
  c_name :: string
  c_object_size :: u64
  c_aligned_size :: u64
  c_slab_size :: u64
  c_objects_per_slab :: u32
  c_flags :: u32
  c_color :: u32
  slabs_partial :: ptr
  slabs_full :: ptr
  slabs_free :: ptr
  nr_objects :: atomic_t
  nr_slabs :: atomic_t

record slab_state = paging_state +
  g_caches :: "slab_cache_t list"
  g_cache_count :: u32
  slabs :: "ptr \<Rightarrow> slab_t"

definition cache_zero :: slab_cache_t where
  "cache_zero =
     \<lparr>c_name = [], c_object_size = 0, c_aligned_size = 0, c_slab_size = 0, c_objects_per_slab = 0,
      c_flags = 0, c_color = 0, slabs_partial = 0, slabs_full = 0, slabs_free = 0,
      nr_objects = 0, nr_slabs = 0\<rparr>"

definition get_cache :: "nat \<Rightarrow> 'a slab_state_scheme \<Rightarrow> slab_cache_t" where
  "get_cache i s = g_caches s ! i"

definition set_cache :: "nat \<Rightarrow> slab_cache_t \<Rightarrow> 'a slab_state_scheme \<Rightarrow> 'a slab_state_scheme" where
  "set_cache i c s = s\<lparr>g_caches := (g_caches s)[i := c]\<rparr>"

section \<open>Slabs\<close>

fun build_freelist :: "nat \<Rightarrow> u64 \<Rightarrow> ptr \<Rightarrow> memory \<Rightarrow> ptr \<times> memory" where
  "build_freelist 0 step obj m = (obj, m)"
| "build_freelist (Suc n) step obj m = build_freelist n step (obj + step) (store64 m obj (obj + step))"

text \<open>\<open>calloc\<close> is not part of the kernel sources: it is an argument.\<close>

definition slab_init ::
  "(u64 \<Rightarrow> u64 \<Rightarrow> 'a slab_state_scheme \<Rightarrow> ptr \<times> 'a slab_state_scheme) \<Rightarrow>
   ptr \<Rightarrow> nat \<Rightarrow> ptr \<Rightarrow> 'a slab_state_scheme \<Rightarrow> 'a slab_state_scheme" where
  "slab_init calloc slab cache memory s =
     (let c = get_cache cache s;
          objs = memory + ucast (c_color c);
          s1 = s\<lparr>slabs := (slabs s)(slab :=
                 (slabs s slab)\<lparr>sl_cache := cache, sl_magic := SLAB_MAGIC, sl_inuse := 0,
                   sl_total := c_objects_per_slab c, sl_objects := objs, sl_freelist := objs,
                   sl_next := 0, sl_prev := 0\<rparr>)\<rparr>
      in case calloc (ucast (c_objects_per_slab c div 8 + 1)) 1 s1 of (bm, s2) \<Rightarrow>
           let s3 = s2\<lparr>slabs := (slabs s2)(slab := (slabs s2 slab)\<lparr>sl_bitmap := bm\<rparr>)\<rparr>
           in case build_freelist (unat (c_objects_per_slab c - 1)) (c_aligned_size c) objs (mem s3) of
                (obj, m) \<Rightarrow> s3\<lparr>mem := store64 m obj 0\<rparr>)"

definition kmem_cache_create ::
  "string \<Rightarrow> u64 \<Rightarrow> u32 \<Rightarrow> 'a slab_state_scheme \<Rightarrow> nat option \<times> 'a slab_state_scheme" where
  "kmem_cache_create name sz flags s =
     (if g_cache_count s \<ge> MAX_CACHES then (None, s)
      else if sz < MIN_OBJECT_SIZE \<or> sz > MAX_OBJECT_SIZE then (None, s)
      else
        (let i = unat (g_cache_count s);
             s1 = s\<lparr>g_cache_count := g_cache_count s + 1\<rparr>;
             c = cache_zero\<lparr>c_name := take 31 name, c_object_size := sz, c_flags := flags,
                   c_aligned_size := ALIGN_UP sz 64, c_slab_size := PAGE_SIZE\<rparr>;
             c1 = c\<lparr>c_objects_per_slab := ucast ((c_slab_size c - sizeof_slab_t) div c_aligned_size c)\<rparr>;
             c2 = (if flags AND SLAB_FLAG_HWCACHE \<noteq> 0
                   then c1\<lparr>c_color := (g_cache_count s1 mod 8) * 64\<rparr> else c1)
         in (Some i, set_cache i c2 s1)))"

section \<open>Lists of slabs\<close>

text \<open>The four statements that put a slab in front of a list with head \<open>hd\<close>.\<close>

definition slab_push :: "ptr \<Rightarrow> ptr \<Rightarrow> (ptr \<Rightarrow> slab_t) \<Rightarrow> (ptr \<Rightarrow> slab_t)" where
  "slab_push slab hd_ptr h =
     (let h1 = h(slab := (h slab)\<lparr>sl_next := hd_ptr, sl_prev := 0\<rparr>)
      in if hd_ptr \<noteq> 0 then h1(hd_ptr := (h1 hd_ptr)\<lparr>sl_prev := slab\<rparr>) else h1)"

text \<open>Unlinking a slab: the head of the partial list moves when the slab has no predecessor,
  whatever list it is on.\<close>

definition slab_unlink :: "ptr \<Rightarrow> ptr \<Rightarrow> (ptr \<Rightarrow> slab_t) \<Rightarrow> ptr \<times> (ptr \<Rightarrow> slab_t)" where
  "slab_unlink slab partial h =
     (let nx = sl_next (h slab); pv = sl_prev (h slab);
          partial1 = (if pv \<noteq> 0 then partial else nx);
          h1 = (if pv \<noteq> 0 then h(pv := (h pv)\<lparr>sl_next := nx\<rparr>) else h);
          h2 = (if sl_next (h1 slab) \<noteq> 0
                then h1(sl_next (h1 slab) := (h1 (sl_next (h1 slab)))\<lparr>sl_prev := sl_prev (h1 slab)\<rparr>)
                else h1)
      in (partial1, h2))"

section \<open>Allocation of objects\<close>

text \<open>The first half: the slab to allocate from, \<open>None\<close> when no page was available.\<close>

definition pick_slab ::
  "(u64 \<Rightarrow> u64 \<Rightarrow> 'a slab_state_scheme \<Rightarrow> ptr \<times> 'a slab_state_scheme) \<Rightarrow>
   nat \<Rightarrow> 'a slab_state_scheme \<Rightarrow> ptr option \<times> 'a slab_state_scheme" where
  "pick_slab calloc cache s =
     (let c = get_cache cache s in
      if slabs_partial c \<noteq> 0 then (Some (slabs_partial c), s)
      else if slabs_free c \<noteq> 0 then
        (let slab = slabs_free c;
             rest = sl_next (slabs s slab);
             h = (if rest \<noteq> 0 then (slabs s)(rest := (slabs s rest)\<lparr>sl_prev := 0\<rparr>) else slabs s);
             h1 = slab_push slab (slabs_partial c) h
         in (Some slab, set_cache cache (c\<lparr>slabs_free := rest, slabs_partial := slab\<rparr>) (s\<lparr>slabs := h1\<rparr>)))
      else
        (case alloc_page 0 s of (page, s1) \<Rightarrow>
           if page = 0 then (None, s1)
           else
             (let memory = page + ALIGN_UP sizeof_slab_t (c_aligned_size c);
                  s2 = slab_init calloc page cache memory s1;
                  c2 = get_cache cache s2;
                  h = slab_push page (slabs_partial c2) (slabs s2)
              in (Some page,
                  set_cache cache (c2\<lparr>slabs_partial := page, nr_slabs := snd (atomic_inc (nr_slabs c2))\<rparr>)
                    (s2\<lparr>slabs := h\<rparr>)))))"

text \<open>The second half: take the head of the slab's free list; a slab that is now full moves to the
  full list.\<close>

definition take_object :: "nat \<Rightarrow> ptr \<Rightarrow> 'a slab_state_scheme \<Rightarrow> ptr \<times> 'a slab_state_scheme" where
  "take_object cache slab s =
     (let obj = sl_freelist (slabs s slab) in
      if obj = 0 then (0, s)
      else
        (let h = (slabs s)(slab := (slabs s slab)
                   \<lparr>sl_freelist := load64 (mem s) obj, sl_inuse := sl_inuse (slabs s slab) + 1\<rparr>);
             c = get_cache cache s;
             (c1, h1) =
               (if sl_inuse (h slab) = sl_total (h slab) then
                  (case slab_unlink slab (slabs_partial c) h of (partial, h2) \<Rightarrow>
                     (c\<lparr>slabs_partial := partial, slabs_full := slab\<rparr>, slab_push slab (slabs_full c) h2))
                else (c, h));
             c2 = c1\<lparr>nr_objects := snd (atomic_inc (nr_objects c1))\<rparr>;
             m = (if c_flags c2 AND SLAB_FLAG_POISON \<noteq> 0 then mem_set (mem s) obj 0xCC (c_object_size c2) else mem s)
         in (obj, set_cache cache c2 (s\<lparr>slabs := h1, mem := m\<rparr>))))"

definition kmem_cache_alloc ::
  "(u64 \<Rightarrow> u64 \<Rightarrow> 'a slab_state_scheme \<Rightarrow> ptr \<times> 'a slab_state_scheme) \<Rightarrow>
   nat option \<Rightarrow> 'a slab_state_scheme \<Rightarrow> ptr \<times> 'a slab_state_scheme" where
  "kmem_cache_alloc calloc cache s =
     (case cache of None \<Rightarrow> (0, s)
      | Some i \<Rightarrow> (case pick_slab calloc i s of
                    (None, s1) \<Rightarrow> (0, s1)
                  | (Some slab, s1) \<Rightarrow> take_object i slab s1))"

section \<open>Release of objects\<close>

definition in_slab :: "slab_t \<Rightarrow> u64 \<Rightarrow> ptr \<Rightarrow> bool" where
  "in_slab sl aligned_size obj \<longleftrightarrow>
     obj \<ge> sl_objects sl \<and> obj < sl_objects sl + ucast (sl_total sl) * aligned_size"

text \<open>The search loop follows \<open>next\<close> links; on a cyclic list it does not return, \<open>None\<close>. The result
  0 is the null pointer.\<close>

partial_function (option) find_slab :: "(ptr \<Rightarrow> slab_t) \<Rightarrow> u64 \<Rightarrow> ptr \<Rightarrow> ptr \<Rightarrow> ptr option" where
  "find_slab h sz obj slab =
     (if slab = 0 then Some 0
      else if in_slab (h slab) sz obj then Some slab
      else find_slab h sz obj (sl_next (h slab)))"

text \<open>The part of \<open>kmem_cache_free\<close> after the slab was found.\<close>

definition give_object :: "nat \<Rightarrow> ptr \<Rightarrow> ptr \<Rightarrow> 'a slab_state_scheme \<Rightarrow> 'a slab_state_scheme" where
  "give_object cache slab obj s =
     (if slab = 0 \<or> sl_magic (slabs s slab) \<noteq> SLAB_MAGIC then s
      else
        (let m = store64 (mem s) obj (sl_freelist (slabs s slab));
             h = (slabs s)(slab := (slabs s slab)\<lparr>sl_freelist := obj, sl_inuse := sl_inuse (slabs s slab) - 1\<rparr>);
             c0 = get_cache cache s;
             c = c0\<lparr>nr_objects := snd (atomic_dec (nr_objects c0))\<rparr>;
             (c1, h1) =
               (if sl_inuse (h slab) = 0 then
                  (case slab_unlink slab (slabs_partial c) h of (partial, h2) \<Rightarrow>
                     (c\<lparr>slabs_partial := partial, slabs_free := slab, nr_slabs := snd (atomic_dec (nr_slabs c))\<rparr>,
                      slab_push slab (slabs_free c) h2))
                else if slab = slabs_full c then
                  (let rest = sl_next (h slab);
                       h2 = (if rest \<noteq> 0 then h(rest := (h rest)\<lparr>sl_prev := 0\<rparr>) else h)
                   in (c\<lparr>slabs_full := rest, slabs_partial := slab\<rparr>, slab_push slab (slabs_partial c) h2))
                else (c, h))
         in set_cache cache c1 (s\<lparr>slabs := h1, mem := m\<rparr>)))"

definition kmem_cache_free ::
  "nat option \<Rightarrow> ptr \<Rightarrow> 'a slab_state_scheme \<Rightarrow> 'a slab_state_scheme option" where
  "kmem_cache_free cache obj s =
     (case cache of None \<Rightarrow> Some s
      | Some i \<Rightarrow>
          if obj = 0 then Some s
          else
            (let c = get_cache i s in
             case find_slab (slabs s) (c_aligned_size c) obj (slabs_partial c) of
               None \<Rightarrow> None
             | Some slab \<Rightarrow>
                 if slab \<noteq> 0 then Some (give_object i slab obj s)
                 else map_option (\<lambda>slab. give_object i slab obj s)
                        (find_slab (slabs s) (c_aligned_size c) obj (slabs_full c))))"

section \<open>General allocation\<close>

fun find_cache :: "u64 \<Rightarrow> slab_cache_t list \<Rightarrow> nat \<Rightarrow> nat option" where
  "find_cache sz [] i = None"
| "find_cache sz (c # cs) i = (if c_object_size c \<ge> sz then Some i else find_cache sz cs (Suc i))"

text \<open>A shift by 64 or more is undefined, \<open>None\<close>.\<close>

function kmalloc_order :: "u64 \<Rightarrow> nat \<Rightarrow> nat option" where
  "kmalloc_order alloc_size order =
     (if order \<ge> 64 then None
      else if push_bit order 1 * PAGE_SIZE < alloc_size then kmalloc_order alloc_size (Suc order)
      else Some order)"
  by pat_completeness auto
termination
  by (relation "measure (\<lambda>(alloc_size, order). 64 - order)") auto

declare kmalloc_order.simps [simp del]

definition kmalloc ::
  "(u64 \<Rightarrow> u64 \<Rightarrow> 'a slab_state_scheme \<Rightarrow> ptr \<times> 'a slab_state_scheme) \<Rightarrow>
   u64 \<Rightarrow> 'a slab_state_scheme \<Rightarrow> (ptr \<times> 'a slab_state_scheme) option" where
  "kmalloc calloc sz s =
     (case find_cache sz (take (unat (g_cache_count s)) (g_caches s)) 0 of
        Some i \<Rightarrow> Some (kmem_cache_alloc calloc (Some i) s)
      | None \<Rightarrow>
          if sz > MAX_OBJECT_SIZE then
            map_option (\<lambda>order. alloc_pages (of_nat order) 0 s) (kmalloc_order (sz + PAGE_SIZE) 0)
          else Some (0, s))"

fun kfree_caches :: "nat \<Rightarrow> nat \<Rightarrow> ptr \<Rightarrow> 'a slab_state_scheme \<Rightarrow> 'a slab_state_scheme option" where
  "kfree_caches i 0 p s = Some s"
| "kfree_caches i (Suc n) p s =
     (case find_slab (slabs s) (c_aligned_size (get_cache i s)) p (slabs_partial (get_cache i s)) of
        None \<Rightarrow> None
      | Some slab \<Rightarrow> if slab \<noteq> 0 then kmem_cache_free (Some i) p s else kfree_caches (Suc i) n p s)"

definition kfree :: "ptr \<Rightarrow> 'a slab_state_scheme \<Rightarrow> 'a slab_state_scheme option" where
  "kfree p s = (if p = 0 then Some s else kfree_caches 0 (unat (g_cache_count s)) p s)"

definition slab_init_subsystem :: "'a slab_state_scheme \<Rightarrow> 'a slab_state_scheme" where
  "slab_init_subsystem s =
     (let s1 = snd (kmem_cache_create ''tiny-32'' 32 SLAB_FLAG_HWCACHE s);
          s2 = snd (kmem_cache_create ''small-64'' 64 SLAB_FLAG_HWCACHE s1);
          s3 = snd (kmem_cache_create ''medium-128'' 128 SLAB_FLAG_HWCACHE s2);
          s4 = snd (kmem_cache_create ''large-256'' 256 SLAB_FLAG_HWCACHE s3);
          s5 = snd (kmem_cache_create ''big-512'' 512 SLAB_FLAG_HWCACHE s4);
          s6 = snd (kmem_cache_create ''huge-1024'' 1024 SLAB_FLAG_HWCACHE s5)
      in snd (kmem_cache_create ''task_struct'' 2048 SLAB_FLAG_POISON s6))"

end
