(* ===== verification/CK_Slab_Inv.thy ===== *)
theory CK_Slab_Inv
  imports CK_Slab CK_Paging_Props
begin

text \<open>
  The abstract view of a slab cache (\<open>src/kernel/memory/slab.c\<close>): three lists of slabs and the list
  of free objects of each slab. \<open>dlist\<close> and \<open>flist\<close> read these lists off the heap of slab headers
  and the byte memory.
\<close>

section \<open>Doubly linked lists of slabs\<close>

fun dlist :: "(ptr \<Rightarrow> slab_t) \<Rightarrow> ptr \<Rightarrow> ptr list \<Rightarrow> ptr \<Rightarrow> bool" where
  "dlist h p [] x \<longleftrightarrow> x = 0"
| "dlist h p (y # ys) x \<longleftrightarrow> x = y \<and> y \<noteq> 0 \<and> sl_prev (h y) = p \<and> dlist h y ys (sl_next (h y))"

abbreviation hd0 :: "ptr list \<Rightarrow> ptr" where
  "hd0 xs \<equiv> (case xs of [] \<Rightarrow> 0 | x # _ \<Rightarrow> x)"

lemma dlist_head: "dlist h p xs x \<Longrightarrow> x = hd0 xs"
  by (cases xs) auto

lemma dlist_nonnull: "dlist h p xs x \<Longrightarrow> 0 \<notin> set xs"
  by (induction xs arbitrary: p x) auto

lemma dlist_cong:
  "(\<And>y. y \<in> set xs \<Longrightarrow> sl_next (h' y) = sl_next (h y) \<and> sl_prev (h' y) = sl_prev (h y)) \<Longrightarrow>
   dlist h' p xs x = dlist h p xs x"
  by (induction xs arbitrary: p x) auto

lemma dlist_same: "dlist h p xs x \<Longrightarrow> (\<And>y. y \<in> set xs \<Longrightarrow> h' y = h y) \<Longrightarrow> dlist h' p xs x"
  using dlist_cong [of xs h' h] by simp

lemma dlist_prev:
  assumes "dlist h p (y # ys) x" "y \<notin> set ys"
  shows "dlist (h(y := (h y)\<lparr>sl_prev := q\<rparr>)) q (y # ys) x"
proof -
  have "dlist (h(y := (h y)\<lparr>sl_prev := q\<rparr>)) y ys (sl_next (h y)) = dlist h y ys (sl_next (h y))"
    using assms(2) by (intro dlist_cong) auto
  then show ?thesis using assms by simp
qed

text \<open>List operations change links only.\<close>

definition relinked :: "(ptr \<Rightarrow> slab_t) \<Rightarrow> (ptr \<Rightarrow> slab_t) \<Rightarrow> bool" where
  "relinked h h' \<longleftrightarrow> (\<forall>y. \<exists>n p. h' y = (h y)\<lparr>sl_next := n, sl_prev := p\<rparr>)"

lemma relinkedE:
  assumes "relinked h h'" obtains n p where "h' y = (h y)\<lparr>sl_next := n, sl_prev := p\<rparr>"
  using assms unfolding relinked_def by blast

lemma slab_t_relink: "sl = sl\<lparr>sl_next := sl_next sl, sl_prev := sl_prev sl\<rparr>"
  by simp

lemma relinkedI:
  "(\<And>y. h' y = (h y)\<lparr>sl_next := sl_next (h' y), sl_prev := sl_prev (h' y)\<rparr>) \<Longrightarrow> relinked h h'"
  unfolding relinked_def by metis

lemma relinked_refl: "relinked h h"
  by (rule relinkedI) simp

lemma relinked_trans: "relinked h h' \<Longrightarrow> relinked h' h'' \<Longrightarrow> relinked h h''"
  unfolding relinked_def
proof
  fix y assume a: "\<forall>y. \<exists>n p. h' y = (h y)\<lparr>sl_next := n, sl_prev := p\<rparr>" "\<forall>y. \<exists>n p. h'' y = (h' y)\<lparr>sl_next := n, sl_prev := p\<rparr>"
  obtain n p where "h' y = (h y)\<lparr>sl_next := n, sl_prev := p\<rparr>" using a(1) by blast
  moreover obtain n' p' where "h'' y = (h' y)\<lparr>sl_next := n', sl_prev := p'\<rparr>" using a(2) by blast
  ultimately have "h'' y = (h y)\<lparr>sl_next := n', sl_prev := p'\<rparr>" by simp
  then show "\<exists>n p. h'' y = (h y)\<lparr>sl_next := n, sl_prev := p\<rparr>" by blast
qed

lemma relinked_push: "relinked h (slab_push x hd_ptr h)"
  by (rule relinkedI) (auto simp: slab_push_def Let_def)

lemma relinked_unlink: "relinked h (snd (slab_unlink x partial h))"
  by (rule relinkedI) (auto simp: slab_unlink_def Let_def)

lemma slab_push_dlist:
  assumes "dlist h 0 xs hd_ptr" "x \<noteq> 0" "x \<notin> set xs" "distinct xs"
  shows "dlist (slab_push x hd_ptr h) 0 (x # xs) x"
proof (cases xs)
  case Nil
  then show ?thesis using assms by (simp add: slab_push_def Let_def)
next
  case (Cons y ys)
  then have y: "hd_ptr = y" "y \<noteq> 0" "dlist h y ys (sl_next (h y))" "x \<noteq> y" "x \<notin> set ys" "y \<notin> set ys" using assms by auto
  have "dlist (slab_push x hd_ptr h) y ys (sl_next (h y)) = dlist h y ys (sl_next (h y))"
    using y by (intro dlist_cong) (auto simp: slab_push_def Let_def)
  then show ?thesis using Cons y assms(2) by (auto simp: slab_push_def Let_def)
qed

lemma slab_push_other:
  "y \<noteq> x \<Longrightarrow> y \<noteq> hd_ptr \<Longrightarrow> slab_push x hd_ptr h y = h y"
  by (simp add: slab_push_def Let_def)

lemma slab_push_dlist_other:
  assumes "dlist h 0 ys hd_ptr" "set zs \<inter> set (x # ys) = {}" "dlist h p zs z" "x \<noteq> 0"
  shows "dlist (slab_push x hd_ptr h) p zs z"
proof -
  have "slab_push x hd_ptr h w = h w" if "w \<in> set zs" for w
    using that assms(2) dlist_head [OF assms(1)] dlist_nonnull [OF assms(3)]
    by (intro slab_push_other) (auto split: list.splits)
  then show ?thesis using assms(3) dlist_cong [of zs "slab_push x hd_ptr h" h] by simp
qed

text \<open>Removing a slab from any place of a list.\<close>

lemma dlist_remove:
  assumes "dlist h p (as @ x # bs) a" "distinct (as @ x # bs)"
    and "\<And>y. y \<in> set as \<union> set bs \<Longrightarrow>
      sl_next (h' y) = (if as \<noteq> [] \<and> y = last as then sl_next (h x) else sl_next (h y)) \<and>
      sl_prev (h' y) = (if bs \<noteq> [] \<and> y = hd bs then (if as = [] then p else last as) else sl_prev (h y))"
  shows "dlist h' p (as @ bs) (if as = [] then sl_next (h x) else a)"
  using assms
proof (induction as arbitrary: p a)
  case Nil
  then show ?case
  proof (cases bs)
    case (Cons b bs')
    have "dlist h' b bs' (sl_next (h b)) = dlist h b bs' (sl_next (h b))"
      using Nil.prems(2,3) Cons by (intro dlist_cong) auto
    then show ?thesis using Nil Cons by auto
  qed simp
next
  case (Cons y ys)
  have "dlist h' y (ys @ bs) (if ys = [] then sl_next (h x) else sl_next (h y))"
  proof (rule Cons.IH)
    show "dlist h y (ys @ x # bs) (sl_next (h y))" "distinct (ys @ x # bs)" using Cons.prems by auto
    fix z assume z: "z \<in> set ys \<union> set bs"
    then have "z \<noteq> y" using Cons.prems(2) by auto
    then show "sl_next (h' z) = (if ys \<noteq> [] \<and> z = last ys then sl_next (h x) else sl_next (h z)) \<and>
      sl_prev (h' z) = (if bs \<noteq> [] \<and> z = hd bs then (if ys = [] then y else last ys) else sl_prev (h z))"
      using Cons.prems(3) [of z] z by (cases "ys = []") simp_all
  qed
  moreover have "sl_prev (h' y) = sl_prev (h y)" "sl_next (h' y) = (if ys = [] then sl_next (h x) else sl_next (h y))"
    using Cons.prems(2) Cons.prems(3) [of y] by (auto split: if_splits)
  ultimately show ?case using Cons.prems(1) by (cases ys) auto
qed

lemma dlist_at:
  assumes "dlist h p (as @ x # bs) a"
  shows "sl_prev (h x) = (if as = [] then p else last as)" "sl_next (h x) = hd0 bs" "x \<noteq> 0"
proof -
  have "sl_prev (h x) = (if as = [] then p else last as) \<and> dlist h x bs (sl_next (h x)) \<and> x \<noteq> 0"
    using assms
  proof (induction as arbitrary: p a)
    case (Cons y ys)
    then have "dlist h y (ys @ x # bs) (sl_next (h y))" by simp
    from Cons.IH [OF this] show ?case by simp
  qed simp
  then show "sl_prev (h x) = (if as = [] then p else last as)" "sl_next (h x) = hd0 bs" "x \<noteq> 0"
    using dlist_head by blast+
qed

lemma slab_unlink_dlist:
  assumes l: "dlist h 0 (as @ x # bs) a" and d: "distinct (as @ x # bs)"
    and u: "slab_unlink x partial h = (partial', h')"
  shows "dlist h' 0 (as @ bs) (if as = [] then hd0 bs else a)"
    and "partial' = (if as = [] then hd0 bs else partial)"
    and "y \<notin> set as \<union> set bs \<Longrightarrow> h' y = h y"
proof -
  note at = dlist_at [OF l]
  have n0: "0 \<notin> set (as @ x # bs)" using dlist_nonnull [OF l] .
  have l0: "last as \<noteq> 0" if "as \<noteq> []" using n0 last_in_set [OF that] by (metis Un_iff set_append)
  have pv: "sl_prev (h x) = (if as = [] then 0 else last as)" "sl_prev (h x) \<noteq> 0 \<longleftrightarrow> as \<noteq> []"
    using at(1) l0 by auto
  have nx: "sl_next (h x) \<noteq> 0 \<longleftrightarrow> bs \<noteq> []" using at(2) n0 by (cases bs) auto
  have px: "sl_prev (h x) \<noteq> x" using pv d at(3) by (auto split: if_splits)
  define h1 where "h1 = (if sl_prev (h x) \<noteq> 0 then h(sl_prev (h x) := (h (sl_prev (h x)))\<lparr>sl_next := sl_next (h x)\<rparr>) else h)"
  have h1x: "h1 x = h x" using px by (simp add: h1_def)
  have eq: "slab_unlink x partial h = (if sl_prev (h x) \<noteq> 0 then partial else sl_next (h x),
      if sl_next (h1 x) \<noteq> 0 then h1(sl_next (h1 x) := (h1 (sl_next (h1 x)))\<lparr>sl_prev := sl_prev (h1 x)\<rparr>) else h1)"
    by (simp only: slab_unlink_def Let_def h1_def)
  show p': "partial' = (if as = [] then hd0 bs else partial)"
    using u pv(2) at(2) unfolding eq by auto
  have h': "h' = (if sl_next (h x) \<noteq> 0 then h1(sl_next (h x) := (h1 (sl_next (h x)))\<lparr>sl_prev := sl_prev (h x)\<rparr>) else h1)"
    using u unfolding eq h1x by simp
  have hb: "hd0 bs = hd bs" if "bs \<noteq> []" using that by (cases bs) auto
  have nh: "sl_next (h' y) = (if as \<noteq> [] \<and> y = last as then sl_next (h x) else sl_next (h y))" for y
    using pv l0 by (cases "as = []") (auto simp: h' h1_def)
  have ph: "sl_prev (h' y) = (if bs \<noteq> [] \<and> y = hd bs then (if as = [] then 0 else last as) else sl_prev (h y))" for y
    using pv(1) nx at(2) hb by (simp add: h' h1_def)
  show "dlist h' 0 (as @ bs) (if as = [] then hd0 bs else a)"
    unfolding at(2) [symmetric] by (rule dlist_remove [OF l d]) (auto simp: nh ph)
  show "h' y = h y" if y: "y \<notin> set as \<union> set bs"
  proof -
    have "sl_prev (h x) = 0 \<or> sl_prev (h x) \<in> set as" using pv(1) by simp
    moreover have "sl_next (h x) = 0 \<or> sl_next (h x) \<in> set bs" using at(2) by (cases bs) auto
    ultimately show ?thesis using y by (auto simp: h' h1_def)
  qed
qed

lemma unlink_push:
  assumes A: "dlist h 0 (as @ x # bs) a" and B: "dlist h 0 ys y0" and C: "dlist h 0 zs z0"
    and d: "distinct ((as @ x # bs) @ ys @ zs)"
    and u: "slab_unlink x partial h = (partial', h1)"
  shows "dlist (slab_push x y0 h1) 0 (as @ bs) (if as = [] then hd0 bs else a)"
    and "dlist (slab_push x y0 h1) 0 (x # ys) x" "dlist (slab_push x y0 h1) 0 zs z0"
    and "relinked h (slab_push x y0 h1)" "partial' = (if as = [] then hd0 bs else partial)"
proof -
  have d': "distinct (as @ x # bs)" using d by auto
  note ul = slab_unlink_dlist [OF A d' u]
  have x0: "x \<noteq> 0" using dlist_nonnull [OF A] by auto
  have out: "h1 y = h y" if "y \<in> set ys \<union> set zs" for y using that d by (intro ul(3)) auto
  have B1: "dlist h1 0 ys y0" using B out dlist_cong [of ys h1 h] by simp
  have C1: "dlist h1 0 zs z0" using C out dlist_cong [of zs h1 h] by simp
  show "dlist (slab_push x y0 h1) 0 (x # ys) x" using d x0 by (intro slab_push_dlist [OF B1]) auto
  show "dlist (slab_push x y0 h1) 0 (as @ bs) (if as = [] then hd0 bs else a)"
    using d x0 by (intro slab_push_dlist_other [OF B1 _ ul(1)]) auto
  show "dlist (slab_push x y0 h1) 0 zs z0" using d x0 by (intro slab_push_dlist_other [OF B1 _ C1]) auto
  show "relinked h (slab_push x y0 h1)" using relinked_unlink [of h x partial] relinked_push u relinked_trans by fastforce
  show "partial' = (if as = [] then hd0 bs else partial)" by (rule ul(2))
qed

section \<open>Searching a list\<close>

lemma find_slab_dlist:
  "dlist h p xs x \<Longrightarrow> find_slab h sz obj x = Some (hd0 (filter (\<lambda>y. in_slab (h y) sz obj) xs))"
proof (induction xs arbitrary: p x)
  case (Cons y ys)
  then show ?case by (subst find_slab.simps) auto
qed (simp add: find_slab.simps)


section \<open>Free lists of objects\<close>

fun flist :: "memory \<Rightarrow> ptr \<Rightarrow> ptr list \<Rightarrow> bool" where
  "flist m p [] \<longleftrightarrow> p = 0"
| "flist m p (x # xs) \<longleftrightarrow> p = x \<and> x \<noteq> 0 \<and> aligned 3 x \<and> flist m (load64 m x) xs"

lemma flist_cong: "(\<And>x. x \<in> set xs \<Longrightarrow> load64 m' x = load64 m x) \<Longrightarrow> flist m' p xs = flist m p xs"
  by (induction xs arbitrary: p) auto

lemma flist_aligned: "flist m p xs \<Longrightarrow> x \<in> set xs \<Longrightarrow> aligned 3 x \<and> x \<noteq> 0"
  by (induction xs arbitrary: p) auto

lemma flist_push:
  assumes "flist m p xs" "aligned 3 x" "x \<noteq> 0" "x \<notin> set xs"
  shows "flist (store64 m x p) x (x # xs)"
proof -
  have "flist (store64 m x p) p xs = flist m p xs"
    using assms flist_aligned [OF assms(1)] by (intro flist_cong load64_store64_other) auto
  then show ?thesis using assms by (simp add: load64_store64_same)
qed

text \<open>The objects of a slab: \<open>total\<close> of them, \<open>aligned_size\<close> apart, within the slab's page.\<close>

definition obj_at :: "slab_cache_t \<Rightarrow> slab_t \<Rightarrow> nat \<Rightarrow> ptr" where
  "obj_at c sl k = sl_objects sl + of_nat (k * unat (c_aligned_size c))"

definition objects_of :: "slab_cache_t \<Rightarrow> slab_t \<Rightarrow> ptr set" where
  "objects_of c sl = obj_at c sl ` {..< unat (sl_total sl)}"

definition cache_geom :: "slab_cache_t \<Rightarrow> bool" where
  "cache_geom c \<longleftrightarrow> 8 \<le> c_object_size c \<and> c_object_size c \<le> c_aligned_size c \<and> 8 dvd unat (c_aligned_size c)"

definition slab_geom :: "slab_cache_t \<Rightarrow> ptr \<Rightarrow> slab_t \<Rightarrow> bool" where
  "slab_geom c x sl \<longleftrightarrow> x \<noteq> 0 \<and> aligned 12 x \<and> aligned 3 (sl_objects sl) \<and> pfn (sl_objects sl) = pfn x \<and>
     unat (sl_objects sl) + unat (sl_total sl) * unat (c_aligned_size c) \<le> unat x + 4096 \<and>
     unat x < unat (sl_objects sl) \<and> 0 < unat (sl_total sl)"

lemma obj_at_facts:
  assumes g: "slab_geom c x sl" "cache_geom c" and k: "k < unat (sl_total sl)"
  shows "unat (obj_at c sl k) = unat (sl_objects sl) + k * unat (c_aligned_size c)"
    and "aligned 3 (obj_at c sl k)" "pfn (obj_at c sl k) = pfn x" "obj_at c sl k \<noteq> 0"
    and "unat (obj_at c sl k) + unat (c_aligned_size c) \<le> unat x + 4096" "unat x + 4096 \<le> 2 ^ 64"
proof -
  let ?a = "unat (c_aligned_size c)"
  have "Suc k * ?a \<le> unat (sl_total sl) * ?a" using k by (intro mult_right_mono) auto
  then have kk: "unat (sl_objects sl) + k * ?a + ?a \<le> unat x + 4096" using g(1) by (simp add: slab_geom_def)
  show r: "unat x + 4096 \<le> 2 ^ 64" using g(1) aligned_room [of 12 x] by (simp add: slab_geom_def)
  have a8: "8 \<le> ?a" using g(2) by (auto simp: cache_geom_def word_le_nat_alt)
  then have "unat (sl_objects sl) + k * ?a < 2 ^ 64" using kk r by linarith
  then show u: "unat (obj_at c sl k) = unat (sl_objects sl) + k * ?a"
    unfolding obj_at_def by (rule unat_add_of_nat)
  show "unat (obj_at c sl k) + ?a \<le> unat x + 4096" using kk u by simp
  have "8 dvd unat (sl_objects sl)" "8 dvd ?a" using g by (auto simp: slab_geom_def cache_geom_def aligned_iff_dvd)
  then show "aligned 3 (obj_at c sl k)" using u by (simp add: aligned_iff_dvd)
  have lo: "unat x < unat (obj_at c sl k)" using g(1) u by (simp add: slab_geom_def)
  then show "obj_at c sl k \<noteq> 0" by auto
  obtain q where "unat x = 4096 * q" using g(1) by (auto simp: slab_geom_def aligned_iff_dvd elim!: dvdE)
  moreover have "unat (obj_at c sl k) < unat x + 4096" using kk u a8 by linarith
  ultimately show "pfn (obj_at c sl k) = pfn x" using lo by (auto simp: div_nat_eqI)
qed

lemma objects_apart:
  assumes g: "slab_geom c x sl" "cache_geom c" and ab: "a \<in> objects_of c sl" "b \<in> objects_of c sl" "a \<noteq> b"
  shows "unat (c_object_size c) \<le> unat (b - a)" "unat (b - a) + 8 \<le> 2 ^ 64"
proof -
  obtain j k where jk: "a = obj_at c sl j" "b = obj_at c sl k" "j < unat (sl_total sl)" "k < unat (sl_total sl)"
    using ab by (auto simp: objects_of_def)
  note fa = obj_at_facts [OF g jk(3)] and fb = obj_at_facts [OF g jk(4)]
  let ?s = "unat (c_aligned_size c)"
  have s: "unat (c_object_size c) \<le> ?s" "8 \<le> ?s" using g(2) by (auto simp: cache_geom_def word_le_nat_alt)
  have ne: "j \<noteq> k" using ab(3) jk by auto
  consider "Suc j \<le> k" | "Suc k \<le> j" using ne by linarith
  then have "unat (c_object_size c) \<le> unat (b - a) \<and> unat (b - a) + 8 \<le> 2 ^ 64"
  proof cases
    case 1
    then have "Suc j * ?s \<le> k * ?s" by (intro mult_right_mono) auto
    then have "unat a + ?s \<le> unat b" using fa(1) fb(1) jk by simp
    then have "unat (b - a) = unat b - unat a" by (simp add: unat_sub_if_size)
    then show ?thesis using \<open>unat a + ?s \<le> unat b\<close> s fb(5,6) unfolding jk by linarith
  next
    case 2
    then have "Suc k * ?s \<le> j * ?s" by (intro mult_right_mono) auto
    then have lt: "unat b + ?s \<le> unat a" using fa(1) fb(1) jk by simp
    then have "unat (b - a) = 2 ^ 64 + unat b - unat a" using s by (simp add: unat_sub_if_size word_size)
    then show ?thesis using lt s fa(5,6) unfolding jk by linarith
  qed
  then show "unat (c_object_size c) \<le> unat (b - a)" "unat (b - a) + 8 \<le> 2 ^ 64" by auto
qed

lemma poison_other:
  assumes "unat sz \<le> unat (b - a)" "unat (b - a) + 8 \<le> 2 ^ 64"
  shows "load64 (mem_set m a v sz) b = load64 m b"
proof (rule load64_cong)
  fix i :: nat assume i: "i < 8"
  have "unat (b + of_nat i - a) = unat (b - a) + i"
  proof -
    have "b + of_nat i - a = (b - a) + of_nat i" by simp
    then show ?thesis using assms(2) i by (simp only: unat_add_of_nat)
  qed
  then show "mem_set m a v sz (b + word_of_nat i) = m (b + word_of_nat i)"
    using assms(1) by (simp add: mem_set_def word_less_nat_alt)
qed


section \<open>The invariant of a cache\<close>

definition slab_ok :: "slab_cache_t \<Rightarrow> memory \<Rightarrow> ptr \<Rightarrow> slab_t \<Rightarrow> ptr list \<Rightarrow> bool" where
  "slab_ok c m x sl xs \<longleftrightarrow> slab_geom c x sl \<and> sl_magic sl = SLAB_MAGIC \<and>
     flist m (sl_freelist sl) xs \<and> distinct xs \<and> set xs \<subseteq> objects_of c sl \<and>
     unat (sl_inuse sl) + length xs = unat (sl_total sl)"

text \<open>The three lists of slabs and the free objects of every slab.\<close>

record cache_view =
  v_partial :: "ptr list"
  v_full :: "ptr list"
  v_free :: "ptr list"
  v_objs :: "ptr \<Rightarrow> ptr list"

abbreviation v_slabs :: "cache_view \<Rightarrow> ptr list" where
  "v_slabs v \<equiv> v_partial v @ v_full v @ v_free v"

definition lists_ok :: "slab_cache_t \<Rightarrow> (ptr \<Rightarrow> slab_t) \<Rightarrow> cache_view \<Rightarrow> bool" where
  "lists_ok c h v \<longleftrightarrow> dlist h 0 (v_partial v) (slabs_partial c) \<and> dlist h 0 (v_full v) (slabs_full c) \<and>
     dlist h 0 (v_free v) (slabs_free c) \<and> distinct (v_slabs v)"

definition objs_ok :: "slab_cache_t \<Rightarrow> memory \<Rightarrow> (ptr \<Rightarrow> slab_t) \<Rightarrow> cache_view \<Rightarrow> bool" where
  "objs_ok c m h v \<longleftrightarrow> (\<forall>x \<in> set (v_slabs v). slab_ok c m x (h x) (v_objs v x)) \<and>
     (\<forall>x \<in> set (v_partial v). v_objs v x \<noteq> []) \<and> (\<forall>x \<in> set (v_full v). v_objs v x = []) \<and>
     (\<forall>x \<in> set (v_free v). sl_inuse (h x) = 0)"

definition cache_inv :: "nat \<Rightarrow> cache_view \<Rightarrow> 'a slab_state_scheme \<Rightarrow> bool" where
  "cache_inv i v s \<longleftrightarrow> i < length (g_caches s) \<and> cache_geom (get_cache i s) \<and>
     lists_ok (get_cache i s) (slabs s) v \<and> objs_ok (get_cache i s) (mem s) (slabs s) v"

lemma slab_ok_relink [simp]: "slab_ok c m x (sl\<lparr>sl_next := n, sl_prev := p\<rparr>) xs = slab_ok c m x sl xs"
  by (simp add: slab_ok_def slab_geom_def objects_of_def obj_at_def)

lemma slab_ok_cache:
  "c_aligned_size c' = c_aligned_size c \<Longrightarrow> slab_ok c' m x sl xs = slab_ok c m x sl xs"
  by (simp add: slab_ok_def slab_geom_def objects_of_def obj_at_def)

lemma relinked_objs:
  assumes "relinked h h'" shows "slab_ok c m x (h' x) xs = slab_ok c m x (h x) xs" "sl_inuse (h' x) = sl_inuse (h x)"
  by (rule relinkedE [OF assms, of x], simp)+

lemma get_set_cache [simp]:
  "i < length (g_caches s) \<Longrightarrow> get_cache i (set_cache i c s) = c"
  "mem (set_cache i c s) = mem s" "slabs (set_cache i c s) = slabs s"
  "length (g_caches (set_cache i c s)) = length (g_caches s)"
  "j \<noteq> i \<Longrightarrow> get_cache j (set_cache i c s) = get_cache j s"
  by (simp_all add: get_cache_def set_cache_def)

lemma get_cache_update [simp]:
  "get_cache i (s\<lparr>slabs := h\<rparr>) = get_cache i s" "get_cache i (s\<lparr>mem := m\<rparr>) = get_cache i s"
  by (simp_all add: get_cache_def)

text \<open>Writes to one object leave the free lists of every other slab alone, and those of its own slab
  when it is not on them.\<close>

lemma slab_ok_write:
  assumes "slab_ok c m y sl ys" "cache_geom c"
    and "\<And>b. b \<in> set ys \<Longrightarrow> load64 m' b = load64 m b"
  shows "slab_ok c m' y sl ys"
  using assms flist_cong [of ys m' m] by (simp add: slab_ok_def)

lemma slab_obj_page:
  assumes "slab_ok c m y sl ys" "cache_geom c" "b \<in> set ys"
  shows "aligned 3 b" "pfn b = pfn y" "b \<in> objects_of c sl" "b \<noteq> 0"
proof -
  obtain k where "b = obj_at c sl k" "k < unat (sl_total sl)" using assms by (auto simp: slab_ok_def objects_of_def)
  then show "aligned 3 b" "pfn b = pfn y" "b \<noteq> 0" "b \<in> objects_of c sl"
    using obj_at_facts [of c y sl k] assms by (auto simp: slab_ok_def)
qed

lemma slab_pages_differ:
  assumes "slab_geom c x sl" "slab_geom c y sl'" "x \<noteq> y" shows "pfn x \<noteq> pfn y"
proof
  assume "pfn x = pfn y"
  moreover obtain a b where "unat x = 4096 * a" "unat y = 4096 * b"
    using assms by (auto simp: slab_geom_def aligned_iff_dvd elim!: dvdE)
  ultimately show False using assms(3) by (simp add: word_unat_eq_iff)
qed

lemma mem_set_outside:
  assumes "unat a + unat sz \<le> unat x + 4096" "unat x \<le> unat a" "aligned 12 x" "pfn b \<noteq> pfn x"
  shows "mem_set m a v sz b = m b"
proof -
  obtain q where q: "unat x = 4096 * q" using assms(3) by (auto simp: aligned_iff_dvd elim!: dvdE)
  have r: "unat x + 4096 \<le> 2 ^ 64" using aligned_room [OF assms(3)] by simp
  have "\<not> unat (b - a) < unat sz"
  proof
    assume lt: "unat (b - a) < unat sz"
    have "unat a \<le> unat b" 
    proof (rule ccontr)
      assume "\<not> unat a \<le> unat b"
      then have "unat (b - a) = 2 ^ 64 + unat b - unat a" by (simp add: unat_sub_if_size word_size)
      then show False using lt assms(1) r by linarith
    qed
    then have "unat (b - a) = unat b - unat a" by (simp add: unat_sub_if_size)
    then have "unat x \<le> unat b" "unat b < unat x + 4096" using lt assms(1,2) \<open>unat a \<le> unat b\<close> by linarith+
    then have "pfn b = pfn x" using q by (auto simp: div_nat_eqI)
    then show False using assms(4) by contradiction
  qed
  then show ?thesis by (simp add: mem_set_def word_less_nat_alt)
qed


section \<open>Taking an object\<close>

definition poison :: "slab_cache_t \<Rightarrow> ptr \<Rightarrow> memory \<Rightarrow> memory" where
  "poison c obj m = (if c_flags c AND SLAB_FLAG_POISON \<noteq> 0 then mem_set m obj 0xCC (c_object_size c) else m)"

lemma poison_outside:
  assumes "slab_geom c x sl" "cache_geom c" "a \<in> objects_of c sl" "pfn b \<noteq> pfn x"
  shows "poison c a m b = m b"
proof -
  obtain k where k: "a = obj_at c sl k" "k < unat (sl_total sl)" using assms(3) by (auto simp: objects_of_def)
  note f = obj_at_facts [OF assms(1,2) k(2)]
  have "unat (c_object_size c) \<le> unat (c_aligned_size c)" using assms(2) by (simp add: cache_geom_def word_le_nat_alt)
  then have "unat a + unat (c_object_size c) \<le> unat x + 4096" using f(5) k(1) by simp
  moreover have "unat x \<le> unat a" using f(1) k(1) assms(1) by (simp add: slab_geom_def)
  ultimately show ?thesis
    using assms(1,4) by (simp add: poison_def mem_set_outside slab_geom_def)
qed

lemma poison_same:
  assumes "slab_geom c x sl" "cache_geom c" "a \<in> objects_of c sl" "b \<in> objects_of c sl" "a \<noteq> b"
  shows "load64 (poison c a m) b = load64 m b"
  using poison_other [OF objects_apart [OF assms]] by (simp add: poison_def)

lemma slab_ok_take:
  assumes ok: "slab_ok c m x sl (a # as)" and g: "cache_geom c"
  shows "slab_ok c (poison c a m) x (sl\<lparr>sl_freelist := load64 m a, sl_inuse := sl_inuse sl + 1\<rparr>) as"
    and "sl_freelist sl = a" "a \<noteq> 0" "unat (sl_inuse sl + 1) = unat (sl_inuse sl) + 1"
proof -
  have f: "flist m (sl_freelist sl) (a # as)" "slab_geom c x sl" "set (a # as) \<subseteq> objects_of c sl" "distinct (a # as)"
    "unat (sl_inuse sl) + Suc (length as) = unat (sl_total sl)" using ok by (simp_all add: slab_ok_def)
  then show "sl_freelist sl = a" "a \<noteq> 0" by auto
  have "unat (sl_inuse sl) + 1 < 2 ^ 32" using f(5) u32_unat_less [of "sl_total sl"] by simp
  then show u: "unat (sl_inuse sl + 1) = unat (sl_inuse sl) + 1" by (simp add: unat_word_ariths)
  have "flist (poison c a m) (load64 m a) as = flist m (load64 m a) as"
    using poison_same [OF f(2) g] f(3,4) by (intro flist_cong) auto
  then show "slab_ok c (poison c a m) x (sl\<lparr>sl_freelist := load64 m a, sl_inuse := sl_inuse sl + 1\<rparr>) as"
    using ok f u by (simp add: slab_ok_def slab_geom_def objects_of_def obj_at_def)
qed

lemma slab_ok_page_write:
  assumes "slab_ok c m y sl ys" "cache_geom c" "pfn y \<noteq> pfn x" "\<And>b. pfn b \<noteq> pfn x \<Longrightarrow> m' b = m b"
  shows "slab_ok c m' y sl ys"
proof (rule slab_ok_write [OF assms(1,2)])
  fix b assume b: "b \<in> set ys"
  note o = slab_obj_page [OF assms(1,2) b]
  show "load64 m' b = load64 m b" using o assms(3,4) by (intro load64_page_cong) auto
qed

text \<open>The slab lists of the cache and the view before and after.\<close>

definition view_take :: "ptr \<Rightarrow> cache_view \<Rightarrow> cache_view" where
  "view_take x v =
     (let as = tl (v_objs v x); v1 = v\<lparr>v_objs := (v_objs v)(x := as)\<rparr> in
      if as = [] then v1\<lparr>v_partial := tl (v_partial v), v_full := x # v_full v\<rparr> else v1)"

lemma take_object_eq:
  assumes "sl_freelist (slabs s x) = a" "a \<noteq> 0"
    and c_def: "c = get_cache i s"
    and h_def: "h = (slabs s)(x := (slabs s x)\<lparr>sl_freelist := load64 (mem s) a, sl_inuse := sl_inuse (slabs s x) + 1\<rparr>)"
  shows "take_object i x s =
    (if sl_inuse (slabs s x) + 1 = sl_total (slabs s x)
     then (a, set_cache i (c\<lparr>slabs_partial := fst (slab_unlink x (slabs_partial c) h), slabs_full := x, nr_objects := nr_objects c + 1\<rparr>)
        (s\<lparr>slabs := slab_push x (slabs_full c) (snd (slab_unlink x (slabs_partial c) h)), mem := poison c a (mem s)\<rparr>))
     else (a, set_cache i (c\<lparr>nr_objects := nr_objects c + 1\<rparr>) (s\<lparr>slabs := h, mem := poison c a (mem s)\<rparr>)))"
  using assms(1,2) unfolding c_def h_def
  by (simp add: take_object_def Let_def case_prod_unfold atomic_inc_def poison_def)

lemma lists_ok_cong:
  assumes "lists_ok c h v" "v_partial v' = v_partial v" "v_full v' = v_full v" "v_free v' = v_free v"
    "slabs_partial c' = slabs_partial c" "slabs_full c' = slabs_full c" "slabs_free c' = slabs_free c"
    "\<And>y. sl_next (h' y) = sl_next (h y) \<and> sl_prev (h' y) = sl_prev (h y)"
  shows "lists_ok c' h' v'"
  using assms dlist_cong [of _ h' h] by (simp add: lists_ok_def)

lemma take_object_correct:
  assumes inv: "cache_inv i v s" and p: "v_partial v = x # ps"
    and run: "take_object i x s = (obj, s')"
  shows "obj = hd (v_objs v x) \<and> obj \<noteq> 0 \<and> cache_inv i (view_take x v) s' \<and>
    nr_objects (get_cache i s') = nr_objects (get_cache i s) + 1 \<and>
    (\<forall>b. pfn b \<noteq> pfn x \<longrightarrow> mem s' b = mem s b)"
proof -
  let ?c = "get_cache i s" and ?sl = "slabs s x"
  have i: "i < length (g_caches s)" "cache_geom ?c" "lists_ok ?c (slabs s) v" "objs_ok ?c (mem s) (slabs s) v"
    using inv by (simp_all add: cache_inv_def)
  have ok: "slab_ok ?c (mem s) y (slabs s y) (v_objs v y)" if "y \<in> set (v_slabs v)" for y
    using i(4) that by (simp add: objs_ok_def)
  obtain a as where a: "v_objs v x = a # as" using i(4) p by (cases "v_objs v x") (auto simp: objs_ok_def)
  have okx: "slab_ok ?c (mem s) x ?sl (a # as)" using ok [of x] p a by simp
  note tk = slab_ok_take [OF okx i(2)]
  define h where "h = (slabs s)(x := ?sl\<lparr>sl_freelist := load64 (mem s) a, sl_inuse := sl_inuse ?sl + 1\<rparr>)"
  define m where "m = poison ?c a (mem s)"
  note eq = take_object_eq [OF tk(2,3) refl h_def, of i, folded m_def]
  have gx: "slab_geom ?c x ?sl" "a \<in> objects_of ?c ?sl" using okx by (auto simp: slab_ok_def)
  have out: "m b = mem s b" if "pfn b \<noteq> pfn x" for b
    using poison_outside [OF gx(1) i(2) gx(2) that] by (simp add: m_def)
  have full: "sl_inuse ?sl + 1 = sl_total ?sl \<longleftrightarrow> as = []"
  proof -
    have "unat (sl_inuse ?sl) + Suc (length as) = unat (sl_total ?sl)" using okx by (simp add: slab_ok_def)
    then have "unat (sl_inuse ?sl + 1) = unat (sl_total ?sl) \<longleftrightarrow> length as = 0" unfolding tk(4) by linarith
    then show ?thesis by (simp add: word_unat_eq_iff)
  qed
  have objs: "slab_ok ?c m y (h y) (((v_objs v)(x := as)) y)" if "y \<in> set (v_slabs v)" for y
  proof (cases "y = x")
    case True
    then show ?thesis using tk(1) by (simp add: h_def m_def)
  next
    case False
    have "pfn y \<noteq> pfn x" using slab_pages_differ [OF _ gx(1)] ok [OF that] False by (auto simp: slab_ok_def)
    then show ?thesis using slab_ok_page_write [OF ok [OF that] i(2) _ out] False by (simp add: h_def)
  qed
  have nx: "x \<notin> set (v_full v)" "x \<notin> set (v_free v)" using i(3) p by (auto simp: lists_ok_def)
  have l: "lists_ok ?c h v" by (rule lists_ok_cong [OF i(3)]) (simp_all add: h_def)
  show ?thesis
  proof (cases "as = []")
    case False
    let ?c' = "?c\<lparr>nr_objects := nr_objects ?c + 1\<rparr>"
    have r: "obj = a" "s' = set_cache i ?c' (s\<lparr>slabs := h, mem := m\<rparr>)" using eq run full False by auto
    have "lists_ok ?c' h (view_take x v)" by (rule lists_ok_cong [OF l]) (simp_all add: view_take_def Let_def a False)
    moreover have "objs_ok ?c' m h (view_take x v)"
      using objs i(4) False a nx by (auto simp: objs_ok_def view_take_def Let_def h_def slab_ok_cache [of ?c' ?c])
    ultimately show ?thesis using r i a out tk(3) by (simp add: cache_inv_def cache_geom_def)
  next
    case True
    obtain p' h1 where u: "slab_unlink x (slabs_partial ?c) h = (p', h1)" by fastforce
    define h2 where "h2 = slab_push x (slabs_full ?c) h1"
    let ?c' = "?c\<lparr>slabs_partial := p', slabs_full := x, nr_objects := nr_objects ?c + 1\<rparr>"
    have r: "obj = a" "s' = set_cache i ?c' (s\<lparr>slabs := h2, mem := m\<rparr>)" using eq run full True u by (auto simp: h2_def)
    have dl: "dlist h 0 ([] @ x # ps) (slabs_partial ?c)" "dlist h 0 (v_full v) (slabs_full ?c)" "dlist h 0 (v_free v) (slabs_free ?c)"
      "distinct (([] @ x # ps) @ v_full v @ v_free v)" using l p by (simp_all add: lists_ok_def)
    note up = unlink_push [OF dl u, folded h2_def]
    have "lists_ok ?c' h2 (view_take x v)"
      using up(1-3,5) dl(4) p True a by (auto simp: lists_ok_def view_take_def Let_def)
    moreover have "objs_ok ?c' m h2 (view_take x v)"
      using objs i(4) True a p dl(4) relinked_objs [OF up(4)]
      by (auto simp: objs_ok_def view_take_def Let_def h_def slab_ok_cache [of ?c' ?c])
    ultimately show ?thesis using r i a out tk(3) by (simp add: cache_inv_def cache_geom_def)
  qed
qed
end
