(* ===== verification/CK_Slab_Ops.thy ===== *)
theory CK_Slab_Ops
  imports CK_Slab_Inv
begin

text \<open>
  The operations of \<open>src/kernel/memory/slab.c\<close> on the abstract view of a cache: a new slab, the
  choice of a slab, and the return of an object.
\<close>

section \<open>A new slab\<close>

lemma build_freelist_spec:
  assumes "aligned 3 p" "8 dvd unat step" "8 \<le> unat step" "unat p + Suc n * unat step \<le> 2 ^ 64" "p \<noteq> 0"
    and "build_freelist n step p m = (q, m1)"
  shows "flist (store64 m1 q 0) p (map (\<lambda>k. p + of_nat (k * unat step)) [0..<Suc n]) \<and>
    (\<forall>b. aligned 3 b \<and> unat b < unat p \<longrightarrow> load64 (store64 m1 q 0) b = load64 m b) \<and>
    (\<forall>b. (\<forall>k\<le>n. pfn b \<noteq> pfn (p + of_nat (k * unat step))) \<longrightarrow> store64 m1 q 0 b = m b)"
  using assms
proof (induction n arbitrary: p m)
  case 0
  then show ?case by (auto simp: load64_store64_same store64_outside intro!: load64_store64_other)
next
  case (Suc n)
  let ?p = "p + step" and ?m = "store64 m p (p + step)"
  have u: "unat ?p = unat p + unat step" using Suc.prems(3,4) by (intro unat_add_small) simp
  have al: "aligned 3 ?p" using Suc.prems(1,2) u by (simp add: aligned_iff_dvd)
  have nz: "?p \<noteq> 0" using u Suc.prems(3) by auto
  have b: "build_freelist n step ?p ?m = (q, m1)" using Suc.prems(6) by simp
  have sh: "?p + of_nat (k * unat step) = p + of_nat (Suc k * unat step)" for k by (simp add: algebra_simps)
  note IH = Suc.IH [OF al Suc.prems(2,3) _ nz b, unfolded sh]
  have ih: "flist (store64 m1 q 0) ?p (map (\<lambda>k. p + of_nat (Suc k * unat step)) [0..<Suc n])"
    "\<And>b. aligned 3 b \<Longrightarrow> unat b < unat ?p \<Longrightarrow> load64 (store64 m1 q 0) b = load64 ?m b"
    "\<And>b. (\<And>k. k \<le> n \<Longrightarrow> pfn b \<noteq> pfn (p + of_nat (Suc k * unat step))) \<Longrightarrow> store64 m1 q 0 b = ?m b"
    using IH Suc.prems(4) u by (auto simp: algebra_simps)
  have mp: "map (\<lambda>k. p + of_nat (k * unat step)) [0..<Suc (Suc n)] =
      p # map (\<lambda>k. p + of_nat (Suc k * unat step)) [0..<Suc n]"
    by (simp add: upt_conv_Cons map_Suc_upt [symmetric] algebra_simps del: upt_Suc)
  have "load64 (store64 m1 q 0) p = ?p"
    using ih(2) [OF Suc.prems(1)] u Suc.prems(1,3) by (simp add: load64_store64_same)
  then have f: "flist (store64 m1 q 0) p (map (\<lambda>k. p + of_nat (k * unat step)) [0..<Suc (Suc n)])"
    unfolding mp using ih(1) Suc.prems(1,5) by (simp del: upt_Suc)
  have "load64 (store64 m1 q 0) b = load64 m b" if "aligned 3 b" "unat b < unat p" for b
    using ih(2) [of b] that u Suc.prems(1) by (auto intro!: load64_store64_other)
  moreover have "store64 m1 q 0 b = m b" if "\<forall>k\<le>Suc n. pfn b \<noteq> pfn (p + of_nat (k * unat step))" for b
  proof -
    have "pfn b \<noteq> pfn (p + of_nat (Suc k * unat step))" if "k \<le> n" for k
      using \<open>\<forall>k\<le>Suc n. _ k\<close> that by blast
    moreover have "pfn b \<noteq> pfn p" using that [rule_format, of 0] by simp
    ultimately show ?thesis using ih(3) [of b] store64_outside [OF Suc.prems(1)] by simp
  qed
  ultimately show ?case using f by blast
qed

text \<open>What the slab code relies on: \<open>calloc\<close> takes its memory from free pages and leaves everything
  in use alone.\<close>

definition calloc_ok :: "(u64 \<Rightarrow> u64 \<Rightarrow> 'a slab_state_scheme \<Rightarrow> ptr \<times> 'a slab_state_scheme) \<Rightarrow> bool" where
  "calloc_ok calloc \<longleftrightarrow> (\<forall>n sz s bm s'. calloc n sz s = (bm, s') \<longrightarrow>
     slabs s' = slabs s \<and> g_caches s' = g_caches s \<and>
     (frame_inv s \<longrightarrow> frame_inv s' \<and> free_pfns s' \<subseteq> free_pfns s \<and>
        (\<forall>b. pfn b \<notin> free_pfns s \<longrightarrow> mem s' b = mem s b)))"

definition kmem_inv :: "nat \<Rightarrow> cache_view \<Rightarrow> 'a slab_state_scheme \<Rightarrow> bool" where
  "kmem_inv i v s \<longleftrightarrow> cache_inv i v s \<and> frame_inv s \<and> (\<forall>x \<in> set (v_slabs v). pfn x \<notin> free_pfns s)"

text \<open>The objects of a new slab fit the page behind the header.\<close>

definition fits :: "slab_cache_t \<Rightarrow> bool" where
  "fits c \<longleftrightarrow> (let off = unat (ALIGN_UP sizeof_slab_t (c_aligned_size c)) + unat (c_color c) in
     0 < c_objects_per_slab c \<and> 0 < off \<and> 8 dvd off \<and>
     off + unat (c_objects_per_slab c) * unat (c_aligned_size c) \<le> 4096)"

lemma cache_inv_write:
  assumes "cache_inv i v s" "g_caches s' = g_caches s" "\<And>x. x \<in> set (v_slabs v) \<Longrightarrow> slabs s' x = slabs s x"
    and "\<And>x b. x \<in> set (v_slabs v) \<Longrightarrow> pfn b = pfn x \<Longrightarrow> mem s' b = mem s b"
  shows "cache_inv i v s'"
proof -
  let ?c = "get_cache i s"
  have c: "get_cache i s' = ?c" using assms(2) by (simp add: get_cache_def)
  have i: "i < length (g_caches s)" "cache_geom ?c" "lists_ok ?c (slabs s) v" "objs_ok ?c (mem s) (slabs s) v"
    using assms(1) by (simp_all add: cache_inv_def)
  have "lists_ok ?c (slabs s') v"
    using i(3) dlist_cong [of _ "slabs s'" "slabs s"] assms(3) by (auto simp: lists_ok_def)
  moreover have "slab_ok ?c (mem s') x (slabs s x) (v_objs v x)" if x: "x \<in> set (v_slabs v)" for x
  proof (rule slab_ok_write)
    show ok: "slab_ok ?c (mem s) x (slabs s x) (v_objs v x)" using i(4) x by (simp add: objs_ok_def)
    show "load64 (mem s') b = load64 (mem s) b" if "b \<in> set (v_objs v x)" for b
      using slab_obj_page [OF ok i(2) that] assms(4) [OF x] by (intro load64_page_cong) auto
  qed (rule i(2))
  then have "objs_ok ?c (mem s') (slabs s') v" using i(4) assms(3) by (auto simp: objs_ok_def)
  ultimately show ?thesis using i assms(2) c by (simp add: cache_inv_def)
qed

lemma distinct_obj_at:
  assumes "slab_geom c x sl" "cache_geom c"
  shows "distinct (map (obj_at c sl) [0..<unat (sl_total sl)])"
proof (simp add: distinct_map, rule inj_onI)
  fix j k assume jk: "j \<in> {0..<unat (sl_total sl)}" "k \<in> {0..<unat (sl_total sl)}" "obj_at c sl j = obj_at c sl k"
  have "j * unat (c_aligned_size c) = k * unat (c_aligned_size c)"
    using obj_at_facts(1) [OF assms] jk by (metis add_left_cancel atLeastLessThan_iff)
  then show "j = k" using assms(2) by (auto simp: cache_geom_def word_le_nat_alt)
qed

lemma new_slab_geom:
  assumes ft: "fits c" and g: "cache_geom c" and p: "aligned 12 p" "p \<noteq> 0"
    and sl: "sl_objects sl = p + ALIGN_UP sizeof_slab_t (c_aligned_size c) + ucast (c_color c)"
      "sl_total sl = c_objects_per_slab c"
  shows "slab_geom c p sl"
proof -
  let ?off = "unat (ALIGN_UP sizeof_slab_t (c_aligned_size c)) + unat (c_color c)"
  have ft': "0 < unat (sl_total sl)" "?off + unat (sl_total sl) * unat (c_aligned_size c) \<le> 4096" "8 dvd ?off" "0 < ?off"
    using ft sl(2) by (auto simp: fits_def Let_def word_less_nat_alt)
  have room: "unat p + 4096 \<le> 2 ^ 64" using aligned_room [OF p(1)] by simp
  have uc: "unat (ucast (c_color c) :: u64) = unat (c_color c)" by simp
  obtain q where q: "unat p = 4096 * q" using p(1) by (auto simp: aligned_iff_dvd)
  have "0 < unat (c_aligned_size c)" using g by (auto simp: cache_geom_def word_le_nat_alt)
  then have "0 < unat (sl_total sl) * unat (c_aligned_size c)" using ft'(1) by simp
  then have lt: "?off < 4096" using ft'(2) by linarith
  have "unat (p + ALIGN_UP sizeof_slab_t (c_aligned_size c)) = unat p + unat (ALIGN_UP sizeof_slab_t (c_aligned_size c))"
    using lt room by (intro unat_add_small) linarith
  then have uo: "unat (sl_objects sl) = unat p + ?off"
    unfolding sl using lt room uc by (subst unat_add_small) (simp_all)
  have "pfn (sl_objects sl) = pfn p" using uo q lt by simp
  moreover have "aligned 3 (sl_objects sl)" using uo q ft'(3) by (simp add: aligned_iff_dvd)
  ultimately show ?thesis using p ft' uo by (simp add: slab_geom_def)
qed

lemma new_slab_flist:
  assumes g: "slab_geom c p sl" "cache_geom c"
    and b: "build_freelist (unat (sl_total sl - 1)) (c_aligned_size c) (sl_objects sl) m = (q, m1)"
  shows "flist (store64 m1 q 0) (sl_objects sl) (map (obj_at c sl) [0..<unat (sl_total sl)])"
    and "pfn a \<noteq> pfn p \<Longrightarrow> store64 m1 q 0 a = m a"
proof -
  let ?st = "unat (c_aligned_size c)"
  have n: "Suc (unat (sl_total sl - 1)) = unat (sl_total sl)"
  proof -
    have "0 < unat (sl_total sl)" using g(1) by (simp add: slab_geom_def)
    then have "sl_total sl \<noteq> 0" by auto
    then show ?thesis using \<open>0 < unat (sl_total sl)\<close> by (simp add: unat_minus_one)
  qed
  have st: "8 dvd ?st" "8 \<le> ?st" using g(2) by (auto simp: cache_geom_def word_le_nat_alt)
  have room: "unat p + 4096 \<le> 2 ^ 64" using g(1) aligned_room [of 12 p] by (simp add: slab_geom_def)
  have o: "aligned 3 (sl_objects sl)" "unat (sl_objects sl) + Suc (unat (sl_total sl - 1)) * ?st \<le> 2 ^ 64" "sl_objects sl \<noteq> 0"
    using g(1) room unfolding n by (auto simp: slab_geom_def)
  have ob: "(\<lambda>k. sl_objects sl + of_nat (k * ?st)) = obj_at c sl" "\<And>k. sl_objects sl + of_nat (k * ?st) = obj_at c sl k"
    by (auto simp: obj_at_def fun_eq_iff)
  note s = build_freelist_spec [OF o(1) st o(2,3) b, unfolded n ob]
  show "flist (store64 m1 q 0) (sl_objects sl) (map (obj_at c sl) [0..<unat (sl_total sl)])"
    using s by blast
  show "store64 m1 q 0 a = m a" if "pfn a \<noteq> pfn p"
  proof -
    have "pfn a \<noteq> pfn (obj_at c sl k)" if "k \<le> unat (sl_total sl - 1)" for k
      using obj_at_facts(3) [OF g, of k] n that \<open>pfn a \<noteq> pfn p\<close> by linarith
    then show ?thesis using s by blast
  qed
qed

lemma slab_init_correct:
  assumes inv: "kmem_inv i v s" and cal: "calloc_ok calloc" and c: "c = get_cache i s" and ft: "fits c"
    and p: "aligned 12 p" "p \<noteq> 0" "pfn p \<notin> free_pfns s" "\<And>x. x \<in> set (v_slabs v) \<Longrightarrow> pfn x \<noteq> pfn p"
    and s': "s' = slab_init calloc p i (p + ALIGN_UP sizeof_slab_t (c_aligned_size c)) s"
  shows "kmem_inv i v s'" "get_cache i s' = c" "pfn p \<notin> free_pfns s'" "sl_inuse (slabs s' p) = 0"
    "slab_ok c (mem s') p (slabs s' p) (map (obj_at c (slabs s' p)) [0..<unat (c_objects_per_slab c)])"
    "g_caches s' = g_caches s" "\<And>y. y \<noteq> p \<Longrightarrow> slabs s' y = slabs s y" "free_pfns s' \<subseteq> free_pfns s"
proof -
  define sl where "sl = (slabs s p)\<lparr>sl_cache := i, sl_magic := SLAB_MAGIC, sl_inuse := 0,
      sl_total := c_objects_per_slab c, sl_objects := p + ALIGN_UP sizeof_slab_t (c_aligned_size c) + ucast (c_color c),
      sl_freelist := p + ALIGN_UP sizeof_slab_t (c_aligned_size c) + ucast (c_color c), sl_next := 0, sl_prev := 0\<rparr>"
  define s1 where "s1 = s\<lparr>slabs := (slabs s)(p := sl)\<rparr>"
  obtain bm s2 where s2: "calloc (ucast (c_objects_per_slab c div 8 + 1)) 1 s1 = (bm, s2)" by fastforce
  obtain q m1 where b: "build_freelist (unat (c_objects_per_slab c - 1)) (c_aligned_size c) (sl_objects sl) (mem s2) = (q, m1)"
    by fastforce
  have e': "s' = s2\<lparr>slabs := (slabs s2)(p := (slabs s2 p)\<lparr>sl_bitmap := bm\<rparr>), mem := store64 m1 q 0\<rparr>"
    using s2 b by (simp add: s' slab_init_def Let_def c [symmetric] s1_def sl_def)
  have inv_s: "cache_inv i v s" "frame_inv s" "cache_geom c" "\<And>x. x \<in> set (v_slabs v) \<Longrightarrow> pfn x \<notin> free_pfns s"
    using inv c by (auto simp: kmem_inv_def cache_inv_def)
  have "g_zones s1 = g_zones s" "mem s1 = mem s" by (simp_all add: s1_def)
  note f1 = frame_cong [OF this]
  have c2: "slabs s2 = (slabs s)(p := sl)" "g_caches s2 = g_caches s" "frame_inv s2" "free_pfns s2 \<subseteq> free_pfns s"
    "\<And>b. pfn b \<notin> free_pfns s \<Longrightarrow> mem s2 b = mem s b"
    using cal [unfolded calloc_ok_def, rule_format, OF s2] inv_s(2) f1 by (auto simp: s1_def)
  have slp: "slabs s' p = sl\<lparr>sl_bitmap := bm\<rparr>" by (simp add: e' c2(1))
  have geom: "slab_geom c p (slabs s' p)" using ft inv_s(3) p(1,2) by (intro new_slab_geom) (simp_all add: slp sl_def)
  have tot: "sl_total (slabs s' p) = c_objects_per_slab c" "sl_objects (slabs s' p) = sl_objects sl" by (simp_all add: slp sl_def)
  note fl = new_slab_flist [OF geom inv_s(3), unfolded tot, OF b]
  have m': "mem s' = store64 m1 q 0" by (simp add: e')
  show cache: "get_cache i s' = c" "g_caches s' = g_caches s" "\<And>y. y \<noteq> p \<Longrightarrow> slabs s' y = slabs s y"
    using c2 c by (simp_all add: e' get_cache_def)
  show "sl_inuse (slabs s' p) = 0" by (simp add: slp sl_def)
  show "slab_ok c (mem s') p (slabs s' p) (map (obj_at c (slabs s' p)) [0..<unat (c_objects_per_slab c)])"
    using geom fl(1) distinct_obj_at [OF geom inv_s(3)] unfolding m' tot
    by (auto simp: slab_ok_def objects_of_def tot) (simp_all add: slp sl_def)
  have fr: "frame_inv s' \<and> free_pfns s' = free_pfns s2"
  proof -
    have "frame_inv (s2\<lparr>mem := store64 m1 q 0\<rparr>) \<and> free_pfns (s2\<lparr>mem := store64 m1 q 0\<rparr>) = free_pfns s2"
    proof (rule frame_inv_write [OF c2(3)])
      fix a assume "pfn a \<in> free_pfns s2"
      then have "pfn a \<noteq> pfn p" using c2(4) p(3) by (metis subsetD)
      then show "store64 m1 q 0 a = mem s2 a" by (rule fl(2))
    qed
    moreover have "g_zones s' = g_zones (s2\<lparr>mem := store64 m1 q 0\<rparr>)" "mem s' = mem (s2\<lparr>mem := store64 m1 q 0\<rparr>)" by (simp_all add: e')
    ultimately show ?thesis using frame_cong by metis
  qed
  then show "pfn p \<notin> free_pfns s'" "free_pfns s' \<subseteq> free_pfns s" using c2(4) p(3) by blast+
  have "cache_inv i v s'"
  proof (rule cache_inv_write [OF inv_s(1) cache(2)])
    fix x assume x: "x \<in> set (v_slabs v)"
    then show "slabs s' x = slabs s x" using p(4) by (intro cache(3)) auto
    show "mem s' b = mem s b" if "pfn b = pfn x" for b
      using fl(2) [of b] c2(5) [of b] p(4) [OF x] inv_s(4) [OF x] that by (simp add: m')
  qed
  then show "kmem_inv i v s'" using fr c2(4) inv_s(4) by (auto simp: kmem_inv_def)
qed

section \<open>The slab to allocate from\<close>

definition free_objs :: "cache_view \<Rightarrow> ptr set" where
  "free_objs v = (\<Union>x \<in> set (v_slabs v). set (v_objs v x))"

lemma frame_set_cache [simp]:
  "frame_inv (set_cache i c s) = frame_inv s" "free_pfns (set_cache i c s) = free_pfns s"
  "frame_inv (s\<lparr>slabs := h\<rparr>) = frame_inv s" "free_pfns (s\<lparr>slabs := h\<rparr>) = free_pfns s"
proof -
  have z: "g_zones (set_cache i c s) = g_zones s" "mem (set_cache i c s) = mem s" by (simp_all add: set_cache_def)
  have h: "g_zones (s\<lparr>slabs := h\<rparr>) = g_zones s" "mem (s\<lparr>slabs := h\<rparr>) = mem s" by simp_all
  show "frame_inv (set_cache i c s) = frame_inv s" "free_pfns (set_cache i c s) = free_pfns s"
    "frame_inv (s\<lparr>slabs := h\<rparr>) = frame_inv s" "free_pfns (s\<lparr>slabs := h\<rparr>) = free_pfns s"
    using frame_cong [OF z] frame_cong [OF h] by simp_all
qed

lemma objs_ok_relink:
  assumes "objs_ok c m h v" "relinked h h'" "c_aligned_size c' = c_aligned_size c"
    and "v_objs v' = v_objs v" "set (v_slabs v') = set (v_slabs v)"
    and "\<And>x. x \<in> set (v_partial v') \<Longrightarrow> v_objs v x \<noteq> []" "set (v_full v') = set (v_full v)" "set (v_free v') \<subseteq> set (v_free v)"
  shows "objs_ok c' m h' v'"
  using assms relinked_objs [OF assms(2)] slab_ok_cache [OF assms(3)] unfolding objs_ok_def by auto

lemma pick_free:
  assumes inv: "kmem_inv i v s" and p: "v_partial v = []" and f: "v_free v = x # rest"
  shows "\<exists>s'. pick_slab calloc i s = (Some x, s') \<and>
     kmem_inv i (v\<lparr>v_partial := [x], v_free := rest\<rparr>) s' \<and> mem s' = mem s \<and> free_pfns s' = free_pfns s \<and>
     nr_objects (get_cache i s') = nr_objects (get_cache i s) \<and> c_aligned_size (get_cache i s') = c_aligned_size (get_cache i s)"
proof -
  let ?c = "get_cache i s" and ?v = "v\<lparr>v_partial := [x], v_free := rest\<rparr>"
  have i: "i < length (g_caches s)" "cache_geom ?c" "lists_ok ?c (slabs s) v" "objs_ok ?c (mem s) (slabs s) v"
    using inv by (simp_all add: kmem_inv_def cache_inv_def)
  have l: "slabs_partial ?c = 0" "dlist (slabs s) 0 (v_full v) (slabs_full ?c)" "dlist (slabs s) 0 (x # rest) (slabs_free ?c)"
    "distinct (v_full v @ x # rest)" using i(3) p f by (simp_all add: lists_ok_def)
  have x: "slabs_free ?c = x" "x \<noteq> 0" "dlist (slabs s) x rest (sl_next (slabs s x))" using l(3) by auto
  define nx where "nx = sl_next (slabs s x)"
  define h where "h = (if nx \<noteq> 0 then (slabs s)(nx := (slabs s nx)\<lparr>sl_prev := 0\<rparr>) else slabs s)"
  define h1 where "h1 = slab_push x 0 h"
  have nx: "nx = hd0 rest" using dlist_head [OF x(3)] by (simp add: nx_def)
  have r: "relinked (slabs s) h" by (rule relinkedI) (simp add: h_def)
  have rh: "relinked (slabs s) h1" unfolding h1_def using relinked_push relinked_trans [OF r] by blast
  have hr: "dlist h 0 rest nx"
  proof (cases rest)
    case (Cons y ys)
    then show ?thesis using dlist_prev [of "slabs s" x y ys y 0] x(3) l(4) nx by (simp add: h_def nx_def)
  qed (simp add: nx)
  have hf: "dlist h 0 (v_full v) (slabs_full ?c)"
  proof -
    have "nx \<notin> set (v_full v)" using nx l(4) dlist_nonnull [OF l(2)] by (cases rest) auto
    then show ?thesis by (intro dlist_same [OF l(2)]) (auto simp: h_def)
  qed
  have h1o: "h1 y = h y" if "y \<noteq> x" "y \<noteq> 0" for y using that by (simp add: h1_def slab_push_other)
  have "dlist h1 0 rest nx" "dlist h1 0 (v_full v) (slabs_full ?c)"
    using l(4) dlist_nonnull [OF hr] dlist_nonnull [OF hf]
    by (auto intro!: dlist_same [OF hr] dlist_same [OF hf] h1o)
  moreover have "dlist h1 0 [x] x" using x(2) by (simp add: h1_def slab_push_def Let_def)
  ultimately have "lists_ok (?c\<lparr>slabs_free := nx, slabs_partial := x\<rparr>) h1 ?v" using l(4) by (auto simp: lists_ok_def)
  moreover have "objs_ok (?c\<lparr>slabs_free := nx, slabs_partial := x\<rparr>) (mem s) h1 ?v"
  proof (rule objs_ok_relink [OF i(4) rh])
    fix y assume "y \<in> set (v_partial ?v)"
    then have y: "y = x" "slab_ok ?c (mem s) x (slabs s x) (v_objs v x)" "sl_inuse (slabs s x) = 0" using i(4) f by (auto simp: objs_ok_def)
    then show "v_objs v y \<noteq> []" by (auto simp: slab_ok_def slab_geom_def)
  qed (use p f in auto)
  moreover have "pick_slab calloc i s = (Some x, set_cache i (?c\<lparr>slabs_free := nx, slabs_partial := x\<rparr>) (s\<lparr>slabs := h1\<rparr>))"
    using l(1) x(1,2) by (simp add: pick_slab_def Let_def h_def h1_def nx_def)
  ultimately show ?thesis using inv i p f by (auto simp: kmem_inv_def cache_inv_def cache_geom_def)
qed

lemma pick_new:
  assumes inv: "kmem_inv i v s" and cal: "calloc_ok calloc" and ft: "fits (get_cache i s)"
    and e: "v_partial v = []" "v_free v = []" and al: "alloc_page 0 s = (p, s1)" "p \<noteq> 0"
  shows "\<exists>s' xs. pick_slab calloc i s = (Some p, s') \<and> p \<notin> set (v_slabs v) \<and> pfn p \<in> free_pfns s \<and>
     kmem_inv i (v\<lparr>v_partial := [p], v_objs := (v_objs v)(p := xs)\<rparr>) s' \<and>
     set xs = objects_of (get_cache i s') (slabs s' p) \<and>
     nr_objects (get_cache i s') = nr_objects (get_cache i s) \<and>
     sl_total (slabs s' p) = c_objects_per_slab (get_cache i s) \<and> free_pfns s' \<subseteq> free_pfns s \<and>
     get_cache i s' = (get_cache i s)\<lparr>slabs_partial := p, nr_slabs := nr_slabs (get_cache i s) + 1\<rparr>"
proof -
  let ?c = "get_cache i s"
  have i: "cache_inv i v s" "frame_inv s" "cache_geom ?c" "lists_ok ?c (slabs s) v" "objs_ok ?c (mem s) (slabs s) v"
    and used: "\<And>x. x \<in> set (v_slabs v) \<Longrightarrow> pfn x \<notin> free_pfns s"
    using inv by (auto simp: kmem_inv_def cache_inv_def)
  have il: "i < length (g_caches s)" using i(1) by (simp add: cache_inv_def)
  note fl = alloc_page_fields [OF al(1)]
  have eq1: "g_caches s1 = g_caches s" "slabs s1 = slabs s"
    using arg_cong [OF fl, of g_caches] arg_cong [OF fl, of slabs] by simp_all
  have m1: "mem s1 = mem s" using frames.alloc_mem [OF i(2) al(1)] .
  have a: "frame_inv s1" "aligned 12 p" "pfn p \<in> free_pfns s" "free_pfns s1 = free_pfns s - {pfn p}"
    using frames.alloc_page [OF i(2) al] by auto
  have ne: "pfn x \<noteq> pfn p" if "x \<in> set (v_slabs v)" for x using used [OF that] a(3) by metis
  have "cache_inv i v s1" using i(1) by (rule cache_inv_write) (simp_all add: eq1 m1)
  then have k1: "kmem_inv i v s1" using a used by (auto simp: kmem_inv_def)
  have c1: "get_cache i s1 = ?c" using eq1 by (simp add: get_cache_def)
  define s2 where "s2 = slab_init calloc p i (p + ALIGN_UP sizeof_slab_t (c_aligned_size ?c)) s1"
  have nf: "pfn p \<notin> free_pfns s1" using a(4) by simp
  note si = slab_init_correct [OF k1 cal c1 [symmetric] ft a(2) al(2) nf ne s2_def]
  define h where "h = slab_push p 0 (slabs s2)"
  let ?c' = "?c\<lparr>slabs_partial := p, nr_slabs := nr_slabs ?c + 1\<rparr>"
  let ?xs = "map (obj_at ?c (slabs s2 p)) [0..<unat (c_objects_per_slab ?c)]"
  let ?v = "v\<lparr>v_partial := [p], v_objs := (v_objs v)(p := ?xs)\<rparr>"
  define s' where "s' = set_cache i ?c' (s2\<lparr>slabs := h\<rparr>)"
  have pk: "pick_slab calloc i s = (Some p, s')"
  proof -
    have "slabs_partial ?c = 0" "slabs_free ?c = 0" using i(4) e by (auto simp: lists_ok_def)
    then show ?thesis using al si(2)
      by (simp add: pick_slab_def Let_def s2_def [symmetric] s'_def h_def atomic_inc_def)
  qed
  have hp: "h p = (slabs s2 p)\<lparr>sl_next := 0, sl_prev := 0\<rparr>" "\<And>y. y \<noteq> p \<Longrightarrow> h y = slabs s2 y"
    by (simp_all add: h_def slab_push_def)
  have pn: "p \<notin> set (v_slabs v)" using ne by blast
  have k2: "lists_ok ?c (slabs s2) v" "objs_ok ?c (mem s2) (slabs s2) v" "frame_inv s2"
    "\<And>x. x \<in> set (v_slabs v) \<Longrightarrow> pfn x \<notin> free_pfns s2" "i < length (g_caches s2)"
    using si(1,2) by (auto simp: kmem_inv_def cache_inv_def)
  have "lists_ok ?c' h ?v"
  proof -
    have d: "dlist (slabs s2) 0 (v_full v) (slabs_full ?c)" using k2(1) by (simp add: lists_ok_def)
    have "h y = slabs s2 y" if "y \<in> set (v_full v)" for y using that pn by (intro hp(2)) auto
    from dlist_same [OF d this] show ?thesis using k2(1) e al(2) pn hp(1) by (auto simp: lists_ok_def)
  qed
  moreover have "objs_ok ?c' (mem s2) h ?v"
  proof -
    have c': "slab_ok ?c' m x sl xs = slab_ok ?c m x sl xs" for m x sl xs by (rule slab_ok_cache) simp
    have "?xs \<noteq> []" using ft by (auto simp: fits_def Let_def word_less_nat_alt)
    then show ?thesis using k2(2) si(5) pn e unfolding objs_ok_def c' by (auto simp: hp)
  qed
  ultimately have "kmem_inv i ?v s'"
    using k2(3-5) si(3) i(3) e by (auto simp: kmem_inv_def cache_inv_def s'_def cache_geom_def)
  moreover have t: "sl_total (slabs s2 p) = c_objects_per_slab ?c" using si(4,5) by (simp add: slab_ok_def word_unat_eq_iff)
  then have "set ?xs = objects_of (get_cache i s') (slabs s' p)"
    using k2(5) hp(1) by (auto simp: s'_def objects_of_def obj_at_def)
  moreover have "sl_total (slabs s' p) = c_objects_per_slab ?c" using t hp(1) by (simp add: s'_def set_cache_def)
  moreover have "get_cache i s' = ?c'" using k2(5) by (simp add: s'_def)
  moreover from this have "nr_objects (get_cache i s') = nr_objects ?c" by simp
  moreover have "free_pfns s' \<subseteq> free_pfns s" using si(8) a(4) by (auto simp: s'_def)
  ultimately show ?thesis using pk pn a(3) by blast
qed

section \<open>Allocation\<close>

lemma Union_tl:
  assumes "x \<in> S" "f x = a # as" "a \<notin> set as" "\<And>y. y \<in> S \<Longrightarrow> y \<noteq> x \<Longrightarrow> a \<notin> set (f y)"
  shows "(\<Union>y\<in>S. set ((f(x := as)) y)) = (\<Union>y\<in>S. set (f y)) - {a}"
proof -
  have "(\<Union>y\<in>S. set ((f(x := as)) y)) = set as \<union> (\<Union>y\<in>S - {x}. set (f y))"
    using assms(1) by (auto split: if_splits)
  moreover have "(\<Union>y\<in>S. set (f y)) = insert a (set as) \<union> (\<Union>y\<in>S - {x}. set (f y))" using assms(1,2) by force
  ultimately show ?thesis using assms(3,4) by auto
qed

lemma take_object_kmem:
  assumes inv: "kmem_inv i v s" and p: "v_partial v = x # ps" and run: "take_object i x s = (obj, s')"
  shows "obj \<noteq> 0" "kmem_inv i (view_take x v) s'" "nr_objects (get_cache i s') = nr_objects (get_cache i s) + 1"
    and "obj \<in> free_objs v" "free_objs (view_take x v) = free_objs v - {obj}" "pfn obj = pfn x"
    and "pfn b \<noteq> pfn x \<Longrightarrow> mem s' b = mem s b" "set (v_slabs (view_take x v)) = set (v_slabs v)" "obj = hd (v_objs v x)"
    and "free_pfns s' = free_pfns s"
proof -
  have i: "cache_inv i v s" "frame_inv s" and used: "\<And>y. y \<in> set (v_slabs v) \<Longrightarrow> pfn y \<notin> free_pfns s"
    using inv by (auto simp: kmem_inv_def)
  note t = take_object_correct [OF i(1) p run]
  show "obj \<noteq> 0" "nr_objects (get_cache i s') = nr_objects (get_cache i s) + 1" "pfn b \<noteq> pfn x \<Longrightarrow> mem s' b = mem s b"
    "obj = hd (v_objs v x)"
    using t by auto
  show sl: "set (v_slabs (view_take x v)) = set (v_slabs v)" using p by (auto simp: view_take_def Let_def)
  have ok: "slab_ok (get_cache i s) (mem s) y (slabs s y) (v_objs v y)" if "y \<in> set (v_slabs v)" for y
    using i(1) that by (simp add: cache_inv_def objs_ok_def)
  have g: "cache_geom (get_cache i s)" using i(1) by (simp add: cache_inv_def)
  have ne: "v_objs v x \<noteq> []" using i(1) p by (simp add: cache_inv_def objs_ok_def)
  then obtain as where a: "v_objs v x = obj # as" using t by (cases "v_objs v x") auto
  have xs: "x \<in> set (v_slabs v)" using p by simp
  show ob: "pfn obj = pfn x" using slab_obj_page(2) [OF ok [OF xs] g] a by simp
  show "obj \<in> free_objs v" unfolding free_objs_def using a by (intro UN_I [OF xs]) simp
  have only: "obj \<notin> set (v_objs v y)" if y: "y \<in> set (v_slabs v)" "y \<noteq> x" for y
  proof
    assume "obj \<in> set (v_objs v y)"
    then have "pfn y = pfn x" using slab_obj_page(2) [OF ok [OF y(1)] g] ob by simp
    then show False using slab_pages_differ [of "get_cache i s" y "slabs s y" x "slabs s x"] ok [OF y(1)] ok [OF xs] y(2)
      by (simp add: slab_ok_def)
  qed
  have vo: "v_objs (view_take x v) = (v_objs v)(x := as)" using a by (simp add: view_take_def Let_def)
  have "obj \<notin> set as" using ok [OF xs] a by (simp add: slab_ok_def)
  then show "free_objs (view_take x v) = free_objs v - {obj}"
    unfolding free_objs_def sl vo using only by (intro Union_tl [of x _ "v_objs v", OF xs a])
  have "frame_inv s' \<and> free_pfns s' = free_pfns s"
  proof -
    have "frame_inv (s\<lparr>mem := mem s'\<rparr>) \<and> free_pfns (s\<lparr>mem := mem s'\<rparr>) = free_pfns s"
      using t used [OF xs] by (intro frame_inv_write [OF i(2)]) metis
    moreover have "g_zones s' = g_zones (s\<lparr>mem := mem s'\<rparr>)"
      using run by (auto simp: take_object_def Let_def set_cache_def case_prod_unfold split: if_splits)
    ultimately show ?thesis using frame_cong [of s' "s\<lparr>mem := mem s'\<rparr>"] by simp
  qed
  then show "kmem_inv i (view_take x v) s'" "free_pfns s' = free_pfns s" using t used sl by (auto simp: kmem_inv_def)
qed

text \<open>The object taken from the slab that was picked: an existing slab, or a page that was free.\<close>

lemma take_from_old:
  assumes "kmem_inv i w s1" "v_partial w = x # ps" "take_object i x s1 = (obj, s')"
    and "set (v_slabs w) = set (v_slabs v)" "free_objs w = free_objs v" "nr_objects (get_cache i s1) = n"
  shows "obj \<noteq> 0 \<and> nr_objects (get_cache i s') = n + 1 \<and>
    (\<exists>v'. kmem_inv i v' s' \<and> obj \<notin> free_objs v' \<and> set (v_slabs v') = set (v_slabs v) \<and> free_objs v = insert obj (free_objs v'))"
proof -
  note t = take_object_kmem [OF assms(1-3)]
  have "free_objs v = insert obj (free_objs (view_take x w))" "obj \<notin> free_objs (view_take x w)" using t(4,5) assms(5) by auto
  moreover have "set (v_slabs (view_take x w)) = set (v_slabs v)" using t(8) assms(4) by simp
  ultimately show ?thesis using t(1-3) assms(6) by auto
qed

lemma take_from_new:
  assumes inv: "kmem_inv i v s" and p: "v_partial v = []" "p \<notin> set (v_slabs v)" "pfn p \<in> free_pfns s"
    and w: "w = v\<lparr>v_partial := [p], v_objs := (v_objs v)(p := xs)\<rparr>" "kmem_inv i w s2" and r: "take_object i p s2 = (obj, s')"
  shows "obj \<noteq> 0 \<and> nr_objects (get_cache i s') = nr_objects (get_cache i s2) + 1 \<and> pfn obj = pfn p \<and>
    (\<exists>v'. kmem_inv i v' s' \<and> obj \<notin> free_objs v' \<and> set (v_slabs v') = insert p (set (v_slabs v)) \<and> free_objs v \<subseteq> free_objs v')"
proof -
  have vp: "v_partial w = p # []" by (simp add: w(1))
  note t = take_object_kmem [OF w(2) vp r]
  have sv: "set (v_slabs w) = insert p (set (v_slabs v))" using p(1) by (simp add: w(1))
  have "a \<in> free_objs (view_take p w)" if a: "a \<in> free_objs v" for a
  proof -
    obtain y where y: "y \<in> set (v_slabs v)" "a \<in> set (v_objs v y)" using a by (auto simp: free_objs_def)
    have "pfn a = pfn y" using inv y by (auto simp: kmem_inv_def cache_inv_def objs_ok_def intro: slab_obj_page(2))
    moreover have "pfn y \<noteq> pfn p" using inv p(3) y(1) unfolding kmem_inv_def by metis
    ultimately have "a \<noteq> obj" using t(6) by metis
    moreover have "a \<in> free_objs w" unfolding free_objs_def sv using y p(2) by (auto simp: w(1))
    ultimately show ?thesis using t(5) by simp
  qed
  moreover have "obj \<notin> free_objs (view_take p w)" using t(5) by simp
  moreover have "set (v_slabs (view_take p w)) = insert p (set (v_slabs v))" using t(8) sv by simp
  ultimately show ?thesis using t(1-3,6) by blast
qed

lemma kmem_cache_alloc_run:
  assumes inv: "kmem_inv i v s" and cal: "calloc_ok calloc" and ft: "fits (get_cache i s)"
    and run: "kmem_cache_alloc calloc (Some i) s = (obj, s')"
  shows "(obj = 0 \<and> s' = s \<and> v_partial v = [] \<and> v_free v = [] \<and> alloc_page 0 s = (0, s)) \<or>
    (obj \<noteq> 0 \<and> nr_objects (get_cache i s') = nr_objects (get_cache i s) + 1 \<and>
     (\<exists>v'. kmem_inv i v' s' \<and> obj \<notin> free_objs v' \<and>
        ((set (v_slabs v') = set (v_slabs v) \<and> free_objs v = insert obj (free_objs v')) \<or>
         (\<exists>x. x \<notin> set (v_slabs v) \<and> pfn x \<in> free_pfns s \<and> pfn obj = pfn x \<and>
            set (v_slabs v') = insert x (set (v_slabs v)) \<and> free_objs v \<subseteq> free_objs v'))))"
proof -
  have i: "frame_inv s" "lists_ok (get_cache i s) (slabs s) v" using inv by (auto simp: kmem_inv_def cache_inv_def)
  have step: "take_object i x s1 = (obj, s')" if "pick_slab calloc i s = (Some x, s1)" for x s1
    using that run by (simp add: kmem_cache_alloc_def)
  obtain p s1 where al: "alloc_page 0 s = (p, s1)" by fastforce
  consider x ps where "v_partial v = x # ps" | x rest where "v_partial v = []" "v_free v = x # rest" |
    "v_partial v = []" "v_free v = []" "p = 0" | "v_partial v = []" "v_free v = []" "p \<noteq> 0" by (meson neq_Nil_conv)
  then show ?thesis
  proof cases
    case 1
    then have "pick_slab calloc i s = (Some x, s)" using i(2) by (simp add: pick_slab_def lists_ok_def)
    from take_from_old [OF inv 1 step [OF this] refl refl refl] show ?thesis by blast
  next
    case 2
    let ?w = "v\<lparr>v_partial := [x], v_free := rest\<rparr>"
    obtain s1 where s1: "pick_slab calloc i s = (Some x, s1)" "kmem_inv i ?w s1"
      "nr_objects (get_cache i s1) = nr_objects (get_cache i s)" using pick_free [OF inv 2] by blast
    have "set (v_slabs ?w) = set (v_slabs v)" "free_objs ?w = free_objs v" using 2 by (auto simp: free_objs_def)
    from take_from_old [OF s1(2) _ step [OF s1(1)] this s1(3)] show ?thesis by auto
  next
    case 3
    then have "s1 = s" using al frames.alloc_null [OF i(1)] by simp
    moreover have "slabs_partial (get_cache i s) = 0" "slabs_free (get_cache i s) = 0" using i(2) 3 by (auto simp: lists_ok_def)
    ultimately show ?thesis using run al 3 by (simp add: kmem_cache_alloc_def pick_slab_def)
  next
    case 4
    obtain s2 xs where s2: "pick_slab calloc i s = (Some p, s2)" "p \<notin> set (v_slabs v)" "pfn p \<in> free_pfns s"
      "kmem_inv i (v\<lparr>v_partial := [p], v_objs := (v_objs v)(p := xs)\<rparr>) s2" "nr_objects (get_cache i s2) = nr_objects (get_cache i s)"
      using pick_new [OF inv cal ft 4(1,2) al 4(3)] by blast
    from take_from_new [OF inv 4(1) s2(2,3) refl s2(4) step [OF s2(1)]] s2(2,3,5) show ?thesis by auto
  qed
qed

end
