(* ===== verification/CK_Slab_Free.thy ===== *)
theory CK_Slab_Free
  imports CK_Slab_Ops
begin

text \<open>
  Returning an object to its cache, \<open>kmem_cache_free\<close> of \<open>src/kernel/memory/slab.c\<close>.
\<close>

section \<open>One slab\<close>

lemma slab_ok_give:
  assumes ok: "slab_ok c m x sl xs" and g: "cache_geom c" and o: "obj \<in> objects_of c sl" "obj \<notin> set xs"
  shows "slab_ok c (store64 m obj (sl_freelist sl)) x (sl\<lparr>sl_freelist := obj, sl_inuse := sl_inuse sl - 1\<rparr>) (obj # xs)"
    and "0 < unat (sl_inuse sl)" "unat (sl_inuse sl - 1) = unat (sl_inuse sl) - 1"
    and "aligned 3 obj" "pfn obj = pfn x" "obj \<noteq> 0"
proof -
  have f: "flist m (sl_freelist sl) xs" "slab_geom c x sl" "set xs \<subseteq> objects_of c sl" "distinct xs"
    "unat (sl_inuse sl) + length xs = unat (sl_total sl)" using ok by (simp_all add: slab_ok_def)
  obtain k where k: "obj = obj_at c sl k" "k < unat (sl_total sl)" using o(1) by (auto simp: objects_of_def)
  show a: "aligned 3 obj" "pfn obj = pfn x" "obj \<noteq> 0" using obj_at_facts [OF f(2) g k(2)] k(1) by auto
  have "card (set (obj # xs)) \<le> card (objects_of c sl)" using o(1) f(3) by (intro card_mono) (auto simp: objects_of_def)
  also have "\<dots> \<le> unat (sl_total sl)" unfolding objects_of_def using card_image_le [of "{..<unat (sl_total sl)}"] by simp
  finally have "length xs < unat (sl_total sl)" using f(4) o(2) by (simp add: distinct_card)
  then show pos: "0 < unat (sl_inuse sl)" using f(5) by simp
  then have "sl_inuse sl \<noteq> 0" by auto
  then show u: "unat (sl_inuse sl - 1) = unat (sl_inuse sl) - 1" by (simp add: unat_minus_one)
  show "slab_ok c (store64 m obj (sl_freelist sl)) x (sl\<lparr>sl_freelist := obj, sl_inuse := sl_inuse sl - 1\<rparr>) (obj # xs)"
    using ok flist_push [OF f(1) a(1,3) o(2)] o pos u f
    by (simp add: slab_ok_def slab_geom_def objects_of_def obj_at_def)
qed

section \<open>Finding the slab\<close>

lemma slab_len:
  "unat (n :: u32) * unat (a :: u64) < 2 ^ 64 \<Longrightarrow> unat (ucast n * a) = unat n * unat a"
  by (simp add: unat_word_ariths)

lemma in_slab_page:
  assumes g: "slab_geom c x sl" "cache_geom c" and i: "in_slab sl (c_aligned_size c) obj"
  shows "pfn obj = pfn x"
proof -
  let ?len = "unat (sl_total sl) * unat (c_aligned_size c)"
  have r: "unat x + 4096 \<le> 2 ^ 64" using g(1) aligned_room [of 12 x] by (simp add: slab_geom_def)
  have b: "unat (sl_objects sl) + ?len \<le> unat x + 4096" "unat x < unat (sl_objects sl)" using g(1) by (simp_all add: slab_geom_def)
  have ul: "unat (ucast (sl_total sl) * c_aligned_size c :: u64) = ?len"
    using b r by (simp add: slab_len)
  have lo: "unat (sl_objects sl) \<le> unat obj" and hi: "obj < sl_objects sl + ucast (sl_total sl) * c_aligned_size c"
    using i by (simp_all add: in_slab_def word_le_nat_alt)
  have "unat (sl_objects sl + ucast (sl_total sl) * c_aligned_size c) \<le> unat (sl_objects sl) + ?len"
  proof -
    have "unat (a + b) \<le> unat a + unat b" for a b :: u64 by (simp add: unat_word_ariths)
    then show ?thesis unfolding ul [symmetric] .
  qed
  then have "unat obj < unat x + 4096" using hi b(1) by (simp add: word_less_nat_alt)
  moreover obtain q where "unat x = 4096 * q" using g(1) by (auto simp: slab_geom_def aligned_iff_dvd elim!: dvdE)
  ultimately show ?thesis using lo b(2) by (auto simp: div_nat_eqI)
qed

lemma in_slab_own:
  assumes g: "slab_geom c x sl" "cache_geom c" and o: "obj \<in> objects_of c sl" and top: "unat x + 4096 < 2 ^ 64"
  shows "in_slab sl (c_aligned_size c) obj"
proof -
  let ?len = "unat (sl_total sl) * unat (c_aligned_size c)"
  obtain k where k: "obj = obj_at c sl k" "k < unat (sl_total sl)" using o by (auto simp: objects_of_def)
  note f = obj_at_facts [OF g k(2)]
  have b: "unat (sl_objects sl) + ?len \<le> unat x + 4096" using g(1) by (simp add: slab_geom_def)
  have ul: "unat (ucast (sl_total sl) * c_aligned_size c :: u64) = ?len"
    using b top by (simp add: slab_len)
  have us: "unat (sl_objects sl + ucast (sl_total sl) * c_aligned_size c) = unat (sl_objects sl) + ?len"
    using ul b top by (simp add: unat_add_small)
  have "Suc k * unat (c_aligned_size c) \<le> ?len" using k(2) by (intro mult_right_mono) auto
  moreover have "0 < unat (c_aligned_size c)" using g(2) by (auto simp: cache_geom_def word_le_nat_alt)
  ultimately show ?thesis using f(1) k us by (simp add: in_slab_def word_le_nat_alt word_less_nat_alt)
qed

section \<open>The lists\<close>

definition view_give :: "ptr \<Rightarrow> ptr \<Rightarrow> bool \<Rightarrow> cache_view \<Rightarrow> cache_view" where
  "view_give x obj emp v =
     (let v1 = v\<lparr>v_objs := (v_objs v)(x := obj # v_objs v x)\<rparr> in
      if emp then v1\<lparr>v_partial := remove1 x (v_partial v), v_full := remove1 x (v_full v), v_free := x # v_free v\<rparr>
      else if x \<in> set (v_full v) then v1\<lparr>v_partial := x # v_partial v, v_full := remove1 x (v_full v)\<rparr>
      else v1)"

lemma give_object_eq:
  assumes "x \<noteq> 0" "sl_magic (slabs s x) = SLAB_MAGIC" "c = get_cache i s"
    and "h = (slabs s)(x := (slabs s x)\<lparr>sl_freelist := obj, sl_inuse := sl_inuse (slabs s x) - 1\<rparr>)"
    and "m = store64 (mem s) obj (sl_freelist (slabs s x))"
  shows "give_object i x obj s =
    (if sl_inuse (slabs s x) - 1 = 0 then
       set_cache i (c\<lparr>nr_objects := nr_objects c - 1, slabs_partial := fst (slab_unlink x (slabs_partial c) h),
           slabs_free := x, nr_slabs := nr_slabs c - 1\<rparr>)
         (s\<lparr>slabs := slab_push x (slabs_free c) (snd (slab_unlink x (slabs_partial c) h)), mem := m\<rparr>)
     else if x = slabs_full c then
       set_cache i (c\<lparr>nr_objects := nr_objects c - 1, slabs_full := sl_next (h x), slabs_partial := x\<rparr>)
         (s\<lparr>slabs := slab_push x (slabs_partial c)
              (if sl_next (h x) \<noteq> 0 then h(sl_next (h x) := (h (sl_next (h x)))\<lparr>sl_prev := 0\<rparr>) else h), mem := m\<rparr>)
     else set_cache i (c\<lparr>nr_objects := nr_objects c - 1\<rparr>) (s\<lparr>slabs := h, mem := m\<rparr>))"
proof -
  have hx: "sl_inuse (h x) = sl_inuse (slabs s x) - 1" by (simp add: assms(4))
  show ?thesis
    unfolding give_object_def Let_def assms(3-5) [symmetric]
    using assms(1,2) hx by (simp add: case_prod_unfold atomic_dec_def)
qed

text \<open>Moving the head of one list in front of another, as \<open>kmem_cache_free\<close> does for a slab that is no
  longer full.\<close>

lemma head_push:
  assumes A: "dlist h 0 (x # xs) x" and B: "dlist h 0 ys y0" and C: "dlist h 0 zs z0"
    and d: "distinct ((x # xs) @ ys @ zs)"
    and h1: "h1 = (if sl_next (h x) \<noteq> 0 then h(sl_next (h x) := (h (sl_next (h x)))\<lparr>sl_prev := 0\<rparr>) else h)"
  shows "dlist (slab_push x y0 h1) 0 xs (sl_next (h x))" "dlist (slab_push x y0 h1) 0 (x # ys) x"
    "dlist (slab_push x y0 h1) 0 zs z0" "relinked h (slab_push x y0 h1)"
proof -
  have x: "x \<noteq> 0" "dlist h x xs (sl_next (h x))" using A by auto
  have nx: "sl_next (h x) = hd0 xs" by (rule dlist_head [OF x(2)])
  have A1: "dlist h1 0 xs (sl_next (h x))"
  proof (cases xs)
    case (Cons y ys')
    then show ?thesis using dlist_prev [of h x y ys' y 0] x(2) d by (simp add: h1)
  qed (simp add: nx)
  have out: "h1 y = h y" if "y \<in> set ys \<union> set zs" for y
  proof -
    have "y \<noteq> sl_next (h x) \<or> sl_next (h x) = 0" using that d nx by (cases xs) auto
    then show ?thesis by (auto simp: h1)
  qed
  have B1: "dlist h1 0 ys y0" by (rule dlist_same [OF B]) (simp add: out)
  have C1: "dlist h1 0 zs z0" by (rule dlist_same [OF C]) (simp add: out)
  show "dlist (slab_push x y0 h1) 0 (x # ys) x" using d x(1) by (intro slab_push_dlist [OF B1]) auto
  show "dlist (slab_push x y0 h1) 0 xs (sl_next (h x))" using d x(1) by (intro slab_push_dlist_other [OF B1 _ A1]) auto
  show "dlist (slab_push x y0 h1) 0 zs z0" using d x(1) by (intro slab_push_dlist_other [OF B1 _ C1]) auto
  have "relinked h h1" by (rule relinkedI) (simp add: h1)
  then show "relinked h (slab_push x y0 h1)" using relinked_push relinked_trans by blast
qed

text \<open>The slabs \<open>kmem_cache_free\<close> relinks correctly: those on the partial list and, of the full list, the
  head when it holds several objects and the others when they hold a single one.\<close>

definition returnable :: "cache_view \<Rightarrow> ptr \<Rightarrow> slab_t \<Rightarrow> bool" where
  "returnable v x sl \<longleftrightarrow>
     x \<in> set (v_partial v) \<or> (x \<in> set (v_full v) \<and> (hd (v_full v) = x \<longleftrightarrow> sl_total sl \<noteq> 1))"

lemma give_objs_ok:
  assumes old: "objs_ok c m0 h0 v" and new: "\<And>y. y \<in> set (v_slabs v) \<Longrightarrow> slab_ok c m y (h y) (v_objs v' y)"
    and r: "relinked h h'" and c: "c_aligned_size c' = c_aligned_size c"
    and s: "set (v_slabs v') = set (v_slabs v)" "v_objs v' x \<noteq> []" "\<And>y. y \<noteq> x \<Longrightarrow> v_objs v' y = v_objs v y"
    and p: "set (v_partial v') \<subseteq> insert x (set (v_partial v))" "set (v_full v') \<subseteq> set (v_full v)" "x \<notin> set (v_full v')"
    and f: "\<And>y. y \<in> set (v_free v') \<Longrightarrow> (y = x \<and> sl_inuse (h x) = 0) \<or> (y \<in> set (v_free v) \<and> y \<noteq> x)"
    and h: "\<And>y. y \<noteq> x \<Longrightarrow> h y = h0 y"
  shows "objs_ok c' m h' v'"
proof -
  have "slab_ok c' m y (h' y) (v_objs v' y)" if "y \<in> set (v_slabs v')" for y
    using new that relinked_objs(1) [OF r] slab_ok_cache [OF c] unfolding s(1) by blast
  moreover have "v_objs v' y \<noteq> []" if "y \<in> set (v_partial v')" for y
    using that p(1) old s(2,3) by (cases "y = x") (auto simp: objs_ok_def)
  moreover have "v_objs v' y = []" if "y \<in> set (v_full v')" for y
  proof -
    have "y \<noteq> x" using that p(3) by auto
    then show ?thesis using that p(2) old s(3) by (auto simp: objs_ok_def)
  qed
  moreover have "sl_inuse (h' y) = 0" if "y \<in> set (v_free v')" for y using f [OF that] relinked_objs(2) [OF r] h old by (auto simp: objs_ok_def)
  ultimately show ?thesis by (simp add: objs_ok_def)
qed

text \<open>What the three cases have in common: the header and the memory after the object is linked in, for a slab of the cache.\<close>

lemma give_slabs_ok:
  assumes "cache_inv i v s" "x \<in> set (v_slabs v)" "obj \<in> objects_of (get_cache i s) (slabs s x)" "obj \<notin> set (v_objs v x)"
    and h: "h = (slabs s)(x := (slabs s x)\<lparr>sl_freelist := obj, sl_inuse := sl_inuse (slabs s x) - 1\<rparr>)"
    and m: "m = store64 (mem s) obj (sl_freelist (slabs s x))" and y: "y \<in> set (v_slabs v)"
  shows "slab_ok (get_cache i s) m y (h y) (((v_objs v)(x := obj # v_objs v x)) y)"
proof -
  have i: "cache_geom (get_cache i s)" "\<And>y. y \<in> set (v_slabs v) \<Longrightarrow> slab_ok (get_cache i s) (mem s) y (slabs s y) (v_objs v y)"
    using assms(1) by (simp_all add: cache_inv_def objs_ok_def)
  note g = slab_ok_give [OF i(2) [OF assms(2)] i(1) assms(3,4)]
  have x: "slab_geom (get_cache i s) x (slabs s x)" using i(2) [OF assms(2)] by (simp add: slab_ok_def)
  show ?thesis
  proof (cases "y = x")
    case True
    then show ?thesis using g(1) by (simp add: h m)
  next
    case False
    have "pfn y \<noteq> pfn x" using slab_pages_differ [OF _ x] i(2) [OF y] False by (auto simp: slab_ok_def)
    moreover have "m b = mem s b" if "pfn b \<noteq> pfn x" for b using store64_outside [OF g(4)] g(5) that by (simp add: m)
    ultimately show ?thesis using slab_ok_page_write [OF i(2) [OF y] i(1)] False by (simp add: h)
  qed
qed

lemma give_view_ok:
  assumes inv: "cache_inv i v s" "x \<in> set (v_slabs v)" "obj \<in> objects_of (get_cache i s) (slabs s x)" "obj \<notin> set (v_objs v x)"
    and h: "h = (slabs s)(x := (slabs s x)\<lparr>sl_freelist := obj, sl_inuse := sl_inuse (slabs s x) - 1\<rparr>)"
    and m: "m = store64 (mem s) obj (sl_freelist (slabs s x))"
    and v': "v' = view_give x obj (sl_inuse (slabs s x) = 1) v"
    and r: "relinked h h'" "c_aligned_size c' = c_aligned_size (get_cache i s)" "set (v_slabs v') = set (v_slabs v)"
    and p: "set (v_partial v') \<subseteq> insert x (set (v_partial v))" "set (v_full v') \<subseteq> set (v_full v)" "x \<notin> set (v_full v')"
    and f: "\<And>y. y \<in> set (v_free v') \<Longrightarrow> (y = x \<and> sl_inuse (slabs s x) = 1) \<or> (y \<in> set (v_free v) \<and> y \<noteq> x)"
  shows "objs_ok c' m h' v'"
proof (rule give_objs_ok [OF _ _ r _ _ p])
  have vo: "v_objs v' = (v_objs v)(x := obj # v_objs v x)" by (simp add: v' view_give_def Let_def)
  show "objs_ok (get_cache i s) (mem s) (slabs s) v" using inv(1) by (simp add: cache_inv_def)
  show "slab_ok (get_cache i s) m y (h y) (v_objs v' y)" if "y \<in> set (v_slabs v)" for y using give_slabs_ok [OF inv h m that] vo by simp
  show "v_objs v' x \<noteq> []" by (simp add: vo)
  show "v_objs v' y = v_objs v y" "h y = slabs s y" if "y \<noteq> x" for y using that by (simp_all add: vo h)
  show "(y = x \<and> sl_inuse (h x) = 0) \<or> (y \<in> set (v_free v) \<and> y \<noteq> x)" if "y \<in> set (v_free v')" for y
    using f [OF that] by (auto simp: h)
qed

lemma full_inuse:
  assumes "cache_inv i v s" "x \<in> set (v_full v)"
  shows "sl_inuse (slabs s x) = sl_total (slabs s x)"
proof -
  have "\<forall>y \<in> set (v_slabs v). slab_ok (get_cache i s) (mem s) y (slabs s y) (v_objs v y)"
    using assms(1) unfolding cache_inv_def objs_ok_def by blast
  moreover have "x \<in> set (v_slabs v)" using assms(2) by simp
  ultimately have "slab_ok (get_cache i s) (mem s) x (slabs s x) (v_objs v x)" by blast
  moreover have "v_objs v x = []" using assms by (simp add: cache_inv_def objs_ok_def)
  ultimately show ?thesis by (simp add: slab_ok_def word_unat_eq_iff)
qed

text \<open>A slab whose object is the last one in use moves to the free list, the head of the full list moves to the partial list, and
  any other slab stays where it is.\<close>

lemma give_cases:
  assumes inv: "cache_inv i v s" and r: "returnable v x (slabs s x)"
  obtains (emp) as bs where "sl_inuse (slabs s x) = 1" "v_partial v = as @ x # bs"
    | (full) fs where "sl_inuse (slabs s x) \<noteq> 1" "v_full v = x # fs"
    | (part) "sl_inuse (slabs s x) \<noteq> 1" "x \<in> set (v_partial v)"
    | (tail) as bs where "sl_inuse (slabs s x) = 1" "v_full v = as @ x # bs" "as \<noteq> []"
proof (cases "x \<in> set (v_partial v)")
  case True
  then show ?thesis using that(1,3) by (meson split_list)
next
  case False
  then have x: "x \<in> set (v_full v)" and h: "hd (v_full v) = x \<longleftrightarrow> sl_inuse (slabs s x) \<noteq> 1"
    using r full_inuse [OF inv] by (auto simp: returnable_def)
  obtain as bs where ab: "v_full v = as @ x # bs" using x by (meson split_list)
  show ?thesis
  proof (cases "sl_inuse (slabs s x) = 1")
    case True
    then have "as \<noteq> []" using h ab by auto
    then show ?thesis using that(4) True ab by blast
  next
    case False
    then have "v_full v = x # tl (v_full v)" using h ab by (cases as) auto
    then show ?thesis using that(2) False by blast
  qed
qed

lemma give_object_run:
  assumes inv: "cache_inv i v s" and r: "returnable v x (slabs s x)"
    and o: "obj \<in> objects_of (get_cache i s) (slabs s x)" "obj \<notin> set (v_objs v x)"
    and m: "m = store64 (mem s) obj (sl_freelist (slabs s x))" and v': "v' = view_give x obj (sl_inuse (slabs s x) = 1) v"
  shows "\<exists>c' h'. give_object i x obj s = set_cache i c' (s\<lparr>slabs := h', mem := m\<rparr>) \<and> c_aligned_size c' = c_aligned_size (get_cache i s) \<and>
    c_object_size c' = c_object_size (get_cache i s) \<and> nr_objects c' = nr_objects (get_cache i s) - 1 \<and> lists_ok c' h' v' \<and> objs_ok c' m h' v'"
proof -
  let ?c = "get_cache i s" and ?sl = "slabs s x"
  have xs: "x \<in> set (v_slabs v)" using r by (auto simp: returnable_def)
  then have "slab_ok ?c (mem s) x ?sl (v_objs v x)" using inv by (simp add: cache_inv_def objs_ok_def)
  then have x0: "x \<noteq> 0" "sl_magic ?sl = SLAB_MAGIC" by (auto simp: slab_ok_def slab_geom_def)
  define h where "h = (slabs s)(x := ?sl\<lparr>sl_freelist := obj, sl_inuse := sl_inuse ?sl - 1\<rparr>)"
  note eq = give_object_eq [OF x0 refl h_def m, of i] and gv = give_view_ok [OF inv xs o h_def m v']
  have "lists_ok ?c (slabs s) v" using inv by (simp add: cache_inv_def)
  then have l: "lists_ok ?c h v" by (rule lists_ok_cong) (simp_all add: h_def)
  then have dl: "dlist h 0 (v_partial v) (slabs_partial ?c)" "dlist h 0 (v_full v) (slabs_full ?c)"
    "dlist h 0 (v_free v) (slabs_free ?c)" "distinct (v_slabs v)" by (simp_all add: lists_ok_def)
  have one: "sl_inuse ?sl - 1 = 0 \<longleftrightarrow> sl_inuse ?sl = 1" by auto
  show ?thesis
  proof (cases rule: give_cases [OF inv r])
    case (1 as bs)
    obtain p' h1 where u: "slab_unlink x (slabs_partial ?c) h = (p', h1)" by fastforce
    let ?h = "slab_push x (slabs_free ?c) h1"
      and ?c' = "?c\<lparr>nr_objects := nr_objects ?c - 1, slabs_partial := p', slabs_free := x, nr_slabs := nr_slabs ?c - 1\<rparr>"
    have d: "distinct ((as @ x # bs) @ v_free v @ v_full v)" using dl(4) 1(2) by auto
    note up = unlink_push [OF dl(1) [unfolded 1(2)] dl(3) dl(2) d u]
    have rm: "remove1 x (v_partial v) = as @ bs" "remove1 x (v_full v) = v_full v"
      using d 1(2) by (auto simp: remove1_append remove1_idem)
    have "lists_ok ?c' ?h v'" 
      using up(1-3,5) d rm 1 dlist_head [OF dl(1)] by (auto simp: v' lists_ok_def view_give_def Let_def split: list.splits if_splits)
    moreover have "objs_ok ?c' m ?h v'" using 1 d rm by (intro gv [OF up(4)]) (auto simp: v' view_give_def Let_def)
    ultimately show ?thesis using eq 1(1) u by (intro exI [of _ ?c'] exI [of _ ?h]) simp
  next
    case (2 fs)
    define h1 where "h1 = (if sl_next (h x) \<noteq> 0 then h(sl_next (h x) := (h (sl_next (h x)))\<lparr>sl_prev := 0\<rparr>) else h)"
    let ?h = "slab_push x (slabs_partial ?c) h1" and ?c' = "?c\<lparr>nr_objects := nr_objects ?c - 1, slabs_full := sl_next (h x), slabs_partial := x\<rparr>"
    have sf: "slabs_full ?c = x" using dl(2) 2(2) by simp
    have d: "distinct ((x # fs) @ v_partial v @ v_free v)" using dl(4) 2(2) by auto
    have "dlist h 0 (x # fs) x" using dl(2) 2(2) sf by simp
    note hp = head_push [OF this dl(1,3) d h1_def]
    have "lists_ok ?c' ?h v'" using hp(1-3) d 2 by (auto simp: v' lists_ok_def view_give_def Let_def)
    moreover have "objs_ok ?c' m ?h v'" using 2 d by (intro gv [OF hp(4)]) (auto simp: v' view_give_def Let_def)
    ultimately show ?thesis using eq 2(1) one sf by (intro exI [of _ ?c'] exI [of _ ?h]) (simp add: h1_def)
  next
    case 3
    let ?c' = "?c\<lparr>nr_objects := nr_objects ?c - 1\<rparr>"
    have nf: "x \<notin> set (v_full v)" "x \<notin> set (v_free v)" using dl(4) 3(2) by auto
    then have "slabs_full ?c \<noteq> x" using dlist_head [OF dl(2)] x0(1) by (auto split: list.splits)
    moreover have "lists_ok ?c' h v'" by (rule lists_ok_cong [OF l]) (use 3 nf in \<open>simp_all add: v' view_give_def Let_def\<close>)
    moreover have "objs_ok ?c' m h v'" using 3 nf by (intro gv [OF relinked_refl]) (auto simp: v' view_give_def Let_def)
    ultimately show ?thesis using eq 3(1) one by (intro exI [of _ ?c'] exI [of _ h]) simp
  next
    case (4 as bs)
    obtain p' h1 where u: "slab_unlink x (slabs_partial ?c) h = (p', h1)" by fastforce
    let ?h = "slab_push x (slabs_free ?c) h1"
      and ?c' = "?c\<lparr>nr_objects := nr_objects ?c - 1, slabs_partial := p', slabs_free := x, nr_slabs := nr_slabs ?c - 1\<rparr>"
    have d: "distinct ((as @ x # bs) @ v_free v @ v_partial v)" using dl(4) 4(2) by auto
    note up = unlink_push [OF dl(2) [unfolded 4(2)] dl(3) dl(1) d u]
    have rm: "remove1 x (v_full v) = as @ bs" "remove1 x (v_partial v) = v_partial v"
      using d 4(2) by (auto simp: remove1_append remove1_idem)
    have "lists_ok ?c' ?h v'"
      using up(1-3,5) d rm 4 by (auto simp: v' lists_ok_def view_give_def Let_def split: if_splits)
    moreover have "objs_ok ?c' m ?h v'" using 4 d rm by (intro gv [OF up(4)]) (auto simp: v' view_give_def Let_def)
    ultimately show ?thesis using eq 4(1) u by (intro exI [of _ ?c'] exI [of _ ?h]) simp
  qed
qed

lemma give_object_correct:
  assumes inv: "cache_inv i v s" and r: "returnable v x (slabs s x)"
    and o: "obj \<in> objects_of (get_cache i s) (slabs s x)" "obj \<notin> set (v_objs v x)"
    and s': "s' = give_object i x obj s"
  shows "cache_inv i (view_give x obj (sl_inuse (slabs s x) = 1) v) s'"
    "nr_objects (get_cache i s') = nr_objects (get_cache i s) - 1"
    "mem s' = store64 (mem s) obj (sl_freelist (slabs s x))" "g_zones s' = g_zones s"
proof -
  obtain c' h' where "s' = set_cache i c' (s\<lparr>slabs := h', mem := store64 (mem s) obj (sl_freelist (slabs s x))\<rparr>)"
    "c_aligned_size c' = c_aligned_size (get_cache i s)" "c_object_size c' = c_object_size (get_cache i s)"
    "nr_objects c' = nr_objects (get_cache i s) - 1" "lists_ok c' h' (view_give x obj (sl_inuse (slabs s x) = 1) v)"
    "objs_ok c' (store64 (mem s) obj (sl_freelist (slabs s x))) h' (view_give x obj (sl_inuse (slabs s x) = 1) v)"
    using give_object_run [OF inv r o refl refl] s' by blast
  then show "cache_inv i (view_give x obj (sl_inuse (slabs s x) = 1) v) s'" "nr_objects (get_cache i s') = nr_objects (get_cache i s) - 1"
    "mem s' = store64 (mem s) obj (sl_freelist (slabs s x))" "g_zones s' = g_zones s"
    using inv by (simp_all add: cache_inv_def cache_geom_def set_cache_def get_cache_def)
qed

end
