(* ===== verification/CK_Slab_Props.thy ===== *)
theory CK_Slab_Props
  imports CK_Slab_Free
begin

text \<open>
  The properties of \<open>src/kernel/memory/slab.c\<close>.
\<close>

section \<open>A cache with one slab\<close>

text \<open>Three objects of 1024 bytes at \<open>0x800400\<close>, \<open>0x800800\<close> and \<open>0x800C00\<close>; the first two are in use.\<close>

definition demo_cache :: slab_cache_t where
  "demo_cache = cache_zero\<lparr>c_object_size := 1024, c_aligned_size := 1024, c_slab_size := 4096,
     c_objects_per_slab := 3, slabs_partial := 0x800000, nr_objects := 2, nr_slabs := 1\<rparr>"

definition demo_header :: slab_t where
  "demo_header = \<lparr>sl_cache = 0, sl_magic = SLAB_MAGIC, sl_inuse = 2, sl_total = 3, sl_freelist = 0x800C00,
     sl_objects = 0x800400, sl_bitmap = 0, sl_next = 0, sl_prev = 0\<rparr>"

definition demo_mem :: memory where
  "demo_mem = (\<lambda>_. 0)"

definition demo_slabs :: slab_state where
  "demo_slabs =
     \<lparr>g_zones = replicate 3 zone_zero, g_total_pages = 0, g_free_pages = 0, mem = demo_mem,
      g_kernel_pgd = 0, g_paging_enabled = 0, tlb = (\<lambda>_. None), cr0 = 0, cr3 = 0, cr4 = 0, msr_efer = 0,
      g_caches = [demo_cache], g_cache_count = 1, slabs = (\<lambda>_. demo_header)\<rparr>"

definition demo_view :: cache_view where
  "demo_view = \<lparr>v_partial = [0x800000], v_full = [], v_free = [], v_objs = (\<lambda>_. [0x800C00])\<rparr>"

lemma demo_frame: "frame_inv demo_slabs" "free_pfns demo_slabs = {}"
proof -
  have "g_zones demo_slabs = g_zones (frame_boot demo_mem)" "mem demo_slabs = mem (frame_boot demo_mem)"
    by (simp_all add: demo_slabs_def frame_boot_def)
  note c = frame_cong [OF this]
  show "frame_inv demo_slabs" "free_pfns demo_slabs = {}" by (simp_all add: c frame_boot_inv)
qed

lemma demo_objects: "objects_of demo_cache demo_header = {0x800400, 0x800800, 0x800C00}"
proof -
  have "{..<3 :: nat} = {0, 1, 2}" by auto
  then show ?thesis by (simp add: objects_of_def obj_at_def demo_header_def demo_cache_def)
qed

lemma demo_links: "flist demo_mem 0x800C00 [0x800C00]"
  by (simp add: demo_mem_def load64_def aligned_def)

lemma demo_kmem_inv: "kmem_inv 0 demo_view demo_slabs"
proof -
  have c: "get_cache 0 demo_slabs = demo_cache" "mem demo_slabs = demo_mem" "slabs demo_slabs = (\<lambda>_. demo_header)"
    by (simp_all add: get_cache_def demo_slabs_def)
  have g: "cache_geom demo_cache" by (simp add: cache_geom_def demo_cache_def)
  have sg: "slab_geom demo_cache 0x800000 demo_header"
    by (simp add: slab_geom_def demo_cache_def demo_header_def aligned_def)
  have "slab_ok demo_cache demo_mem 0x800000 demo_header [0x800C00]"
    using sg demo_links demo_objects by (simp add: slab_ok_def demo_header_def)
  then have "objs_ok demo_cache demo_mem (\<lambda>_. demo_header) demo_view" by (simp add: objs_ok_def demo_view_def)
  moreover have "lists_ok demo_cache (\<lambda>_. demo_header) demo_view"
    by (simp add: lists_ok_def demo_view_def demo_cache_def demo_header_def cache_zero_def)
  ultimately show ?thesis using g demo_frame by (simp add: kmem_inv_def cache_inv_def c) (simp add: demo_slabs_def)
qed

definition calloc_none :: "u64 \<Rightarrow> u64 \<Rightarrow> 'a slab_state_scheme \<Rightarrow> ptr \<times> 'a slab_state_scheme" where
  "calloc_none n sz s = (0, s)"

lemma calloc_none_ok: "calloc_ok calloc_none"
  by (simp add: calloc_ok_def calloc_none_def)

section \<open>Allocation\<close>

text \<open>C4: For a cache whose objects fit the slab page, \<open>kmem_cache_alloc\<close> keeps the invariant of the slab
  lists, free lists and counters. It returns \<open>NULL\<close> only when no slab has a free object and no page is
  available, changing nothing. Otherwise the object was free, in an existing slab or in a page that
  was free, is not on any free list afterwards, and \<open>nr_objects\<close> counts it.\<close>

theorem kmem_cache_alloc_correct:
  assumes "kmem_inv i v s" and "calloc_ok calloc" and "fits (get_cache i s)"
    and "kmem_cache_alloc calloc (Some i) s = (obj, s')"
  shows "if obj = 0 then s' = s \<and> v_partial v = [] \<and> v_free v = [] \<and> alloc_page 0 s = (0, s)
    else nr_objects (get_cache i s') = nr_objects (get_cache i s) + 1 \<and>
     (\<exists>v'. kmem_inv i v' s' \<and> obj \<notin> free_objs v' \<and>
        ((set (v_slabs v') = set (v_slabs v) \<and> free_objs v = insert obj (free_objs v')) \<or>
         (\<exists>x. x \<notin> set (v_slabs v) \<and> pfn x \<in> free_pfns s \<and> pfn obj = pfn x \<and>
            set (v_slabs v') = insert x (set (v_slabs v)) \<and> free_objs v \<subseteq> free_objs v')))"
  using kmem_cache_alloc_run [OF assms] by (elim disjE conjE) simp_all

theorem kmem_cache_alloc_correct_witness:
  "fst (kmem_cache_alloc calloc_none (Some 0) demo_slabs) = 0x800C00 \<and>
   nr_objects (get_cache 0 (snd (kmem_cache_alloc calloc_none (Some 0) demo_slabs))) = 3"
proof -
  obtain obj s' where r: "kmem_cache_alloc calloc_none (Some 0) demo_slabs = (obj, s')" by fastforce
  have c: "get_cache 0 demo_slabs = demo_cache" by (simp add: get_cache_def demo_slabs_def)
  have ft: "fits demo_cache" by (simp add: fits_def Let_def demo_cache_def ALIGN_UP_def sizeof_slab_t_def cache_zero_def)
  have obj: "obj = 0x800C00"
    using r by (simp add: kmem_cache_alloc_def pick_slab_def c demo_cache_def take_object_def)
      (simp add: demo_slabs_def demo_header_def demo_cache_def Let_def get_cache_def case_prod_unfold split: if_splits)
  then show ?thesis
    using kmem_cache_alloc_correct [OF demo_kmem_inv calloc_none_ok _ r] ft r by (simp add: c demo_cache_def)
qed

section \<open>Release\<close>

lemma filter_single:
  assumes "x \<in> set xs" "P x" "\<And>y. y \<in> set xs \<Longrightarrow> P y \<Longrightarrow> y = x"
  shows "hd0 (filter P xs) = x"
proof (cases "filter P xs")
  case Nil
  then show ?thesis using assms(1,2) by (simp add: filter_empty_conv)
next
  case (Cons y ys)
  then have "y \<in> set (filter P xs)" by (metis list.set_intros(1))
  then have "y = x" by (intro assms(3)) simp_all
  then show ?thesis using Cons by simp
qed

lemma filter_none: "(\<And>y. y \<in> set xs \<Longrightarrow> \<not> P y) \<Longrightarrow> filter P xs = []"
  by (simp add: filter_empty_conv)

lemma kmem_cache_free_finds:
  assumes inv: "kmem_inv i v s" and x: "x \<in> set (v_partial v @ v_full v)"
    and o: "obj \<in> objects_of (get_cache i s) (slabs s x)" and top: "unat x + 4096 < 2 ^ 64"
  shows "kmem_cache_free (Some i) obj s = Some (give_object i x obj s)"
proof -
  let ?c = "get_cache i s" and ?P = "\<lambda>y. in_slab (slabs s y) (c_aligned_size (get_cache i s)) obj"
  have i: "cache_geom ?c" "lists_ok ?c (slabs s) v" "objs_ok ?c (mem s) (slabs s) v"
    using inv by (simp_all add: kmem_inv_def cache_inv_def)
  have g: "slab_geom ?c y (slabs s y)" if "y \<in> set (v_slabs v)" for y
    using i(3) that by (auto simp: objs_ok_def slab_ok_def)
  have xs: "x \<in> set (v_slabs v)" using x by auto
  have px: "?P x" using in_slab_own [OF g [OF xs] i(1) o top] .
  obtain k where "obj = obj_at ?c (slabs s x) k" "k < unat (sl_total (slabs s x))" using o by (auto simp: objects_of_def)
  then have obj: "obj \<noteq> 0" using obj_at_facts(4) [OF g [OF xs] i(1)] by simp
  have only: "y = x" if "y \<in> set (v_slabs v)" "?P y" for y
    using in_slab_page [OF g [OF that(1)] i(1) that(2)] in_slab_page [OF g [OF xs] i(1) px]
      slab_pages_differ [OF g [OF that(1)] g [OF xs]] by auto
  have dl: "dlist (slabs s) 0 (v_partial v) (slabs_partial ?c)" "dlist (slabs s) 0 (v_full v) (slabs_full ?c)"
    "distinct (v_slabs v)" using i(2) by (simp_all add: lists_ok_def)
  have x0: "x \<noteq> 0" using g [OF xs] by (simp add: slab_geom_def)
  note fp = find_slab_dlist [OF dl(1), of "c_aligned_size ?c" obj] and ff = find_slab_dlist [OF dl(2), of "c_aligned_size ?c" obj]
  show ?thesis
  proof (cases "x \<in> set (v_partial v)")
    case True
    have "hd0 (filter ?P (v_partial v)) = x" using True px only by (intro filter_single) auto
    then show ?thesis using fp obj x0 by (simp add: kmem_cache_free_def Let_def)
  next
    case False
    then have f: "x \<in> set (v_full v)" using x by auto
    have "filter ?P (v_partial v) = []" using False only by (intro filter_none) auto
    moreover have "hd0 (filter ?P (v_full v)) = x" using f px only by (intro filter_single) auto
    ultimately show ?thesis using fp ff obj by (simp add: kmem_cache_free_def Let_def)
  qed
qed

lemma kmem_cache_free_run:
  assumes inv: "kmem_inv i v s" and r: "returnable v x (slabs s x)"
    and o: "obj \<in> objects_of (get_cache i s) (slabs s x)" "obj \<notin> set (v_objs v x)" and top: "unat x + 4096 < 2 ^ 64"
  shows "\<exists>s'. kmem_cache_free (Some i) obj s = Some s' \<and>
    kmem_inv i (view_give x obj (sl_inuse (slabs s x) = 1) v) s' \<and>
    nr_objects (get_cache i s') = nr_objects (get_cache i s) - 1 \<and>
    mem s' = store64 (mem s) obj (sl_freelist (slabs s x))"
proof -
  let ?s = "give_object i x obj s" and ?v = "view_give x obj (sl_inuse (slabs s x) = 1) v"
  have x: "x \<in> set (v_partial v @ v_full v)" using r by (auto simp: returnable_def)
  have k: "cache_inv i v s" "frame_inv s" "\<And>y. y \<in> set (v_slabs v) \<Longrightarrow> pfn y \<notin> free_pfns s" using inv by (auto simp: kmem_inv_def)
  note g = give_object_correct [OF k(1) r o refl]
  have ok: "slab_ok (get_cache i s) (mem s) x (slabs s x) (v_objs v x)" "cache_geom (get_cache i s)"
    using k(1) x by (auto simp: cache_inv_def objs_ok_def)
  note sg = slab_ok_give [OF ok o]
  have nf: "pfn obj \<notin> free_pfns s" using k(3) [of x] x sg(5) by auto
  let ?m = "store64 (mem s) obj (sl_freelist (slabs s x))"
  have "frame_inv (s\<lparr>mem := ?m\<rparr>) \<and> free_pfns (s\<lparr>mem := ?m\<rparr>) = free_pfns s"
    using frames.store_used(1) [OF k(2) sg(4) nf refl] .
  then have fr: "frame_inv ?s" "free_pfns ?s = free_pfns s"
    using frame_cong [of ?s "s\<lparr>mem := ?m\<rparr>"] g(3,4) by simp_all
  have "set (remove1 x xs) \<subseteq> set xs" for xs by (rule set_remove1_subset)
  then have sub: "set (v_slabs ?v) \<subseteq> set (v_slabs v)" using x by (auto simp: view_give_def Let_def split: if_splits)
  have "kmem_inv i ?v ?s" using g(1) fr k(3) sub unfolding kmem_inv_def by auto
  then show ?thesis using kmem_cache_free_finds [OF inv x o(1) top] g(2,3) by blast
qed

text \<open>Where the code does not relink the slab correctly, no view satisfies the invariant afterwards.\<close>

lemma dlist_unique: "dlist h p xs x \<Longrightarrow> dlist h p ys x \<Longrightarrow> xs = ys"
proof (induction xs arbitrary: ys p x)
  case Nil
  then show ?case by (cases ys) auto
next
  case (Cons y xs)
  then show ?case by (cases ys) auto
qed

lemma give_head_single:
  assumes inv: "kmem_inv i v s" and x: "v_full v = x # fs" "sl_total (slabs s x) = 1" and s': "s' = give_object i x obj s"
  shows "slabs_full (get_cache i s') = x" "slabs_free (get_cache i s') = x" "slabs_partial (get_cache i s') = hd0 fs"
    "nr_objects (get_cache i s') = nr_objects (get_cache i s) - 1" "mem s' = store64 (mem s) obj (sl_freelist (slabs s x))"
    "\<not> kmem_inv i v' s'"
proof -
  have k: "i < length (g_caches s)" "dlist (slabs s) 0 (x # fs) (slabs_full (get_cache i s))"
    using inv x(1) by (simp_all add: kmem_inv_def cache_inv_def lists_ok_def)
  have u: "sl_inuse (slabs s x) = 1" using full_inuse [of i v s x] inv x by (simp add: kmem_inv_def)
  have ok: "x \<noteq> 0" "sl_magic (slabs s x) = SLAB_MAGIC" "slabs_full (get_cache i s) = x" "sl_prev (slabs s x) = 0"
    "dlist (slabs s) x fs (sl_next (slabs s x))"
    using inv x(1) k(2) by (auto simp: kmem_inv_def cache_inv_def objs_ok_def slab_ok_def)
  have pv: "slabs_partial (get_cache i s') = sl_next (slabs s x)"
    using give_object_eq [OF ok(1,2) refl refl refl, of i obj] u k(1) ok(4) by (simp add: s' slab_unlink_def Let_def)
  show "slabs_full (get_cache i s') = x" and fr: "slabs_free (get_cache i s') = x" and
    "nr_objects (get_cache i s') = nr_objects (get_cache i s) - 1" "mem s' = store64 (mem s) obj (sl_freelist (slabs s x))"
    using give_object_eq [OF ok(1,2) refl refl refl, of i obj] u k(1) ok(3) by (simp_all add: s')
  then show "\<not> kmem_inv i v' s'"
    using ok(1) by (cases "v_full v'"; cases "v_free v'") (auto simp: kmem_inv_def cache_inv_def lists_ok_def)
  show "slabs_partial (get_cache i s') = hd0 fs" using pv dlist_head [OF ok(5)] by simp
qed

lemma give_stays:
  assumes inv: "kmem_inv i v s" and x: "x \<in> set (v_full v)" "hd (v_full v) \<noteq> x" "sl_total (slabs s x) \<noteq> 1"
    and s': "s' = give_object i x obj s" and obj: "obj \<noteq> 0"
  shows "get_cache i s' = (get_cache i s)\<lparr>nr_objects := nr_objects (get_cache i s) - 1\<rparr>"
    "slabs s' = (slabs s)(x := (slabs s x)\<lparr>sl_freelist := obj, sl_inuse := sl_inuse (slabs s x) - 1\<rparr>)"
    "mem s' = store64 (mem s) obj (sl_freelist (slabs s x))" "\<not> kmem_inv i v' s'"
proof -
  have k: "i < length (g_caches s)" "dlist (slabs s) 0 (v_full v) (slabs_full (get_cache i s))"
    "\<forall>y \<in> set (v_slabs v). slab_ok (get_cache i s) (mem s) y (slabs s y) (v_objs v y)"
    using inv by (simp_all add: kmem_inv_def cache_inv_def lists_ok_def objs_ok_def)
  have "slab_ok (get_cache i s) (mem s) x (slabs s x) (v_objs v x)" using k(3) x(1) by simp
  then have ok: "x \<noteq> 0" "sl_magic (slabs s x) = SLAB_MAGIC" by (auto simp: slab_ok_def slab_geom_def)
  have nh: "x \<noteq> slabs_full (get_cache i s)" using dlist_head [OF k(2)] x(1,2) by (auto split: list.splits)
  have u: "sl_inuse (slabs s x) \<noteq> 1" using full_inuse [of i v s x] inv x by (simp add: kmem_inv_def)
  have g: "s' = set_cache i ((get_cache i s)\<lparr>nr_objects := nr_objects (get_cache i s) - 1\<rparr>)
      (s\<lparr>slabs := (slabs s)(x := (slabs s x)\<lparr>sl_freelist := obj, sl_inuse := sl_inuse (slabs s x) - 1\<rparr>),
         mem := store64 (mem s) obj (sl_freelist (slabs s x))\<rparr>)"
    using give_object_eq [OF ok refl refl refl, of i obj] u nh by (simp add: s')
  show e: "get_cache i s' = (get_cache i s)\<lparr>nr_objects := nr_objects (get_cache i s) - 1\<rparr>"
    "slabs s' = (slabs s)(x := (slabs s x)\<lparr>sl_freelist := obj, sl_inuse := sl_inuse (slabs s x) - 1\<rparr>)"
    "mem s' = store64 (mem s) obj (sl_freelist (slabs s x))"
    using k(1) by (simp_all add: g)
  show "\<not> kmem_inv i v' s'"
  proof
    assume "kmem_inv i v' s'"
    then have v': "dlist (slabs s') 0 (v_full v') (slabs_full (get_cache i s))" "\<forall>y \<in> set (v_full v'). v_objs v' y = []"
      "\<forall>y \<in> set (v_slabs v'). slab_ok (get_cache i s') (mem s') y (slabs s' y) (v_objs v' y)"
      by (simp_all add: kmem_inv_def cache_inv_def lists_ok_def objs_ok_def e(1))
    have "dlist (slabs s') 0 (v_full v) (slabs_full (get_cache i s)) = dlist (slabs s) 0 (v_full v) (slabs_full (get_cache i s))"
      by (rule dlist_cong) (simp add: e(2))
    then have "v_full v' = v_full v" using dlist_unique [OF v'(1)] k(2) by simp
    then have in_full: "x \<in> set (v_full v')" "x \<in> set (v_slabs v')" using x(1) by simp_all
    have "slab_ok (get_cache i s') (mem s') x (slabs s' x) (v_objs v' x)" by (rule v'(3) [rule_format, OF in_full(2)])
    then show False using v'(2) in_full(1) obj by (simp add: slab_ok_def e(2))
  qed
qed

text \<open>C10: Returning any object that is in use, in a cache that satisfies the invariant of the slab lists, always
  returns, decrements \<open>nr_objects\<close> and writes the object's first word and nothing else of memory.
  When the slab is on the partial list, or heads the full list and holds several objects, or is
  further down the full list and holds a single object, the object is first on its slab's free
  list, the slab moves to the list it belongs to and the invariant holds again. In the two other cases it is broken.
  The head of the full list, when it holds a single object, ends up on the full list and on the free list, and the rest of
  the full list becomes the partial list. A slab further down the full list that holds several objects stays there,
  where no allocation looks for its free object.\<close>

theorem kmem_cache_free_correct:
  assumes "kmem_inv i v s" and "x \<in> set (v_slabs v)" and "obj \<in> objects_of (get_cache i s) (slabs s x)"
    and "obj \<notin> set (v_objs v x)" and "unat x + 4096 < 2 ^ 64"
  shows "\<exists>s'. kmem_cache_free (Some i) obj s = Some s' \<and>
    nr_objects (get_cache i s') = nr_objects (get_cache i s) - 1 \<and>
    mem s' = store64 (mem s) obj (sl_freelist (slabs s x)) \<and>
    (if x \<in> set (v_partial v) \<or> (slabs_full (get_cache i s) = x \<longleftrightarrow> sl_total (slabs s x) \<noteq> 1)
     then kmem_inv i (view_give x obj (sl_inuse (slabs s x) = 1) v) s'
     else (\<nexists>v'. kmem_inv i v' s') \<and>
       (if slabs_full (get_cache i s) = x
        then slabs_full (get_cache i s') = x \<and> slabs_free (get_cache i s') = x \<and>
             slabs_partial (get_cache i s') = sl_next (slabs s x)
        else sl_freelist (slabs s' x) = obj \<and>
             get_cache i s' = (get_cache i s)\<lparr>nr_objects := nr_objects (get_cache i s) - 1\<rparr> \<and>
             (\<forall>y. sl_next (slabs s' y) = sl_next (slabs s y))))"
proof -
  let ?c = "get_cache i s" and ?sl = "slabs s x" and ?s = "give_object i x obj s"
  have k: "cache_geom ?c" "dlist (slabs s) 0 (v_full v) (slabs_full ?c)" "\<forall>y \<in> set (v_free v). sl_inuse (slabs s y) = 0"
    "\<forall>y \<in> set (v_slabs v). slab_ok ?c (mem s) y (slabs s y) (v_objs v y)" "cache_inv i v s"
    using assms(1) by (simp_all add: kmem_inv_def cache_inv_def lists_ok_def objs_ok_def)
  note g = slab_ok_give [OF k(4) [rule_format, OF assms(2)] k(1) assms(3,4)]
  have x: "x \<in> set (v_partial v @ v_full v)" using g(2) k(3) assms(2) by auto
  have x0: "x \<noteq> 0" using k(4) assms(2) by (auto simp: slab_ok_def slab_geom_def)
  have f: "kmem_cache_free (Some i) obj s = Some ?s" by (rule kmem_cache_free_finds [OF assms(1) x assms(3,5)])
  have hd: "slabs_full ?c = x \<longleftrightarrow> v_full v = x # tl (v_full v)"
    using dlist_head [OF k(2)] x0 by (cases "v_full v") auto
  consider (ok) "returnable v x ?sl" | (head) "slabs_full ?c = x" "sl_total ?sl = 1" "x \<notin> set (v_partial v)"
    | (stay) "slabs_full ?c \<noteq> x" "sl_total ?sl \<noteq> 1" "x \<notin> set (v_partial v)" "x \<in> set (v_full v)" "hd (v_full v) \<noteq> x"
    using x hd by (cases "v_full v") (auto simp: returnable_def)
  then show ?thesis
  proof cases
    case ok
    then have "x \<in> set (v_partial v) \<or> (slabs_full ?c = x \<longleftrightarrow> sl_total ?sl \<noteq> 1)"
      using hd by (cases "v_full v") (auto simp: returnable_def)
    then show ?thesis using kmem_cache_free_run [OF assms(1) ok assms(3-5)] by auto
  next
    case head
    have fs: "v_full v = x # tl (v_full v)" using hd head(1) by simp
    have "sl_next ?sl = hd0 (tl (v_full v))" using k(2) fs dlist_head by (metis dlist.simps(2))
    then show ?thesis using f head give_head_single [OF assms(1) fs head(2) refl] by simp
  next
    case stay
    then show ?thesis using f give_stays [OF assms(1) stay(4,5,2) refl g(6)] by simp
  qed
qed

lemma demo_free_hyps:
  "returnable demo_view 0x800000 (slabs demo_slabs 0x800000)"
  "0x800400 \<in> objects_of (get_cache 0 demo_slabs) (slabs demo_slabs 0x800000)"
  "0x800400 \<notin> set (v_objs demo_view 0x800000)" "unat (0x800000 :: ptr) + 4096 < 2 ^ 64"
  using demo_objects by (simp_all add: returnable_def demo_view_def demo_slabs_def get_cache_def)

text \<open>The cache of \<open>task_struct\<close> with its one slab full.\<close>

definition task_slabs :: slab_state where
  "task_slabs = demo_slabs\<lparr>g_caches := [cache_zero\<lparr>c_object_size := 2048, c_aligned_size := 2048, c_slab_size := 4096,
     c_objects_per_slab := 1, slabs_full := 0x800000, nr_objects := 1, nr_slabs := 1\<rparr>],
     slabs := (\<lambda>_. demo_header\<lparr>sl_inuse := 1, sl_total := 1, sl_freelist := 0, sl_objects := 0x800800\<rparr>)\<rparr>"

lemma task_kmem_inv:
  "kmem_inv 0 \<lparr>v_partial = [], v_full = [0x800000], v_free = [], v_objs = (\<lambda>_. [])\<rparr> task_slabs"
proof -
  have "g_zones task_slabs = g_zones demo_slabs" "mem task_slabs = mem demo_slabs" by (simp_all add: task_slabs_def)
  note f = frame_cong [OF this]
  show ?thesis
    by (simp add: kmem_inv_def f demo_frame cache_inv_def cache_geom_def lists_ok_def objs_ok_def slab_ok_def
        slab_geom_def aligned_def)
      (simp add: task_slabs_def get_cache_def cache_zero_def demo_header_def)
qed

theorem kmem_cache_free_correct_witness:
  "(\<exists>s'. kmem_cache_free (Some 0) 0x800400 demo_slabs = Some s' \<and> nr_objects (get_cache 0 s') = 1 \<and> (\<exists>v'. kmem_inv 0 v' s')) \<and>
   (\<exists>s'. kmem_cache_free (Some 0) 0x800800 task_slabs = Some s' \<and> slabs_full (get_cache 0 s') = slabs_free (get_cache 0 s'))"
proof
  have n: "nr_objects (get_cache 0 demo_slabs) = 2" "0x800000 \<in> set (v_partial demo_view)" "0x800000 \<in> set (v_slabs demo_view)"
    by (simp_all add: get_cache_def demo_slabs_def demo_cache_def demo_view_def)
  show "\<exists>s'. kmem_cache_free (Some 0) 0x800400 demo_slabs = Some s' \<and> nr_objects (get_cache 0 s') = 1 \<and> (\<exists>v'. kmem_inv 0 v' s')"
    using kmem_cache_free_correct [OF demo_kmem_inv n(3) demo_free_hyps(2-4)] n(1,2) by auto
  have t: "sl_total (slabs task_slabs 0x800000) = 1" "slabs_full (get_cache 0 task_slabs) = 0x800000"
    "0x800800 \<in> objects_of (get_cache 0 task_slabs) (slabs task_slabs 0x800000)"
    by (simp_all add: objects_of_def obj_at_def task_slabs_def get_cache_def)
  show "\<exists>s'. kmem_cache_free (Some 0) 0x800800 task_slabs = Some s' \<and> slabs_full (get_cache 0 s') = slabs_free (get_cache 0 s')"
    using kmem_cache_free_correct [OF task_kmem_inv _ t(3)] t(1,2) by auto
qed

section \<open>Cache geometry\<close>

lemma unat_and_not_63: "unat (x AND NOT (63 :: u64)) = 64 * (unat x div 64)"
proof -
  have "x AND NOT (63 :: u64) = push_bit 6 (drop_bit 6 x)"
  proof (rule bit_word_eqI)
    fix n assume n: "n < LENGTH(64)"
    have m: "(63 :: u64) = mask 6" by (simp add: mask_eq_exp_minus_1)
    show "bit (x AND NOT 63) n = bit (push_bit 6 (drop_bit 6 x)) n"
      unfolding m using n by (auto simp: bit_simps)
  qed
  moreover have "unat (drop_bit 6 x) = unat x div 64" by (subst unat_drop_bit_eq) (simp add: drop_bit_eq_div)
  moreover have "64 * (unat x div 64) < 2 ^ 64" using u64_unat_less [of x] by (simp add: less_mult_imp_div_less)
  ultimately show ?thesis by (simp add: push_bit_eq_mult unat_word_ariths)
qed

lemma align_64:
  assumes "32 \<le> sz" "sz \<le> (2048 :: u64)"
  shows "\<exists>m \<in> {1..32}. ALIGN_UP sz 64 = of_nat (64 * m) \<and> unat sz \<le> 64 * m"
proof -
  define m where "m = (unat sz + 63) div 64"
  have b: "32 \<le> unat sz" "unat sz \<le> 2048" using assms by (simp_all add: word_le_nat_alt)
  then have "unat (sz + 63) = unat sz + 63" by (simp add: unat_word_ariths)
  then have "unat (ALIGN_UP sz 64) = 64 * m" using unat_and_not_63 [of "sz + 63"] by (simp add: ALIGN_UP_def m_def)
  then have "ALIGN_UP sz 64 = of_nat (64 * m)" by (metis of_nat_unat ucast_id)
  moreover have "m \<in> {1..32}" "unat sz \<le> 64 * m" using b by (auto simp: m_def)
  ultimately show ?thesis by blast
qed

definition fits_at :: "nat \<Rightarrow> bool" where
  "fits_at m = (let a = of_nat (64 * m) :: u64; n = ucast ((PAGE_SIZE - sizeof_slab_t) div a) :: u32;
      off = unat (ALIGN_UP sizeof_slab_t a) in
     0 < n \<and> 0 < off \<and> 8 dvd off \<and> off + unat n * unat a \<le> 4096)"

lemma fits_all: "list_all fits_at [1..<33]"
  by (simp add: fits_at_def Let_def upt_rec ALIGN_UP_def sizeof_slab_t_def PAGE_SIZE_def)

text \<open>A cache created without \<open>SLAB_FLAG_HWCACHE\<close> for an object size from 32 to 2048 bytes has room for
  its objects: the size is rounded up to a multiple of 64, there is at least one object, and header,
  padding and objects fit one page.\<close>

theorem kmem_cache_create_fits:
  assumes "g_cache_count s < 64" and "length (g_caches s) = 64" and "32 \<le> sz" and "sz \<le> 2048"
    and "flags AND SLAB_FLAG_HWCACHE = 0"
  shows "\<exists>i s'. kmem_cache_create name sz flags s = (Some i, s') \<and> i < 64 \<and>
    g_cache_count s' = g_cache_count s + 1 \<and> c_object_size (get_cache i s') = sz \<and>
    cache_geom (get_cache i s') \<and> fits (get_cache i s')"
proof -
  obtain m where m: "m \<in> {1..32}" "ALIGN_UP sz 64 = of_nat (64 * m)" "unat sz \<le> 64 * m"
    using align_64 assms(3,4) by blast
  have f: "fits_at m" using fits_all m(1) by (auto simp: list_all_iff)
  have u: "unat (of_nat (64 * m) :: u64) = 64 * m" using m(1) by (subst unat_of_nat) simp
  define c where "c = cache_zero\<lparr>c_name := take 31 name, c_object_size := sz, c_flags := flags,
    c_aligned_size := of_nat (64 * m), c_slab_size := PAGE_SIZE,
    c_objects_per_slab := ucast ((PAGE_SIZE - sizeof_slab_t) div (of_nat (64 * m)))\<rparr>"
  define i where "i = unat (g_cache_count s)"
  have i: "i < length (g_caches s)" using assms(1,2) by (simp add: i_def word_less_nat_alt)
  have r: "kmem_cache_create name sz flags s =
      (Some i, set_cache i c (s\<lparr>g_cache_count := g_cache_count s + 1\<rparr>))"
    using assms by (simp add: kmem_cache_create_def Let_def MAX_CACHES_def MIN_OBJECT_SIZE_def MAX_OBJECT_SIZE_def PAGE_SIZE_def
      m(2) c_def i_def not_le not_less)
  have g: "get_cache i (set_cache i c (s\<lparr>g_cache_count := g_cache_count s + 1\<rparr>)) = c"
    using i by (simp add: get_cache_def set_cache_def)
  have sz: "32 \<le> unat sz" using assms(3) by (simp add: word_le_nat_alt)
  have "cache_geom c" using m(3) u sz by (simp add: cache_geom_def c_def word_le_nat_alt)
  moreover have "fits c" using f u by (simp add: fits_def fits_at_def Let_def c_def cache_zero_def)
  ultimately show ?thesis using r g i assms(2) by (intro exI) (auto simp: c_def set_cache_def)
qed

theorem kmem_cache_create_fits_witness:
  "\<exists>i s'. kmem_cache_create ''inode'' 100 0 (task_slabs\<lparr>g_caches := replicate 64 cache_zero, g_cache_count := 0\<rparr>) =
    (Some i, s') \<and> fits (get_cache i s')"
proof -
  let ?s = "task_slabs\<lparr>g_caches := replicate 64 cache_zero, g_cache_count := 0\<rparr>"
  have "g_cache_count ?s < 64" "length (g_caches ?s) = 64" by simp_all
  from kmem_cache_create_fits [OF this, of 100 0 "''inode''"] show ?thesis by auto
qed

text \<open>The cache that the \<open>i\<close>-th call creates.\<close>

definition new_cache :: "nat \<Rightarrow> string \<Rightarrow> u64 \<Rightarrow> u32 \<Rightarrow> slab_cache_t" where
  "new_cache i name sz flags = cache_zero\<lparr>c_name := take 31 name, c_object_size := sz, c_flags := flags,
     c_aligned_size := ALIGN_UP sz 64, c_slab_size := PAGE_SIZE,
     c_objects_per_slab := ucast ((PAGE_SIZE - sizeof_slab_t) div ALIGN_UP sz 64),
     c_color := (if flags AND SLAB_FLAG_HWCACHE \<noteq> 0 then (of_nat (Suc i) mod 8) * 64 else 0)\<rparr>"

lemma kmem_cache_create_new:
  assumes "g_cache_count s = of_nat i" "i < 64" "32 \<le> sz" "sz \<le> 2048"
  shows "kmem_cache_create name sz flags s = (Some i, s\<lparr>g_cache_count := of_nat (Suc i),
    g_caches := (g_caches s)[i := new_cache i name sz flags]\<rparr>)"
proof -
  have "unat (of_nat i :: u32) = i" using assms(2) by (simp add: unat_of_nat)
  moreover from this have "\<not> MAX_CACHES \<le> g_cache_count s" using assms(1,2) by (simp add: MAX_CACHES_def word_le_nat_alt)
  moreover have "\<not> (sz < MIN_OBJECT_SIZE \<or> MAX_OBJECT_SIZE < sz)"
    using assms(3,4) by (simp add: MIN_OBJECT_SIZE_def MAX_OBJECT_SIZE_def PAGE_SIZE_def not_less)
  ultimately show ?thesis using assms(1)
    by (simp add: kmem_cache_create_def Let_def new_cache_def set_cache_def cache_zero_def add.commute)
qed

definition boot_caches :: "slab_cache_t list" where
  "boot_caches =
    [new_cache 0 ''tiny-32'' 32 1, new_cache 1 ''small-64'' 64 1, new_cache 2 ''medium-128'' 128 1,
     new_cache 3 ''large-256'' 256 1, new_cache 4 ''big-512'' 512 1, new_cache 5 ''huge-1024'' 1024 1,
     new_cache 6 ''task_struct'' 2048 2]"

lemma create_appends:
  assumes "g_cache_count s = of_nat i" "length (g_caches s) = 64" "i < 64" "32 \<le> sz" "sz \<le> 2048"
  shows "take (Suc i) (g_caches (snd (kmem_cache_create name sz flags s))) = take i (g_caches s) @ [new_cache i name sz flags] \<and>
    g_cache_count (snd (kmem_cache_create name sz flags s)) = of_nat (Suc i) \<and>
    length (g_caches (snd (kmem_cache_create name sz flags s))) = 64"
  using assms by (simp add: kmem_cache_create_new take_Suc_conv_app_nth)

lemma slab_init_subsystem_caches:
  assumes "g_cache_count s = 0" and "length (g_caches s) = 64"
  shows "take 7 (g_caches (slab_init_subsystem s)) = boot_caches"
proof -
  define s1 where "s1 = snd (kmem_cache_create ''tiny-32'' 32 SLAB_FLAG_HWCACHE s)"
  define s2 where "s2 = snd (kmem_cache_create ''small-64'' 64 SLAB_FLAG_HWCACHE s1)"
  define s3 where "s3 = snd (kmem_cache_create ''medium-128'' 128 SLAB_FLAG_HWCACHE s2)"
  define s4 where "s4 = snd (kmem_cache_create ''large-256'' 256 SLAB_FLAG_HWCACHE s3)"
  define s5 where "s5 = snd (kmem_cache_create ''big-512'' 512 SLAB_FLAG_HWCACHE s4)"
  define s6 where "s6 = snd (kmem_cache_create ''huge-1024'' 1024 SLAB_FLAG_HWCACHE s5)"
  note d = s1_def s2_def s3_def s4_def s5_def s6_def
  note 1 = create_appends [of s 0 32 "''tiny-32''" SLAB_FLAG_HWCACHE, folded s1_def]
  note 2 = create_appends [of s1 "Suc 0" 64 "''small-64''" SLAB_FLAG_HWCACHE, folded s2_def]
  note 3 = create_appends [of s2 2 128 "''medium-128''" SLAB_FLAG_HWCACHE, folded s3_def]
  note 4 = create_appends [of s3 3 256 "''large-256''" SLAB_FLAG_HWCACHE, folded s4_def]
  note 5 = create_appends [of s4 4 512 "''big-512''" SLAB_FLAG_HWCACHE, folded s5_def]
  note 6 = create_appends [of s5 5 1024 "''huge-1024''" SLAB_FLAG_HWCACHE, folded s6_def]
  note 7 = create_appends [of s6 6 2048 "''task_struct''" SLAB_FLAG_POISON]
  have r: "slab_init_subsystem s = snd (kmem_cache_create ''task_struct'' 2048 SLAB_FLAG_POISON s6)"
    by (simp add: slab_init_subsystem_def Let_def d)
  have "take 2 (g_caches s2) = take (Suc (Suc 0)) (g_caches s2)" by (simp add: numeral_2_eq_2)
  then show ?thesis using 1 2 3 4 5 6 7 assms unfolding r
    by (simp add: boot_caches_def SLAB_FLAG_HWCACHE_def SLAB_FLAG_POISON_def)
qed

lemmas new_cache_fits = new_cache_def fits_def Let_def cache_zero_def SLAB_FLAG_HWCACHE_def ALIGN_UP_def
  sizeof_slab_t_def PAGE_SIZE_def

text \<open>C36: The boot caches created with \<open>SLAB_FLAG_HWCACHE\<close> are coloured without room for the colour: in each of the six of
  them the last object of a slab ends behind the page. Only the uncoloured task cache fits.\<close>

theorem slab_init_subsystem_colour:
  assumes "g_cache_count s = 0" and "length (g_caches s) = 64"
  shows "map fits (take 7 (g_caches (slab_init_subsystem s))) = [False, False, False, False, False, False, True]"
proof -
  have "\<not> fits (new_cache 0 ''tiny-32'' 32 1)" "\<not> fits (new_cache 1 ''small-64'' 64 1)"
    "\<not> fits (new_cache 2 ''medium-128'' 128 1)" "\<not> fits (new_cache 3 ''large-256'' 256 1)"
    "\<not> fits (new_cache 4 ''big-512'' 512 1)" "\<not> fits (new_cache 5 ''huge-1024'' 1024 1)"
    "fits (new_cache 6 ''task_struct'' 2048 2)"
    by (simp_all add: new_cache_fits)
  then show ?thesis by (simp add: slab_init_subsystem_caches [OF assms] boot_caches_def)
qed

theorem slab_init_subsystem_colour_witness:
  "map fits (take 7 (g_caches (slab_init_subsystem (task_slabs\<lparr>g_caches := replicate 64 cache_zero, g_cache_count := 0\<rparr>))))
    = [False, False, False, False, False, False, True]"
  by (rule slab_init_subsystem_colour) simp_all

lemma order_bytes: "k < 52 \<Longrightarrow> unat (push_bit k 1 * PAGE_SIZE) = 2 ^ k * 4096"
proof -
  assume k: "k < 52"
  have "(2 :: nat) ^ k \<le> 2 ^ 51" using k by (intro power_increasing) auto
  moreover from this have "unat (2 ^ k :: u64) = 2 ^ k" using unat_of_nat [of "2 ^ k", where 'a = 64] by simp
  ultimately show ?thesis by (simp add: unat_word_ariths push_bit_eq_mult PAGE_SIZE_def)
qed

lemma kmalloc_order_run:
  assumes "unat a \<le> 2 ^ 51 * 4096" "k < 52" "\<forall>j < k. 2 ^ j * 4096 < unat a"
  shows "\<exists>n < 52. kmalloc_order a k = Some n \<and> unat a \<le> 2 ^ n * 4096 \<and> (\<forall>j < n. 2 ^ j * 4096 < unat a)"
  using assms
proof (induction a k rule: kmalloc_order.induct)
  case (1 a k)
  show ?case
  proof (cases "push_bit k 1 * PAGE_SIZE < a")
    case True
    then have l: "2 ^ k * 4096 < unat a" using 1(3) by (simp add: word_less_nat_alt order_bytes del: push_bit_of_1)
    have "k \<noteq> 51" using l 1(2) by auto
    then have "Suc k < 52" using 1(3) by simp
    moreover have "\<forall>j < Suc k. 2 ^ j * 4096 < unat a" using l 1(4) by (auto simp: less_Suc_eq)
    ultimately show ?thesis using 1(1,2,3) True by (subst kmalloc_order.simps) auto
  next
    case False
    then have "unat a \<le> 2 ^ k * 4096" using 1(3) by (simp add: word_less_nat_alt order_bytes del: push_bit_of_1)
    then show ?thesis using False 1(3,4) by (subst kmalloc_order.simps) auto
  qed
qed

text \<open>C37: The order search of \<open>kmalloc\<close> ends for every request below half of the address space, and it returns the least order
  whose block holds the request and one more page.\<close>

theorem kmalloc_order_least:
  assumes "unat sz + 4096 \<le> 2 ^ 63"
  shows "\<exists>n < 52. kmalloc_order (sz + PAGE_SIZE) 0 = Some n \<and>
    unat sz + 4096 \<le> 2 ^ n * 4096 \<and> (\<forall>j < n. 2 ^ j * 4096 < unat sz + 4096)"
proof -
  have "unat (sz + PAGE_SIZE) = unat sz + 4096" using assms by (simp add: unat_word_ariths PAGE_SIZE_def)
  then show ?thesis using kmalloc_order_run [of "sz + PAGE_SIZE" 0] assms by simp
qed

theorem kmalloc_order_least_witness:
  "\<exists>n < 52. kmalloc_order (5000 + PAGE_SIZE) 0 = Some n \<and> 9096 \<le> 2 ^ n * (4096 :: nat)"
  using kmalloc_order_least [of 5000] by auto

lemma find_slab_empty: "find_slab h sz p 0 = Some 0"
  by (subst find_slab.simps) simp

lemma kfree_caches_none:
  assumes "\<And>j. j < n \<Longrightarrow> slabs_partial (get_cache (i + j) s) = 0"
  shows "kfree_caches i n p s = Some s"
  using assms
proof (induction n arbitrary: i)
  case (Suc n)
  have "slabs_partial (get_cache i s) = 0" using Suc(2) [of 0] by simp
  moreover have "kfree_caches (Suc i) n p s = Some s"
  proof (rule Suc(1))
    fix j assume "j < n"
    then show "slabs_partial (get_cache (Suc i + j) s) = 0" using Suc(2) [of "Suc j"] by simp
  qed
  ultimately show ?case by (simp add: find_slab_empty)
qed simp

text \<open>\<open>kfree\<close> looks at partial slabs only: while no cache has one, nothing is released, neither an object of a full
  slab nor the pages of a large allocation.\<close>

theorem kfree_no_partial:
  assumes "\<forall>i < unat (g_cache_count s). slabs_partial (get_cache i s) = 0"
  shows "kfree p s = Some s"
  using assms by (simp add: kfree_def kfree_caches_none)

theorem kfree_no_partial_witness:
  "kfree 0x800800 (task_slabs\<lparr>g_cache_count := 1\<rparr>) = Some (task_slabs\<lparr>g_cache_count := 1\<rparr>)"
  by (rule kfree_no_partial) (simp add: task_slabs_def get_cache_def cache_zero_def)

end
