(* ===== verification/CK_Slab_Task.thy ===== *)
theory CK_Slab_Task
  imports CK_Slab_Props
begin

text \<open>
  The cache of \<open>task_struct\<close> that \<open>slab_init_subsystem\<close> of \<open>src/kernel/memory/slab.c\<close> creates. It is the one
  boot cache whose slabs fit their page, and each of them holds a single object: what a release does to
  the next allocation and the next release.
\<close>

section \<open>Slabs with one object\<close>

lemma moved_fields:
  fixes x p q h defines "h' \<equiv> slab_push x q (snd (slab_unlink x p h))"
  shows "sl_total (h' y) = sl_total (h y)" "sl_objects (h' y) = sl_objects (h y)" "sl_freelist (h' y) = sl_freelist (h y)"
proof -
  have "relinked h h'" unfolding h'_def by (rule relinked_trans [OF relinked_unlink relinked_push])
  then obtain n p' where "h' y = (h y)\<lparr>sl_next := n, sl_prev := p'\<rparr>" by (rule relinkedE)
  then show "sl_total (h' y) = sl_total (h y)" "sl_objects (h' y) = sl_objects (h y)" "sl_freelist (h' y) = sl_freelist (h y)"
    by simp_all
qed

lemma take_object_static:
  assumes "take_object i x s = (obj, s')" "i < length (g_caches s)"
  shows "sl_total (slabs s' y) = sl_total (slabs s y) \<and> sl_objects (slabs s' y) = sl_objects (slabs s y)"
    "c_aligned_size (get_cache i s') = c_aligned_size (get_cache i s)" "c_color (get_cache i s') = c_color (get_cache i s)"
    "c_objects_per_slab (get_cache i s') = c_objects_per_slab (get_cache i s)"
proof -

  show "sl_total (slabs s' y) = sl_total (slabs s y) \<and> sl_objects (slabs s' y) = sl_objects (slabs s y)"
    "c_aligned_size (get_cache i s') = c_aligned_size (get_cache i s)" "c_color (get_cache i s') = c_color (get_cache i s)"
    "c_objects_per_slab (get_cache i s') = c_objects_per_slab (get_cache i s)"
    using assms by (auto simp: take_object_def Let_def case_prod_unfold set_cache_def get_cache_def moved_fields split: if_splits)
qed

text \<open>An allocation when all slabs are full: a new slab, full at once, in front of the full list.\<close>

lemma single_alloc:
  assumes inv: "kmem_inv i v s" and cal: "calloc_ok calloc" and ft: "fits (get_cache i s)" "c_objects_per_slab (get_cache i s) = 1"
    and e: "v_partial v = []" "v_free v = []" and run: "kmem_cache_alloc calloc (Some i) s = (obj, s')" "obj \<noteq> 0"
  obtains x where "kmem_inv i (v\<lparr>v_full := x # v_full v, v_objs := (v_objs v)(x := [])\<rparr>) s'" "sl_total (slabs s' x) = 1"
    "obj \<in> objects_of (get_cache i s') (slabs s' x)" "pfn obj = pfn x"
    "fits (get_cache i s')" "c_objects_per_slab (get_cache i s') = 1" "pfn obj \<in> free_pfns s" "free_pfns s' \<subseteq> free_pfns s"
proof -
  obtain p s1 where al: "alloc_page 0 s = (p, s1)" by fastforce
  have z: "slabs_partial (get_cache i s) = 0" "slabs_free (get_cache i s) = 0" "i < length (g_caches s)"
    using inv e by (simp_all add: kmem_inv_def cache_inv_def lists_ok_def)
  have p: "p \<noteq> 0" using run al z by (auto simp: kmem_cache_alloc_def pick_slab_def)
  obtain s2 xs where s2: "pick_slab calloc i s = (Some p, s2)" "kmem_inv i (v\<lparr>v_partial := [p], v_objs := (v_objs v)(p := xs)\<rparr>) s2"
    "set xs = objects_of (get_cache i s2) (slabs s2 p)" "sl_total (slabs s2 p) = 1"
    "get_cache i s2 = (get_cache i s)\<lparr>slabs_partial := p, nr_slabs := nr_slabs (get_cache i s) + 1\<rparr>"
    "pfn p \<in> free_pfns s" "free_pfns s2 \<subseteq> free_pfns s"
    using pick_new [OF inv cal ft(1) e al p] ft(2) by auto
  have t: "take_object i p s2 = (obj, s')" using run(1) s2(1) by (simp add: kmem_cache_alloc_def)
  have "slab_ok (get_cache i s2) (mem s2) p (slabs s2 p) xs" and i2: "i < length (g_caches s2)"
    using s2(2) by (auto simp: kmem_inv_def cache_inv_def objs_ok_def)
  then have d: "distinct xs" by (simp add: slab_ok_def)
  have "card (set xs) = 1" unfolding s2(3) by (simp add: objects_of_def s2(4) lessThan_Suc)
  then obtain o1 where xs: "xs = [o1]" using d by (metis distinct_card length_0_conv length_Suc_conv One_nat_def)
  note k = take_object_kmem [OF s2(2) _ t] and st = take_object_static [OF t i2]
  have o: "obj = o1" "pfn obj = pfn p" "pfn obj \<in> free_pfns s" "free_pfns s' \<subseteq> free_pfns s"
    using k(6,9,10) xs s2(6,7) by simp_all
  have vt: "view_take p (v\<lparr>v_partial := [p], v_objs := (v_objs v)(p := xs)\<rparr>) =
      v\<lparr>v_full := p # v_full v, v_objs := (v_objs v)(p := [])\<rparr>" using e xs by (simp add: view_take_def Let_def)
  have ob: "obj \<in> objects_of (get_cache i s') (slabs s' p)"
    using s2(3) st(1,2) o(1) xs by (auto simp: objects_of_def obj_at_def)
  have f: "fits (get_cache i s')" "c_objects_per_slab (get_cache i s') = 1"
    using ft st(2-4) s2(5) by (simp_all add: fits_def)
  have "sl_total (slabs s' p) = 1" using st(1) s2(4) by simp
  from that [OF k(2) [unfolded vt] this ob o(2) f o(3,4)] show thesis by simp
qed

text \<open>Releasing the newest of several full slabs makes the next full slab the head of the partial list,
  from which every allocation then fails.\<close>

lemma single_stuck:
  assumes inv: "kmem_inv i v s" and x: "v_full v = x # y # fs" "sl_total (slabs s x) = 1" and s': "s' = give_object i x obj s"
  shows "kmem_cache_alloc calloc (Some i) s' = (0, s')"
proof -
  have sp: "slabs_partial (get_cache i s') = y" using give_head_single(3) [OF inv x s'] by simp
  have k: "\<forall>z \<in> set (v_slabs v). slab_ok (get_cache i s) (mem s) z (slabs s z) (v_objs v z)" "v_objs v y = []" "y \<noteq> x" "y \<noteq> 0"
    "sl_inuse (slabs s x) = 1"
    using inv x full_inuse [of i v s x] by (auto simp: kmem_inv_def cache_inv_def objs_ok_def lists_ok_def)
  have "slab_ok (get_cache i s) (mem s) y (slabs s y) (v_objs v y)" using k(1) x(1) by simp
  then have fy: "sl_freelist (slabs s y) = 0" using k(2) by (simp add: slab_ok_def)
  have "slab_ok (get_cache i s) (mem s) x (slabs s x) (v_objs v x)" using k(1) x(1) by simp
  then have ok: "x \<noteq> 0" "sl_magic (slabs s x) = SLAB_MAGIC" by (auto simp: slab_ok_def slab_geom_def)
  let ?h = "(slabs s)(x := (slabs s x)\<lparr>sl_freelist := obj, sl_inuse := sl_inuse (slabs s x) - 1\<rparr>)"
  have "slabs s' = slab_push x (slabs_free (get_cache i s)) (snd (slab_unlink x (slabs_partial (get_cache i s)) ?h))"
    using give_object_eq [OF ok refl refl refl, of i obj] k(5) by (simp add: s' set_cache_def)
  then have "sl_freelist (slabs s' y) = 0"
    using fy k(3) by (simp add: moved_fields)
  then show ?thesis using sp k(4) by (simp add: kmem_cache_alloc_def pick_slab_def take_object_def)
qed

lemma find_slab_cycle:
  assumes "sl_next (h x) = x" "\<not> in_slab (h x) sz p" "x \<noteq> 0"
  shows "find_slab h sz p x = None"
proof -
  define P where "P = (\<lambda>g z q y (r :: ptr). \<not> (g = h \<and> z = sz \<and> q = p \<and> y = x))"
  have "P g z q y r" if "find_slab g z q y = Some r" for g z q y r
    using _ that by (rule find_slab.raw_induct) (auto simp: P_def assms split: if_splits, blast)
  then show ?thesis unfolding P_def by (metis not_None_eq)
qed

text \<open>Releasing the only object and allocating again gives the same object, and leaves its slab as its own
  successor on the full list.\<close>

lemma single_cycle:
  assumes inv: "kmem_inv i v s" and v: "v_full v = [x]" "v_partial v = []" "v_free v = []" and t: "sl_total (slabs s x) = 1"
    and obj: "obj \<noteq> 0" "aligned 3 obj" and s': "s' = give_object i x obj s"
  shows "\<exists>s3. kmem_cache_alloc calloc (Some i) s' = (obj, s3) \<and> slabs_partial (get_cache i s3) = 0 \<and>
    slabs_full (get_cache i s3) = x \<and> sl_next (slabs s3 x) = x \<and> sl_total (slabs s3 x) = 1 \<and>
    sl_objects (slabs s3 x) = sl_objects (slabs s x) \<and> c_aligned_size (get_cache i s3) = c_aligned_size (get_cache i s)"
proof -
  let ?c = "get_cache i s" and ?H = "slabs s x"
  have i: "i < length (g_caches s)" "slabs_partial ?c = 0" "slabs_free ?c = 0" "slabs_full ?c = x" "sl_prev ?H = 0" "sl_next ?H = 0"
    "slab_ok ?c (mem s) x ?H []" "sl_inuse ?H = 1"
    using inv v t full_inuse [of i v s x] by (auto simp: kmem_inv_def cache_inv_def lists_ok_def objs_ok_def)
  have ok: "x \<noteq> 0" "sl_magic ?H = SLAB_MAGIC" "sl_freelist ?H = 0" using i(7) by (auto simp: slab_ok_def slab_geom_def)
  let ?h = "(slabs s)(x := ?H\<lparr>sl_freelist := obj, sl_inuse := 0, sl_next := 0, sl_prev := 0\<rparr>)" and ?m = "store64 (mem s) obj 0"
  let ?c' = "?c\<lparr>nr_objects := nr_objects ?c - 1, slabs_partial := 0, slabs_free := x, nr_slabs := nr_slabs ?c - 1\<rparr>"
  have s2: "s' = set_cache i ?c' (s\<lparr>slabs := ?h, mem := ?m\<rparr>)"
    using give_object_eq [OF ok(1,2) refl refl refl, of i obj] i ok(3) unfolding s'
    by (simp add: slab_unlink_def slab_push_def Let_def)
  have e: "get_cache i s' = ?c'" "slabs s' = ?h" "mem s' = ?m" "g_caches s' = (g_caches s)[i := ?c']" using i(1) by (simp_all add: s2 set_cache_def get_cache_def)
  have l: "load64 ?m obj = 0" using obj(2) by (simp add: load64_store64_same)
  show ?thesis
    using i ok(1) obj(1) t l
    by (simp add: kmem_cache_alloc_def pick_slab_def Let_def e slab_push_def slab_unlink_def take_object_def case_prod_unfold)
qed

lemma full_release:
  assumes inv: "kmem_inv i v s" and x: "x \<in> set (v_full v)" and obj: "obj \<in> objects_of (get_cache i s) (slabs s x)" "unat obj + 4096 < 2 ^ 64"
  shows "kmem_cache_free (Some i) obj s = Some (give_object i x obj s)" "obj \<noteq> 0" "aligned 3 obj" "pfn obj = pfn x" "x \<noteq> 0"
    "slab_geom (get_cache i s) x (slabs s x)" "cache_geom (get_cache i s)"
proof -
  have k: "\<forall>y \<in> set (v_slabs v). slab_ok (get_cache i s) (mem s) y (slabs s y) (v_objs v y)"
    using inv by (simp add: kmem_inv_def cache_inv_def objs_ok_def)
  have e: "v_objs v x = []" and g: "cache_geom (get_cache i s)" using inv x by (simp_all add: kmem_inv_def cache_inv_def objs_ok_def)
  have ok: "slab_ok (get_cache i s) (mem s) x (slabs s x) (v_objs v x)" using k x by (intro k [rule_format]) simp
  then show sg: "slab_geom (get_cache i s) x (slabs s x)" "x \<noteq> 0" by (auto simp: slab_ok_def slab_geom_def)
  show "obj \<noteq> 0" "aligned 3 obj" and po: "pfn obj = pfn x" using slab_ok_give(4-6) [OF ok g obj(1)] e by simp_all
  have "unat x = 4096 * pfn x" using sg(1) by (auto simp: slab_geom_def aligned_iff_dvd)
  then have "unat x \<le> unat obj" using po by (metis mult.commute div_times_less_eq_dividend)
  then show "kmem_cache_free (Some i) obj s = Some (give_object i x obj s)"
    using kmem_cache_free_finds [OF inv _ obj(1)] x obj(2) by simp
  show "cache_geom (get_cache i s)" by (rule g)
qed

lemma single_release_loops:
  assumes inv: "kmem_inv i v s" and v: "v_full v = [x]" "v_partial v = []" "v_free v = []" and t: "sl_total (slabs s x) = 1"
    and obj: "obj \<in> objects_of (get_cache i s) (slabs s x)" "unat obj + 4096 < 2 ^ 64"
  shows "\<exists>s3. kmem_cache_alloc calloc (Some i) (give_object i x obj s) = (obj, s3) \<and>
    (\<forall>p. p \<noteq> 0 \<and> pfn p \<noteq> pfn obj \<longrightarrow> kmem_cache_free (Some i) p s3 = None)"
proof -
  have x: "x \<in> set (v_full v)" using v by simp
  note r = full_release [OF inv x obj]
  obtain s3 where s3: "kmem_cache_alloc calloc (Some i) (give_object i x obj s) = (obj, s3)" "slabs_partial (get_cache i s3) = 0"
    "slabs_full (get_cache i s3) = x" "sl_next (slabs s3 x) = x" "sl_total (slabs s3 x) = 1"
    "sl_objects (slabs s3 x) = sl_objects (slabs s x)" "c_aligned_size (get_cache i s3) = c_aligned_size (get_cache i s)"
    using single_cycle [OF inv v t r(2,3) refl] by blast
  have "kmem_cache_free (Some i) p s3 = None" if p: "p \<noteq> 0" "pfn p \<noteq> pfn obj" for p
  proof -
    have "\<not> in_slab (slabs s x) (c_aligned_size (get_cache i s)) p" using in_slab_page [OF r(6,7)] r(4) p(2) by metis
    then have "\<not> in_slab (slabs s3 x) (c_aligned_size (get_cache i s3)) p" using s3(5-7) t by (simp add: in_slab_def)
    from find_slab_cycle [of "slabs s3" x, OF s3(4) this r(5)] show ?thesis
      using p(1) s3(2,3) by (simp add: kmem_cache_free_def find_slab_empty)
  qed
  then show ?thesis using s3(1) by blast
qed

section \<open>The boot cache\<close>

definition no_slabs :: cache_view where
  "no_slabs = \<lparr>v_partial = [], v_full = [], v_free = [], v_objs = (\<lambda>_. [])\<rparr>"

lemma kmem_cache_create_frames:
  "g_zones (snd (kmem_cache_create name sz flags s)) = g_zones s" "mem (snd (kmem_cache_create name sz flags s)) = mem s"
  by (simp_all add: kmem_cache_create_def Let_def set_cache_def)

lemma boot_task_cache:
  assumes "g_cache_count s = 0" "length (g_caches s) = 64" "frame_inv s"
  shows "kmem_inv 6 no_slabs (slab_init_subsystem s)" "fits (get_cache 6 (slab_init_subsystem s))"
    "c_objects_per_slab (get_cache 6 (slab_init_subsystem s)) = 1"
proof -
  let ?s = "slab_init_subsystem s"
  have t: "take 7 (g_caches ?s) = boot_caches" by (rule slab_init_subsystem_caches [OF assms(1,2)])
  have "length (take 7 (g_caches ?s)) = 7" unfolding t by (simp add: boot_caches_def)
  then have l: "7 \<le> length (g_caches ?s)" by simp
  have "take 7 (g_caches ?s) ! 6 = new_cache 6 ''task_struct'' 2048 2" unfolding t by (simp add: boot_caches_def)
  then have c: "get_cache 6 ?s = new_cache 6 ''task_struct'' 2048 2" using l by (simp add: get_cache_def)
  have "g_zones ?s = g_zones s" "mem ?s = mem s" by (simp_all add: slab_init_subsystem_def Let_def kmem_cache_create_frames)
  note f = frame_cong [OF this]
  show "fits (get_cache 6 ?s)" "c_objects_per_slab (get_cache 6 ?s) = 1" unfolding c by (simp_all add: new_cache_fits)
  have "cache_geom (get_cache 6 ?s)" unfolding c by (simp add: cache_geom_def new_cache_def ALIGN_UP_def)
  moreover have "lists_ok (get_cache 6 ?s) (slabs ?s) no_slabs" unfolding c by (simp add: lists_ok_def no_slabs_def new_cache_def cache_zero_def)
  ultimately show "kmem_inv 6 no_slabs ?s"
    using l f assms(3) by (simp add: kmem_inv_def cache_inv_def objs_ok_def no_slabs_def)
qed

text \<open>C35: After \<open>slab_init_subsystem\<close>, releasing a \<open>task_struct\<close> object breaks the cache. When it is the only
  one, the next allocation returns the same object, and then a release of any address outside of its page never ends. When a
  second one was allocated and is released, every later allocation returns \<open>NULL\<close>, whatever memory is free.\<close>

theorem task_struct_release:
  assumes "g_cache_count s = 0" and "length (g_caches s) = 64" and "frame_inv s" and "calloc_ok calloc"
    and "kmem_cache_alloc calloc (Some 6) (slab_init_subsystem s) = (a, s1)" and "a \<noteq> 0" and "unat a + 4096 < 2 ^ 64"
  shows "(\<exists>s2 s3. kmem_cache_free (Some 6) a s1 = Some s2 \<and> kmem_cache_alloc calloc (Some 6) s2 = (a, s3) \<and>
      (\<forall>p. p \<noteq> 0 \<and> pfn p \<noteq> pfn a \<longrightarrow> kmem_cache_free (Some 6) p s3 = None)) \<and>
    (\<forall>b s2. kmem_cache_alloc calloc (Some 6) s1 = (b, s2) \<and> b \<noteq> 0 \<and> unat b + 4096 < 2 ^ 64 \<longrightarrow>
      (\<exists>s3. kmem_cache_free (Some 6) b s2 = Some s3 \<and> kmem_cache_alloc calloc (Some 6) s3 = (0, s3)))"
proof -
  note bt = boot_task_cache [OF assms(1-3)]
  obtain x where x: "kmem_inv 6 (no_slabs\<lparr>v_full := [x], v_objs := (\<lambda>_. [])(x := [])\<rparr>) s1" "sl_total (slabs s1 x) = 1"
    "a \<in> objects_of (get_cache 6 s1) (slabs s1 x)" "pfn a = pfn x" "fits (get_cache 6 s1)" "c_objects_per_slab (get_cache 6 s1) = 1"
    using single_alloc [OF bt(1) assms(4) bt(2,3) _ _ assms(5,6)] by (auto simp: no_slabs_def)
  let ?v = "no_slabs\<lparr>v_full := [x], v_objs := (\<lambda>_. [])(x := [])\<rparr>"
  have v: "v_full ?v = [x]" "v_partial ?v = []" "v_free ?v = []" by (simp_all add: no_slabs_def)
  have fa: "kmem_cache_free (Some 6) a s1 = Some (give_object 6 x a s1)" by (rule full_release [OF x(1) _ x(3) assms(7)]) simp
  have "\<exists>s3. kmem_cache_free (Some 6) b s2 = Some s3 \<and> kmem_cache_alloc calloc (Some 6) s3 = (0, s3)"
    if b: "kmem_cache_alloc calloc (Some 6) s1 = (b, s2)" "b \<noteq> 0" "unat b + 4096 < 2 ^ 64" for b s2
  proof (rule single_alloc [OF x(1) assms(4) x(5,6) v(2,3) b(1,2)])
    fix y assume y: "kmem_inv 6 (?v\<lparr>v_full := y # v_full ?v, v_objs := (v_objs ?v)(y := [])\<rparr>) s2" "sl_total (slabs s2 y) = 1"
      "b \<in> objects_of (get_cache 6 s2) (slabs s2 y)"
    have "kmem_cache_free (Some 6) b s2 = Some (give_object 6 y b s2)" by (rule full_release [OF y(1) _ y(3) b(3)]) simp
    moreover have "kmem_cache_alloc calloc (Some 6) (give_object 6 y b s2) = (0, give_object 6 y b s2)"
      by (rule single_stuck [OF y(1) _ y(2) refl]) simp
    ultimately show ?thesis by blast
  qed
  then show ?thesis using fa single_release_loops [OF x(1) v x(2,3) assms(7)] by blast
qed

text \<open>Two free pages and no caches yet.\<close>

definition two_pages :: slab_state where
  "two_pages = push_block 0 0 0x801000 (push_block 0 0 0x800000
     (demo_slabs\<lparr>g_caches := replicate 64 cache_zero, g_cache_count := 0\<rparr>))"

lemma two_pages_facts:
  "frame_inv two_pages" "free_pfns two_pages = {0x801, 0x800}" "single_pages two_pages = 2"
  "g_cache_count two_pages = 0" "length (g_caches two_pages) = 64"
proof -
  let ?s0 = "demo_slabs\<lparr>g_caches := replicate 64 cache_zero, g_cache_count := 0\<rparr>"
  have "g_zones ?s0 = g_zones demo_slabs" "mem ?s0 = mem demo_slabs" by simp_all
  note f = frame_cong [OF this]
  have s0: "frame_inv ?s0" "free_pfns ?s0 = {}" "nr_free (area ?s0 0 0) = 0" using f demo_frame
    by (simp_all add: area_def demo_slabs_def zone_zero_def)
  let ?s1 = "push_block 0 0 0x800000 ?s0"
  have s1: "frame_inv ?s1" "free_pfns ?s1 = {0x800}" "nr_free (area ?s1 0 0) = 1"
    using push_page [OF s0(1), of "0x800000"] s0 by (simp_all add: aligned_def frame_inv_def)
  show "frame_inv two_pages" "free_pfns two_pages = {0x801, 0x800}" "single_pages two_pages = 2"
    using push_page [OF s1(1), of "0x801000"] s1 by (simp_all add: aligned_def frame_inv_def two_pages_def)
  show "g_cache_count two_pages = 0" "length (g_caches two_pages) = 64"
    by (simp_all add: two_pages_def push_block_def Let_def set_area_def)
qed

lemma alloc_none_zones:
  assumes "kmem_cache_alloc calloc_none (Some i) s = (obj, s')" "slabs_partial (get_cache i s) = 0" "slabs_free (get_cache i s) = 0"
    and "alloc_page 0 s = (p, s1)"
  shows "g_zones s' = g_zones s1"
  using assms
  by (auto simp: kmem_cache_alloc_def pick_slab_def take_object_def slab_init_def calloc_none_def Let_def set_cache_def
      split: if_splits prod.splits)

text \<open>With free single pages and only full slabs, an allocation succeeds.\<close>

lemma alloc_supplied:
  assumes inv: "kmem_inv i v s" "fits (get_cache i s)" and e: "v_partial v = []" "v_free v = []" and n: "0 < single_pages s"
    and run: "kmem_cache_alloc calloc_none (Some i) s = (obj, s')"
  shows "obj \<noteq> 0" "single_pages s \<le> single_pages s' + 1"
proof -
  have f: "frame_inv s" "slabs_partial (get_cache i s) = 0" "slabs_free (get_cache i s) = 0"
    using inv(1) e by (simp_all add: kmem_inv_def cache_inv_def lists_ok_def)
  obtain p s1 where al: "alloc_page 0 s = (p, s1)" by fastforce
  note su = alloc_page_supply [OF f(1) al]
  have "p \<noteq> 0" using su(2) n by auto
  then show "obj \<noteq> 0" using kmem_cache_alloc_run [OF inv(1) calloc_none_ok inv(2) run] al by auto
  show "single_pages s \<le> single_pages s' + 1" using su(1) alloc_none_zones [OF run f(2,3) al] by (simp add: area_def)
qed

theorem task_struct_release_witness:
  "\<exists>a b s1 s2. kmem_cache_alloc calloc_none (Some 6) (slab_init_subsystem two_pages) = (a, s1) \<and>
     kmem_cache_alloc calloc_none (Some 6) s1 = (b, s2) \<and> a \<noteq> 0 \<and> b \<noteq> 0 \<and>
     (\<exists>s3. kmem_cache_free (Some 6) b s2 = Some s3 \<and> kmem_cache_alloc calloc_none (Some 6) s3 = (0, s3)) \<and>
     (\<exists>s3 s4. kmem_cache_free (Some 6) a s1 = Some s3 \<and> kmem_cache_alloc calloc_none (Some 6) s3 = (a, s4) \<and>
        kmem_cache_free (Some 6) 0x1000 s4 = None)"
proof -
  let ?s = "slab_init_subsystem two_pages"
  note bt = boot_task_cache [OF two_pages_facts(4,5,1)]
  have z: "g_zones ?s = g_zones two_pages" "mem ?s = mem two_pages" by (simp_all add: slab_init_subsystem_def Let_def kmem_cache_create_frames)
  have n: "single_pages ?s = 2" "free_pfns ?s = {0x801, 0x800}" using two_pages_facts(2,3) z frame_cong [OF z] by (simp_all add: area_def)
  obtain a s1 where a: "kmem_cache_alloc calloc_none (Some 6) ?s = (a, s1)" by fastforce
  obtain b s2 where b: "kmem_cache_alloc calloc_none (Some 6) s1 = (b, s2)" by fastforce
  have e: "v_partial no_slabs = []" "v_free no_slabs = []" by (simp_all add: no_slabs_def)
  have a0: "a \<noteq> 0" "0 < single_pages s1" using alloc_supplied [OF bt(1,2) e _ a] n(1) by auto
  obtain x where x: "kmem_inv 6 (no_slabs\<lparr>v_full := x # v_full no_slabs, v_objs := (v_objs no_slabs)(x := [])\<rparr>) s1"
    "fits (get_cache 6 s1)" "c_objects_per_slab (get_cache 6 s1) = 1" "pfn a \<in> free_pfns ?s" "free_pfns s1 \<subseteq> free_pfns ?s"
    using single_alloc [OF bt(1) calloc_none_ok bt(2,3) e a a0(1)] by metis
  have e1: "v_partial (no_slabs\<lparr>v_full := x # v_full no_slabs, v_objs := (v_objs no_slabs)(x := [])\<rparr>) = []"
    "v_free (no_slabs\<lparr>v_full := x # v_full no_slabs, v_objs := (v_objs no_slabs)(x := [])\<rparr>) = []" using e by simp_all
  have b0: "b \<noteq> 0" by (rule alloc_supplied [OF x(1,2) e1 a0(2) b])
  have pb: "pfn b \<in> free_pfns s1" using single_alloc [OF x(1) calloc_none_ok x(2,3) e1 b b0] by metis
  have top: "unat p + 4096 < 2 ^ 64" if "pfn p \<in> {0x801, 0x800}" for p :: ptr using that by auto
  have pa: "pfn a \<in> {0x801, 0x800}" "pfn b \<in> {0x801, 0x800}" using x(4,5) pb n(2) by auto
  have "pfn (0x1000 :: ptr) \<noteq> pfn a" using pa(1) by auto
  then show ?thesis
    using task_struct_release [OF two_pages_facts(4,5,1) calloc_none_ok a a0(1) top [OF pa(1)]] a b a0(1) b0 top [OF pa(2)]
    by (intro exI [of _ a] exI [of _ b] exI [of _ s1] exI [of _ s2]) (auto simp: word_neq_0_conv)
qed

end
