(* ===== verification/CK_Ipc.thy ===== *)
theory CK_Ipc
  imports CK_Slab
begin

text \<open>
  Model of \<open>kernel/ipc/message.c\<close>: message channels, each a ring of 1024 preallocated nodes
  with a rate limit. Channels and nodes live in two typed stores indexed by address (0 is
  \<open>NULL\<close>); their memory comes from \<open>kmalloc\<close> of the slab model. \<open>get_system_time\<close> is
  not part of the sources: the value the call returns is the argument \<open>now\<close>. An access
  outside the node array is undefined, \<open>None\<close>.
\<close>

unbundle bit_operations_syntax

section \<open>Data\<close>

definition IPC_QUEUE_SIZE :: u32 where "IPC_QUEUE_SIZE = 1024"
definition IPC_MAGIC :: u32 where "IPC_MAGIC = 0xCAFEBABE"
definition MAX_CHANNELS :: u32 where "MAX_CHANNELS = 1024"

record ipc_node_t =
  n_next :: ptr
  n_message :: ipc_message_t
  n_timestamp :: u64
  n_magic :: u32

record ipc_channel_t =
  ch_sender_id :: u64
  ch_receiver_id :: u64
  ch_head :: atomic_t
  ch_tail :: atomic_t
  ch_nodes :: "ptr list"
  messages_sent :: atomic_t
  messages_received :: atomic_t
  messages_dropped :: atomic_t
  rate_limit :: u64
  quota_remaining :: u64
  quota_reset_time :: u64
  ch_flags :: u32
  ch_refcount :: u32

record ipc_state = slab_state +
  g_channels :: "ptr list"
  g_channel_counter :: atomic_t
  ipc_channels :: "ptr \<Rightarrow> ipc_channel_t"
  ipc_nodes :: "ptr \<Rightarrow> ipc_node_t"

definition message_zero :: ipc_message_t where
  "message_zero = \<lparr>sender = 0, receiver = 0, msg_type = 0, msg_flags = 0, data_size = 0,
     data = replicate IPC_MESSAGE_MAX_SIZE 0\<rparr>"

definition node_zero :: ipc_node_t where
  "node_zero = \<lparr>n_next = 0, n_message = message_zero, n_timestamp = 0, n_magic = 0\<rparr>"

definition channel_zero :: ipc_channel_t where
  "channel_zero = \<lparr>ch_sender_id = 0, ch_receiver_id = 0, ch_head = 0, ch_tail = 0,
     ch_nodes = replicate (unat IPC_QUEUE_SIZE) 0, messages_sent = 0, messages_received = 0,
     messages_dropped = 0, rate_limit = 0, quota_remaining = 0, quota_reset_time = 0,
     ch_flags = 0, ch_refcount = 0\<rparr>"

definition sizeof_ipc_node_t :: u64 where "sizeof_ipc_node_t = 4152"
definition sizeof_ipc_channel_t :: u64 where "sizeof_ipc_channel_t = 8280"

definition set_channel :: "ptr \<Rightarrow> ipc_channel_t \<Rightarrow> 'a ipc_state_scheme \<Rightarrow> 'a ipc_state_scheme" where
  "set_channel ch c s = s\<lparr>ipc_channels := (ipc_channels s)(ch := c)\<rparr>"

definition set_node :: "ptr \<Rightarrow> ipc_node_t \<Rightarrow> 'a ipc_state_scheme \<Rightarrow> 'a ipc_state_scheme" where
  "set_node n v s = s\<lparr>ipc_nodes := (ipc_nodes s)(n := v)\<rparr>"

section \<open>Channels\<close>

definition ipc_subsystem_init :: "'a ipc_state_scheme \<Rightarrow> 'a ipc_state_scheme" where
  "ipc_subsystem_init s = s\<lparr>g_channels := replicate (unat MAX_CHANNELS) 0, g_channel_counter := atomic_set 0\<rparr>"

text \<open>The loop that preallocates the nodes from index \<open>i\<close> on.\<close>

fun create_nodes ::
  "(u64 \<Rightarrow> u64 \<Rightarrow> 'a ipc_state_scheme \<Rightarrow> ptr \<times> 'a ipc_state_scheme) \<Rightarrow> ptr \<Rightarrow> nat \<Rightarrow> nat \<Rightarrow>
   'a ipc_state_scheme \<Rightarrow> 'a ipc_state_scheme option" where
  "create_nodes calloc ch i 0 s = Some s"
| "create_nodes calloc ch i (Suc n) s =
     (case kmalloc calloc sizeof_ipc_node_t s of
        None \<Rightarrow> None
      | Some (node, s1) \<Rightarrow>
          let c = ipc_channels s1 ch;
              s2 = set_channel ch (c\<lparr>ch_nodes := (ch_nodes c)[i := node]\<rparr>) s1;
              s3 = (if node \<noteq> 0 then set_node node (node_zero\<lparr>n_magic := IPC_MAGIC\<rparr>) s2 else s2)
          in create_nodes calloc ch (Suc i) n s3)"

definition ipc_channel_create ::
  "(u64 \<Rightarrow> u64 \<Rightarrow> 'a ipc_state_scheme \<Rightarrow> ptr \<times> 'a ipc_state_scheme) \<Rightarrow> u64 \<Rightarrow> u64 \<Rightarrow> u64 \<Rightarrow>
   'a ipc_state_scheme \<Rightarrow> (ptr \<times> 'a ipc_state_scheme) option" where
  "ipc_channel_create calloc from_cell to_cell now s =
     (case atomic_inc (g_channel_counter s) of (v, counter) \<Rightarrow>
        let channel_id = ucast v :: u32; s1 = s\<lparr>g_channel_counter := counter\<rparr> in
        if channel_id \<ge> MAX_CHANNELS then Some (0, s1)
        else case kmalloc calloc sizeof_ipc_channel_t s1 of
          None \<Rightarrow> None
        | Some (channel, s2) \<Rightarrow>
            if channel = 0 then Some (0, s2)
            else
              let c = channel_zero\<lparr>ch_sender_id := from_cell, ch_receiver_id := to_cell,
                    ch_head := atomic_set 0, ch_tail := atomic_set 0, rate_limit := 1000,
                    quota_remaining := 10000, quota_reset_time := now + 1000, ch_refcount := 1\<rparr>
              in case create_nodes calloc channel 0 (unat IPC_QUEUE_SIZE) (set_channel channel c s2) of
                   None \<Rightarrow> None
                 | Some s3 \<Rightarrow> Some (channel, s3\<lparr>g_channels := (g_channels s3)[unat channel_id := channel]\<rparr>))"

section \<open>Sending and receiving\<close>

text \<open>The rate limit at the start of \<open>ipc_send\<close>: refill, then the quota.\<close>

definition quota_refill :: "u64 \<Rightarrow> ipc_channel_t \<Rightarrow> ipc_channel_t" where
  "quota_refill now c =
     (if now \<ge> quota_reset_time c
      then c\<lparr>quota_remaining := rate_limit c, quota_reset_time := now + 1000\<rparr> else c)"

definition drop_message :: "ipc_channel_t \<Rightarrow> ipc_channel_t" where
  "drop_message c = c\<lparr>messages_dropped := snd (atomic_inc (messages_dropped c))\<rparr>"

definition take_quota :: "ipc_channel_t \<Rightarrow> ipc_channel_t" where
  "take_quota c = c\<lparr>quota_remaining := quota_remaining c - 1\<rparr>"

text \<open>The accesses to the ring, one definition per access of \<open>ipc_send\<close> and \<open>ipc_receive\<close>.\<close>

definition load_head :: "ipc_channel_t \<Rightarrow> u32" where "load_head c = ucast (atomic_read (ch_head c))"
definition load_tail :: "ipc_channel_t \<Rightarrow> u32" where "load_tail c = ucast (atomic_read (ch_tail c))"

definition next_index :: "u32 \<Rightarrow> u32" where "next_index i = (i + 1) mod IPC_QUEUE_SIZE"

definition queue_full :: "u32 \<Rightarrow> ipc_channel_t \<Rightarrow> bool" where
  "queue_full tail c \<longleftrightarrow> ucast (next_index tail) = atomic_read (ch_head c)"

definition node_at :: "u32 \<Rightarrow> ipc_channel_t \<Rightarrow> ptr option" where
  "node_at i c = (if unat i < length (ch_nodes c) then Some (ch_nodes c ! unat i) else None)"

definition node_valid :: "ptr \<Rightarrow> 'a ipc_state_scheme \<Rightarrow> bool" where
  "node_valid node s \<longleftrightarrow> \<not> (node = 0 \<or> n_magic (ipc_nodes s node) \<noteq> IPC_MAGIC)"

definition copy_in :: "ptr \<Rightarrow> ipc_message_t \<Rightarrow> u64 \<Rightarrow> 'a ipc_state_scheme \<Rightarrow> 'a ipc_state_scheme" where
  "copy_in node m now s = set_node node ((ipc_nodes s node)\<lparr>n_message := m, n_timestamp := now\<rparr>) s"

definition publish_tail :: "ptr \<Rightarrow> u32 \<Rightarrow> 'a ipc_state_scheme \<Rightarrow> 'a ipc_state_scheme" where
  "publish_tail channel tail s =
     (let c = ipc_channels s channel in
      set_channel channel (c\<lparr>ch_tail := atomic_set (ucast (next_index tail)),
        messages_sent := snd (atomic_inc (messages_sent c))\<rparr>) s)"

definition publish_head :: "ptr \<Rightarrow> u32 \<Rightarrow> 'a ipc_state_scheme \<Rightarrow> 'a ipc_state_scheme" where
  "publish_head channel head s =
     (let c = ipc_channels s channel in
      set_channel channel (c\<lparr>ch_head := atomic_set (ucast (next_index head)),
        messages_received := snd (atomic_inc (messages_received c))\<rparr>) s)"

definition ipc_send ::
  "ptr \<Rightarrow> ipc_message_t option \<Rightarrow> u64 \<Rightarrow> 'a ipc_state_scheme \<Rightarrow> (int \<times> 'a ipc_state_scheme) option" where
  "ipc_send channel msg now s =
     (case msg of None \<Rightarrow> Some (CK_ERROR_INVALID_ARG, s)
      | Some m \<Rightarrow>
          if channel = 0 then Some (CK_ERROR_INVALID_ARG, s)
          else
            let c1 = quota_refill now (ipc_channels s channel) in
            if quota_remaining c1 = 0 then Some (CK_ERROR_BUSY, set_channel channel (drop_message c1) s)
            else
              let c2 = take_quota c1; tail = load_tail c2 in
              if queue_full tail c2 then Some (CK_ERROR_OVERFLOW, set_channel channel (drop_message c2) s)
              else case node_at tail c2 of
                None \<Rightarrow> None
              | Some node \<Rightarrow>
                  let s1 = set_channel channel c2 s in
                  if \<not> node_valid node s1 then Some (CK_ERROR_NO_MEMORY, s1)
                  else Some (CK_SUCCESS, publish_tail channel tail (copy_in node m now s1)))"

text \<open>\<open>msg\<close> is the message buffer of the caller, \<open>None\<close> for \<open>NULL\<close>; the second result is its
  contents afterwards.\<close>

definition ipc_receive ::
  "ptr \<Rightarrow> ipc_message_t option \<Rightarrow> 'a ipc_state_scheme \<Rightarrow> (int \<times> ipc_message_t option \<times> 'a ipc_state_scheme) option" where
  "ipc_receive channel msg s =
     (case msg of None \<Rightarrow> Some (CK_ERROR_INVALID_ARG, None, s)
      | Some m \<Rightarrow>
          if channel = 0 then Some (CK_ERROR_INVALID_ARG, Some m, s)
          else
            let c = ipc_channels s channel; head = load_head c; tail = load_tail c in
            if head = tail then Some (CK_ERROR_NOT_FOUND, Some m, s)
            else case node_at head c of
              None \<Rightarrow> None
            | Some node \<Rightarrow>
                if \<not> node_valid node s then Some (CK_ERROR, Some m, s)
                else Some (CK_SUCCESS, Some (n_message (ipc_nodes s node)), publish_head channel head s))"

section \<open>Release and statistics\<close>

fun free_nodes :: "ptr list \<Rightarrow> 'a ipc_state_scheme \<Rightarrow> 'a ipc_state_scheme option" where
  "free_nodes [] s = Some s"
| "free_nodes (n # ns) s =
     (if n \<noteq> 0 then (case kfree n s of None \<Rightarrow> None | Some s1 \<Rightarrow> free_nodes ns s1) else free_nodes ns s)"

definition ipc_channel_destroy :: "ptr \<Rightarrow> 'a ipc_state_scheme \<Rightarrow> 'a ipc_state_scheme option" where
  "ipc_channel_destroy channel s =
     (if channel = 0 then Some s
      else
        let c = ipc_channels s channel;
            c1 = c\<lparr>ch_refcount := ch_refcount c - 1\<rparr>;
            s1 = set_channel channel c1 s in
        if ch_refcount c1 > 0 then Some s1
        else case free_nodes (ch_nodes c1) s1 of None \<Rightarrow> None | Some s2 \<Rightarrow> kfree channel s2)"

definition ipc_set_rate_limit :: "ptr \<Rightarrow> u64 \<Rightarrow> 'a ipc_state_scheme \<Rightarrow> 'a ipc_state_scheme" where
  "ipc_set_rate_limit channel limit s =
     (if channel \<noteq> 0 then set_channel channel ((ipc_channels s channel)\<lparr>rate_limit := limit\<rparr>) s else s)"

text \<open>Each output is written only when its pointer is not \<open>NULL\<close>.\<close>

definition ipc_get_stats ::
  "ptr \<Rightarrow> u64 option \<Rightarrow> u64 option \<Rightarrow> u64 option \<Rightarrow> 'a ipc_state_scheme \<Rightarrow> u64 option \<times> u64 option \<times> u64 option" where
  "ipc_get_stats channel sent recv dropped s =
     (if channel = 0 then (sent, recv, dropped)
      else
        let c = ipc_channels s channel in
        (map_option (\<lambda>_. atomic_read (messages_sent c)) sent,
         map_option (\<lambda>_. atomic_read (messages_received c)) recv,
         map_option (\<lambda>_. atomic_read (messages_dropped c)) dropped))"

end
