(* ===== verification/CK_Ring.thy ===== *)
theory CK_Ring
  imports CK_Prelude
begin

text \<open>
  Bounded queues. \<open>ring\<close> reads a ring buffer of \<open>N\<close> slots as a list. The locale
  \<open>bounded_queue\<close> states what a queue promises to its clients, a sequence of operations that
  may fail; its lemmas say that the messages received are a prefix of the messages accepted, in
  order, and count how many can be waiting.
\<close>

section \<open>Ring buffers\<close>

definition ring_len :: "nat \<Rightarrow> nat \<Rightarrow> nat \<Rightarrow> nat" where
  "ring_len N h t = (t + N - h) mod N"

definition ring :: "nat \<Rightarrow> nat \<Rightarrow> nat \<Rightarrow> (nat \<Rightarrow> 'm) \<Rightarrow> 'm list" where
  "ring N h t f = map (\<lambda>i. f ((h + i) mod N)) [0..<ring_len N h t]"

lemma mod_double: "m < 2 * N \<Longrightarrow> m mod N = (if m < N then m else m - N)" for m N :: nat
  by (simp add: le_mod_geq)

lemma length_ring [simp]: "length (ring N h t f) = ring_len N h t"
  by (simp add: ring_def)

lemma ring_len_less: "0 < N \<Longrightarrow> ring_len N h t < N"
  by (simp add: ring_len_def)

lemma ring_len_cases:
  assumes "h < N" "t < N"
  shows "ring_len N h t = (if h \<le> t then t - h else t + N - h)"
  using assms by (auto simp: ring_len_def mod_double)

lemma ring_slot:
  assumes "h < N" "t < N" "i < ring_len N h t"
  shows "(h + i) mod N \<noteq> t"
  using assms by (auto simp: ring_len_cases mod_double split: if_splits)

lemma ring_end:
  assumes "h < N" "t < N"
  shows "(h + ring_len N h t) mod N = t"
  using assms by (auto simp: ring_len_cases mod_double)

lemma ring_empty: "h < N \<Longrightarrow> t < N \<Longrightarrow> ring N h t f = [] \<longleftrightarrow> h = t"
  by (auto simp: ring_def ring_len_cases)

lemma ring_len_full: "h < N \<Longrightarrow> t < N \<Longrightarrow> (t + 1) mod N = h \<longleftrightarrow> ring_len N h t = N - 1"
  by (auto simp: ring_len_cases mod_double)

lemma ring_len_push:
  "h < N \<Longrightarrow> t < N \<Longrightarrow> (t + 1) mod N \<noteq> h \<Longrightarrow> ring_len N h ((t + 1) mod N) = Suc (ring_len N h t)"
  by (auto simp: ring_len_cases mod_double)

lemma ring_push:
  assumes "h < N" "t < N" "(t + 1) mod N \<noteq> h"
  shows "ring N h ((t + 1) mod N) (f(t := x)) = ring N h t f @ [x]"
proof -
  have "map (\<lambda>i. (f(t := x)) ((h + i) mod N)) [0..<ring_len N h t] = ring N h t f"
    unfolding ring_def by (rule map_cong) (use ring_slot assms in auto)
  then show ?thesis using ring_end [OF assms(1,2)]
    unfolding ring_def [of N h "(t + 1) mod N"] ring_len_push [OF assms] by simp
qed

lemma ring_next: "(h + Suc i) mod N = ((h + 1) mod N + i) mod N"
  by (metis add.assoc mod_add_left_eq plus_1_eq_Suc)

lemma ring_pop:
  assumes "h < N" "t < N" "h \<noteq> t"
  shows "ring N h t f = f h # ring N ((h + 1) mod N) t f"
proof -
  have n: "ring_len N h t = Suc (ring_len N ((h + 1) mod N) t)"
    using assms by (auto simp: ring_len_cases mod_double)
  have u: "[0..<Suc k] = 0 # map Suc [0..<k]" for k by (simp add: upt_conv_Cons map_Suc_upt del: upt_Suc)
  show ?thesis unfolding ring_def n u using assms(1) by (simp only: list.map map_map o_def ring_next) simp
qed

lemma ring_update_other:
  assumes "\<And>i. i < ring_len N h t \<Longrightarrow> f ((h + i) mod N) = g ((h + i) mod N)"
  shows "ring N h t f = ring N h t g"
  using assms by (simp add: ring_def)

section \<open>The interface\<close>

datatype 'm qop = Put 'm | Get

text \<open>A run of operations: the payloads of the accepted \<open>put\<close>s, what the \<open>get\<close>s returned, and the final state.\<close>

fun run_queue :: "('p \<Rightarrow> 's \<Rightarrow> bool \<times> 's) \<Rightarrow> ('s \<Rightarrow> 'm option \<times> 's) \<Rightarrow> ('p \<Rightarrow> 'm) \<Rightarrow> 'p qop list \<Rightarrow> 's \<Rightarrow>
    'm list \<times> 'm list \<times> 's" where
  "run_queue put get payload [] s = ([], [], s)"
| "run_queue put get payload (Put p # ops) s =
     (case run_queue put get payload ops (snd (put p s)) of (ins, outs, s') \<Rightarrow>
        (if fst (put p s) then payload p # ins else ins, outs, s'))"
| "run_queue put get payload (Get # ops) s =
     (case run_queue put get payload ops (snd (get s)) of (ins, outs, s') \<Rightarrow>
        (ins, (case fst (get s) of Some m \<Rightarrow> m # outs | None \<Rightarrow> outs), s'))"

locale bounded_queue =
  fixes put :: "'p \<Rightarrow> 's \<Rightarrow> bool \<times> 's"
    and get :: "'s \<Rightarrow> 'm option \<times> 's"
    and payload :: "'p \<Rightarrow> 'm"
    and content :: "'s \<Rightarrow> 'm list"
    and okay :: "'s \<Rightarrow> bool"
    and capacity :: nat
  assumes put_ok: "okay s \<Longrightarrow> okay (snd (put p s))"
    and put_content: "okay s \<Longrightarrow>
      content (snd (put p s)) = (if fst (put p s) then content s @ [payload p] else content s)"
    and get_ok: "okay s \<Longrightarrow> okay (snd (get s))"
    and get_empty: "okay s \<Longrightarrow> content s = [] \<Longrightarrow> fst (get s) = None \<and> content (snd (get s)) = []"
    and get_first: "okay s \<Longrightarrow> content s = m # ms \<Longrightarrow> fst (get s) = Some m \<and> content (snd (get s)) = ms"
    and within: "okay s \<Longrightarrow> length (content s) \<le> capacity"
begin

lemma run_fifo:
  assumes "okay s" "run_queue put get payload ops s = (ins, outs, s')"
  shows "okay s' \<and> content s @ ins = outs @ content s'"
  using assms
proof (induction ops arbitrary: s ins outs s')
  case Nil
  then show ?case by simp
next
  case (Cons x ops)
  show ?case
  proof (cases x)
    case (Put p)
    obtain i o' t where r: "run_queue put get payload ops (snd (put p s)) = (i, o', t)"
      by (cases "run_queue put get payload ops (snd (put p s))")
    have "okay t \<and> content (snd (put p s)) @ i = o' @ content t" by (rule Cons.IH [OF put_ok [OF Cons.prems(1)] r])
    then show ?thesis using Cons.prems r Put put_content [OF Cons.prems(1), of p] by (auto split: if_splits)
  next
    case Get
    obtain i o' t where r: "run_queue put get payload ops (snd (get s)) = (i, o', t)"
      by (cases "run_queue put get payload ops (snd (get s))")
    have "okay t \<and> content (snd (get s)) @ i = o' @ content t" by (rule Cons.IH [OF get_ok [OF Cons.prems(1)] r])
    then show ?thesis using Cons.prems r Get get_empty [OF Cons.prems(1)] get_first [OF Cons.prems(1)]
      by (cases "content s") auto
  qed
qed

lemma run_prefix:
  assumes "okay s" "content s = []" "run_queue put get payload ops s = (ins, outs, s')"
  shows "\<exists>waiting. ins = outs @ waiting \<and> length waiting \<le> capacity"
  using run_fifo [OF assms(1,3)] within [of s'] assms(2) by auto

end

end
