(* ===== verification/CK_Ipc_Inv.thy ===== *)
theory CK_Ipc_Inv
  imports CK_Ipc CK_Ring CK_Slab_Props
begin

text \<open>
  The messages waiting in a channel as a list, the invariant of a channel, and the effect of the
  single accesses to the ring on both.
\<close>

section \<open>Ring indices\<close>

lemma unat_next_index: "unat (next_index i) = (unat i + 1) mod 1024" if "unat i < 1024"
  using that by (simp add: next_index_def IPC_QUEUE_SIZE_def unat_word_ariths)

lemma unat_load:
  assumes "a < (1024 :: u64)"
  shows "unat (ucast a :: u32) = unat a"
  using assms by (simp add: unsigned_ucast_eq word_less_nat_alt take_bit_nat_eq_self)

lemma unat_u64_less: "a < (1024 :: u64) \<longleftrightarrow> unat a < 1024"
  by (simp add: word_less_nat_alt)

section \<open>The messages of a channel\<close>

definition slot_message :: "(ptr \<Rightarrow> ipc_node_t) \<Rightarrow> ipc_channel_t \<Rightarrow> nat \<Rightarrow> ipc_message_t" where
  "slot_message H c i = n_message (H (ch_nodes c ! i))"

definition queue_of :: "(ptr \<Rightarrow> ipc_node_t) \<Rightarrow> ipc_channel_t \<Rightarrow> ipc_message_t list" where
  "queue_of H c = ring 1024 (unat (ch_head c)) (unat (ch_tail c)) (slot_message H c)"

text \<open>A node that could not be allocated stays \<open>NULL\<close>; the waiting messages are on proper nodes.\<close>

definition chan_wf :: "(ptr \<Rightarrow> ipc_node_t) \<Rightarrow> ipc_channel_t \<Rightarrow> bool" where
  "chan_wf H c \<longleftrightarrow> length (ch_nodes c) = 1024 \<and> distinct (filter (\<lambda>n. n \<noteq> 0) (ch_nodes c)) \<and>
     (\<forall>n \<in> set (ch_nodes c). n \<noteq> 0 \<longrightarrow> n_magic (H n) = IPC_MAGIC) \<and>
     ch_head c < 1024 \<and> ch_tail c < 1024 \<and>
     (\<forall>i < ring_len 1024 (unat (ch_head c)) (unat (ch_tail c)). ch_nodes c ! ((unat (ch_head c) + i) mod 1024) \<noteq> 0)"

definition channel_wf :: "ptr \<Rightarrow> 'a ipc_state_scheme \<Rightarrow> bool" where
  "channel_wf ch s \<longleftrightarrow> ch \<noteq> 0 \<and> chan_wf (ipc_nodes s) (ipc_channels s ch)"

definition channel_queue :: "ptr \<Rightarrow> 'a ipc_state_scheme \<Rightarrow> ipc_message_t list" where
  "channel_queue ch s = queue_of (ipc_nodes s) (ipc_channels s ch)"

text \<open>Only head, tail and nodes of a channel matter.\<close>

definition same_ring :: "ipc_channel_t \<Rightarrow> ipc_channel_t \<Rightarrow> bool" where
  "same_ring c d \<longleftrightarrow> ch_head c = ch_head d \<and> ch_tail c = ch_tail d \<and> ch_nodes c = ch_nodes d"

lemma same_ring_wf: "same_ring c d \<Longrightarrow> chan_wf H c = chan_wf H d"
  by (simp add: same_ring_def chan_wf_def)

lemma same_ring_queue: "same_ring c d \<Longrightarrow> queue_of H c = queue_of H d"
  by (simp add: same_ring_def queue_of_def slot_message_def [abs_def])

lemma quota_same_ring [simp]:
  "same_ring (quota_refill now c) c" "same_ring (drop_message c) c" "same_ring (take_quota c) c" "same_ring c c"
  by (simp_all add: same_ring_def quota_refill_def drop_message_def take_quota_def)

lemma same_ring_trans: "same_ring a b \<Longrightarrow> same_ring b c \<Longrightarrow> same_ring a c"
  by (simp add: same_ring_def)

lemma set_channel_simps [simp]:
  "ipc_nodes (set_channel ch c s) = ipc_nodes s"
  "ipc_channels (set_channel ch c s) = (ipc_channels s)(ch := c)"
  by (simp_all add: set_channel_def)

lemma set_node_simps [simp]:
  "ipc_channels (set_node n v s) = ipc_channels s"
  "ipc_nodes (set_node n v s) = (ipc_nodes s)(n := v)"
  by (simp_all add: set_node_def)

lemma set_channel_ring:
  assumes "channel_wf ch s" "same_ring c (ipc_channels s ch)"
  shows "channel_wf ch (set_channel ch c s)" "channel_queue ch (set_channel ch c s) = channel_queue ch s"
  using assms same_ring_wf same_ring_queue by (auto simp: channel_wf_def channel_queue_def)

section \<open>Accesses\<close>

lemma wf_bounds:
  assumes "chan_wf H c"
  shows "unat (ch_head c) < 1024" "unat (ch_tail c) < 1024" "length (ch_nodes c) = 1024"
    "unat (load_head c) = unat (ch_head c)" "unat (load_tail c) = unat (ch_tail c)"
  using assms by (auto simp: chan_wf_def unat_u64_less load_head_def load_tail_def atomic_read_def unat_load)

lemma queue_full_iff:
  assumes "chan_wf H c"
  shows "queue_full (load_tail c) c \<longleftrightarrow> length (queue_of H c) = 1023"
proof -
  note b = wf_bounds [OF assms]
  have "queue_full (load_tail c) c \<longleftrightarrow> unat (next_index (load_tail c)) = unat (ch_head c)"
    by (simp add: queue_full_def atomic_read_def word_unat_eq_iff)
  also have "\<dots> \<longleftrightarrow> (unat (ch_tail c) + 1) mod 1024 = unat (ch_head c)" using b by (simp add: unat_next_index)
  finally show ?thesis using ring_len_full [OF b(1,2)] by (simp add: queue_of_def)
qed

lemma queue_len: "chan_wf H c \<Longrightarrow> length (queue_of H c) \<le> 1023"
  using ring_len_less [of 1024 "unat (ch_head c)" "unat (ch_tail c)"] by (simp add: queue_of_def)

lemma queue_empty_iff:
  assumes "chan_wf H c"
  shows "queue_of H c = [] \<longleftrightarrow> load_head c = load_tail c"
  using wf_bounds [OF assms] ring_empty [of "unat (ch_head c)" 1024 "unat (ch_tail c)"]
  by (simp add: queue_of_def word_unat_eq_iff)

lemma node_at_wf: "chan_wf H c \<Longrightarrow> node_at (load_tail c) c = Some (ch_nodes c ! unat (ch_tail c))"
  "chan_wf H c \<Longrightarrow> node_at (load_head c) c = Some (ch_nodes c ! unat (ch_head c))"
  using wf_bounds by (auto simp: node_at_def)

lemma distinct_filter_nth:
  "\<lbrakk>distinct (filter P xs); i < j; j < length xs; xs ! i = xs ! j\<rbrakk> \<Longrightarrow> \<not> P (xs ! i)"
proof (induction xs arbitrary: i j)
  case (Cons x xs)
  show ?case
  proof (cases i)
    case 0
    then have "xs ! (j - 1) = x" "j - 1 < length xs" using Cons.prems by (auto simp: nth_Cons')
    then have "x \<in> set xs" using nth_mem by blast
    then show ?thesis using Cons.prems(1) 0 by auto
  next
    case (Suc i')
    then obtain j' where "j = Suc j'" using Cons.prems(2) by (cases j) auto
    then show ?thesis using Cons.IH [of i' j'] Cons.prems Suc by (auto split: if_splits)
  qed
qed simp

lemma distinct_nodes:
  assumes "chan_wf H c" "i < 1024" "j < 1024" "ch_nodes c ! i = ch_nodes c ! j" "ch_nodes c ! i \<noteq> 0"
  shows "i = j"
proof -
  have "length (ch_nodes c) = 1024" "distinct (filter (\<lambda>n. n \<noteq> 0) (ch_nodes c))" using assms(1) by (auto simp: chan_wf_def)
  then show ?thesis using distinct_filter_nth [of "\<lambda>n. n \<noteq> 0" "ch_nodes c"] assms by (metis linorder_neqE_nat)
qed

text \<open>Writing the node at the tail leaves the waiting messages alone; publishing the new tail
  appends what the node holds; publishing the new head takes the first message.\<close>

lemma slot_copy_in:
  assumes "chan_wf H c" "i < 1024" "ch_nodes c ! i \<noteq> 0" "j < 1024" "ch_nodes c ! j \<noteq> 0"
  shows "slot_message (H(ch_nodes c ! i := (H (ch_nodes c ! i))\<lparr>n_message := m, n_timestamp := now\<rparr>)) c j =
    (if j = i then m else slot_message H c j)"
  using distinct_nodes [OF assms(1)] assms by (auto simp: slot_message_def)

lemma copy_in_chan:
  assumes "chan_wf H c" "t = unat (ch_tail c)" "ch_nodes c ! t \<noteq> 0"
  shows "chan_wf (H(ch_nodes c ! t := (H (ch_nodes c ! t))\<lparr>n_message := m, n_timestamp := now\<rparr>)) c"
    and "queue_of (H(ch_nodes c ! t := (H (ch_nodes c ! t))\<lparr>n_message := m, n_timestamp := now\<rparr>)) c = queue_of H c"
proof -
  show "chan_wf (H(ch_nodes c ! t := (H (ch_nodes c ! t))\<lparr>n_message := m, n_timestamp := now\<rparr>)) c"
    using assms(1) by (auto simp: chan_wf_def)
  note b = wf_bounds [OF assms(1)]
  have "slot_message (H(ch_nodes c ! t := (H (ch_nodes c ! t))\<lparr>n_message := m, n_timestamp := now\<rparr>)) c ((unat (ch_head c) + i) mod 1024) =
      slot_message H c ((unat (ch_head c) + i) mod 1024)" if i: "i < ring_len 1024 (unat (ch_head c)) (unat (ch_tail c))" for i
  proof -
    have "(unat (ch_head c) + i) mod 1024 \<noteq> t" using ring_slot [OF b(1,2) i] assms(2) by simp
    moreover have "ch_nodes c ! ((unat (ch_head c) + i) mod 1024) \<noteq> 0" using assms(1) i by (simp add: chan_wf_def)
    ultimately show ?thesis using slot_copy_in [OF assms(1) _ assms(3)] b assms(2) by simp
  qed
  then show "queue_of (H(ch_nodes c ! t := (H (ch_nodes c ! t))\<lparr>n_message := m, n_timestamp := now\<rparr>)) c = queue_of H c"
    unfolding queue_of_def by (rule ring_update_other)
qed

lemma next_index_bound: "unat i < 1024 \<Longrightarrow> ucast (next_index i) < (1024 :: u64)"
  by (simp add: unat_u64_less unat_next_index)

lemma publish_tail_chan:
  assumes w: "chan_wf H c" and t: "ch_nodes c ! unat (ch_tail c) \<noteq> 0" and f: "\<not> queue_full (load_tail c) c"
    and d: "ch_head d = ch_head c" "ch_nodes d = ch_nodes c" "ch_tail d = ucast (next_index (load_tail c))"
  shows "chan_wf H d" "queue_of H d = queue_of H c @ [slot_message H c (unat (ch_tail c))]"
proof -
  note b = wf_bounds [OF w]
  have n: "unat (ch_tail d) = (unat (ch_tail c) + 1) mod 1024" using b by (simp add: d unat_next_index)
  have r: "(unat (ch_tail c) + 1) mod 1024 \<noteq> unat (ch_head c)"
    using f queue_full_iff [OF w] ring_len_full [OF b(1,2)] by (simp add: queue_of_def)
  have l: "ring_len 1024 (unat (ch_head c)) ((unat (ch_tail c) + 1) mod 1024) = Suc (ring_len 1024 (unat (ch_head c)) (unat (ch_tail c)))"
    by (rule ring_len_push [OF b(1,2) r])
  have "ch_nodes d ! ((unat (ch_head d) + i) mod 1024) \<noteq> 0" if i: "i < ring_len 1024 (unat (ch_head d)) (unat (ch_tail d))" for i
  proof (cases "i = ring_len 1024 (unat (ch_head c)) (unat (ch_tail c))")
    case True
    then show ?thesis using ring_end [OF b(1,2)] t by (simp add: d)
  next
    case False
    then have "i < ring_len 1024 (unat (ch_head c)) (unat (ch_tail c))" using i l n by (simp add: d(1))
    then show ?thesis using w by (simp add: chan_wf_def d)
  qed
  then show "chan_wf H d" using w next_index_bound [of "load_tail c"] b by (simp add: chan_wf_def d)
  have s: "slot_message H d = (slot_message H c)(unat (ch_tail c) := slot_message H c (unat (ch_tail c)))"
    by (simp add: slot_message_def [abs_def] d fun_eq_iff)
  show "queue_of H d = queue_of H c @ [slot_message H c (unat (ch_tail c))]"
    unfolding queue_of_def n d(1) s by (rule ring_push [OF b(1,2) r])
qed

lemma publish_head_chan:
  assumes w: "chan_wf H c" and ne: "load_head c \<noteq> load_tail c"
    and d: "ch_tail d = ch_tail c" "ch_nodes d = ch_nodes c" "ch_head d = ucast (next_index (load_head c))"
  shows "chan_wf H d" "queue_of H c = slot_message H c (unat (ch_head c)) # queue_of H d"
    "ch_nodes c ! unat (ch_head c) \<noteq> 0"
proof -
  note b = wf_bounds [OF w]
  have n: "unat (ch_head d) = (unat (ch_head c) + 1) mod 1024" using b by (simp add: d unat_next_index)
  have ht: "unat (ch_head c) \<noteq> unat (ch_tail c)" using ne b by (simp add: word_unat_eq_iff)
  have s: "slot_message H d = slot_message H c" by (simp add: slot_message_def [abs_def] d)
  show q: "queue_of H c = slot_message H c (unat (ch_head c)) # queue_of H d"
    unfolding queue_of_def n d(1) s by (rule ring_pop [OF b(1,2) ht])
  then have l: "ring_len 1024 (unat (ch_head c)) (unat (ch_tail c)) = Suc (ring_len 1024 (unat (ch_head d)) (unat (ch_tail d)))"
    unfolding queue_of_def by (metis length_Cons length_ring)
  have a: "ch_nodes c ! ((unat (ch_head c) + i) mod 1024) \<noteq> 0" if "i < ring_len 1024 (unat (ch_head c)) (unat (ch_tail c))" for i
    using w that by (simp add: chan_wf_def)
  show "ch_nodes c ! unat (ch_head c) \<noteq> 0" using a [of 0] l b(1) by simp
  have "ch_nodes d ! ((unat (ch_head d) + i) mod 1024) \<noteq> 0" if i: "i < ring_len 1024 (unat (ch_head d)) (unat (ch_tail d))" for i
    using a [of "Suc i"] i l unfolding n d(2) ring_next by simp
  then show "chan_wf H d" using w next_index_bound [of "load_head c"] b by (simp add: chan_wf_def d)
qed

section \<open>Steps on the state\<close>

lemma copy_in_state:
  assumes "channel_wf ch s" "node_at (load_tail (ipc_channels s ch)) (ipc_channels s ch) = Some node" "node_valid node s"
  shows "channel_wf ch (copy_in node m now s)" "channel_queue ch (copy_in node m now s) = channel_queue ch s"
    "ipc_channels (copy_in node m now s) = ipc_channels s"
    "slot_message (ipc_nodes (copy_in node m now s)) (ipc_channels s ch) (unat (ch_tail (ipc_channels s ch))) = m"
  using assms copy_in_chan [of "ipc_nodes s" "ipc_channels s ch" _ now m] node_at_wf(1) [of "ipc_nodes s" "ipc_channels s ch"]
  by (auto simp: channel_wf_def channel_queue_def copy_in_def node_valid_def slot_message_def)

lemma publish_tail_state:
  assumes "channel_wf ch s" "\<not> queue_full (load_tail (ipc_channels s ch)) (ipc_channels s ch)"
    and "ch_nodes (ipc_channels s ch) ! unat (ch_tail (ipc_channels s ch)) \<noteq> 0"
  shows "channel_wf ch (publish_tail ch (load_tail (ipc_channels s ch)) s)"
    "channel_queue ch (publish_tail ch (load_tail (ipc_channels s ch)) s) =
       channel_queue ch s @ [slot_message (ipc_nodes s) (ipc_channels s ch) (unat (ch_tail (ipc_channels s ch)))]"
  using assms(1) publish_tail_chan [of "ipc_nodes s" "ipc_channels s ch", OF _ assms(3,2)]
  by (simp_all add: channel_wf_def channel_queue_def publish_tail_def Let_def atomic_set_def)

lemma publish_head_state:
  assumes "channel_wf ch s" "load_head (ipc_channels s ch) \<noteq> load_tail (ipc_channels s ch)"
  shows "channel_wf ch (publish_head ch (load_head (ipc_channels s ch)) s)"
    "channel_queue ch s = slot_message (ipc_nodes s) (ipc_channels s ch) (unat (ch_head (ipc_channels s ch)))
       # channel_queue ch (publish_head ch (load_head (ipc_channels s ch)) s)"
  using assms(1) publish_head_chan [of "ipc_nodes s" "ipc_channels s ch", OF _ assms(2)]
  by (simp_all add: channel_wf_def channel_queue_def publish_head_def Let_def atomic_set_def)

lemma node_valid_wf:
  assumes "channel_wf ch s" "node \<in> set (ch_nodes (ipc_channels s ch))"
  shows "node_valid node s \<longleftrightarrow> node \<noteq> 0"
  using assms by (auto simp: channel_wf_def chan_wf_def node_valid_def)

lemma channel_wf_node:
  assumes "channel_wf ch s"
  shows "node_at (load_tail (ipc_channels s ch)) (ipc_channels s ch) = Some (ch_nodes (ipc_channels s ch) ! unat (ch_tail (ipc_channels s ch)))"
    "node_at (load_head (ipc_channels s ch)) (ipc_channels s ch) = Some (ch_nodes (ipc_channels s ch) ! unat (ch_head (ipc_channels s ch)))"
    "node_valid (ch_nodes (ipc_channels s ch) ! unat (ch_tail (ipc_channels s ch))) s \<longleftrightarrow>
       ch_nodes (ipc_channels s ch) ! unat (ch_tail (ipc_channels s ch)) \<noteq> 0"
    "load_head (ipc_channels s ch) \<noteq> load_tail (ipc_channels s ch) \<Longrightarrow>
       node_valid (ch_nodes (ipc_channels s ch) ! unat (ch_head (ipc_channels s ch))) s"
proof -
  have w: "chan_wf (ipc_nodes s) (ipc_channels s ch)" using assms by (simp add: channel_wf_def)
  note b = wf_bounds [OF w]
  show "node_at (load_tail (ipc_channels s ch)) (ipc_channels s ch) = Some (ch_nodes (ipc_channels s ch) ! unat (ch_tail (ipc_channels s ch)))"
    "node_at (load_head (ipc_channels s ch)) (ipc_channels s ch) = Some (ch_nodes (ipc_channels s ch) ! unat (ch_head (ipc_channels s ch)))"
    using node_at_wf [OF w] by simp_all
  show "node_valid (ch_nodes (ipc_channels s ch) ! unat (ch_tail (ipc_channels s ch))) s \<longleftrightarrow>
       ch_nodes (ipc_channels s ch) ! unat (ch_tail (ipc_channels s ch)) \<noteq> 0"
    using node_valid_wf [OF assms] b by simp
  assume "load_head (ipc_channels s ch) \<noteq> load_tail (ipc_channels s ch)"
  then have "ch_nodes (ipc_channels s ch) ! unat (ch_head (ipc_channels s ch)) \<noteq> 0" using publish_head_chan(3) [OF w, of "(ipc_channels s ch)\<lparr>ch_head := ucast (next_index (load_head (ipc_channels s ch)))\<rparr>"] by simp
  then show "node_valid (ch_nodes (ipc_channels s ch) ! unat (ch_head (ipc_channels s ch))) s"
    using node_valid_wf [OF assms] b by simp
qed

section \<open>The operations\<close>

text \<open>What \<open>ipc_send\<close> may answer, the case and the effect on the waiting messages.\<close>

datatype send_result = Sent | Busy | Full | No_node

fun send_code :: "send_result \<Rightarrow> int" where
  "send_code Sent = CK_SUCCESS"
| "send_code Busy = CK_ERROR_BUSY"
| "send_code Full = CK_ERROR_OVERFLOW"
| "send_code No_node = CK_ERROR_NO_MEMORY"

definition send_case :: "ptr \<Rightarrow> u64 \<Rightarrow> 'a ipc_state_scheme \<Rightarrow> send_result" where
  "send_case ch now s =
     (let c = ipc_channels s ch in
      if quota_remaining (quota_refill now c) = 0 then Busy
      else if length (channel_queue ch s) = 1023 then Full
      else if ch_nodes c ! unat (ch_tail c) = 0 then No_node else Sent)"

lemma ipc_send_cases:
  assumes w: "channel_wf ch s"
  shows "\<exists>s'. ipc_send ch (Some m) now s = Some (send_code (send_case ch now s), s') \<and> channel_wf ch s' \<and>
    channel_queue ch s' = (if send_case ch now s = Sent then channel_queue ch s @ [m] else channel_queue ch s)"
proof -
  define c where "c = ipc_channels s ch"
  define c1 where "c1 = quota_refill now c"
  define c2 where "c2 = take_quota c1"
  define s1 where "s1 = set_channel ch c2 s"
  have ch: "ch \<noteq> 0" and wc: "chan_wf (ipc_nodes s) c" using w by (auto simp: channel_wf_def c_def)
  have r1: "same_ring c1 c" and r2: "same_ring c2 c"
    unfolding c1_def c2_def by (simp, rule same_ring_trans [OF quota_same_ring(3) quota_same_ring(1)])
  have d: "same_ring (drop_message c1) c" "same_ring (drop_message c2) c"
    using same_ring_trans [OF quota_same_ring(2) r1] same_ring_trans [OF quota_same_ring(2) r2] by simp_all
  have w1: "channel_wf ch s1" "channel_queue ch s1 = channel_queue ch s" "ipc_channels s1 ch = c2"
    using set_channel_ring [OF w] r2 by (simp_all add: s1_def c_def)
  have l: "load_tail c2 = load_tail c" "ch_head c2 = ch_head c" "ch_nodes c2 = ch_nodes c" "ch_tail c2 = ch_tail c"
    using r2 by (auto simp: same_ring_def load_tail_def)
  have f: "queue_full (load_tail c2) c2 \<longleftrightarrow> length (channel_queue ch s) = 1023"
    using queue_full_iff [OF wc] by (simp add: l queue_full_def channel_queue_def c_def)
  note n = channel_wf_node [OF w1(1), unfolded w1(3)]
  have e: "ipc_send ch (Some m) now s =
      (if quota_remaining c1 = 0 then Some (CK_ERROR_BUSY, set_channel ch (drop_message c1) s)
       else if length (channel_queue ch s) = 1023 then Some (CK_ERROR_OVERFLOW, set_channel ch (drop_message c2) s)
       else if ch_nodes c ! unat (ch_tail c) = 0 then Some (CK_ERROR_NO_MEMORY, s1)
       else Some (CK_SUCCESS, publish_tail ch (load_tail c2) (copy_in (ch_nodes c2 ! unat (ch_tail c2)) m now s1)))"
    using ch n f by (simp add: ipc_send_def Let_def c_def [symmetric] c1_def [symmetric] c2_def [symmetric] s1_def [symmetric] l)
  show ?thesis
  proof (cases "send_case ch now s")
    case Sent
    then have q: "quota_remaining c1 \<noteq> 0" "length (channel_queue ch s) \<noteq> 1023" "ch_nodes c ! unat (ch_tail c) \<noteq> 0"
      by (auto simp: send_case_def Let_def c_def c1_def split: if_splits)
    define s2 where "s2 = copy_in (ch_nodes c2 ! unat (ch_tail c2)) m now s1"
    have v: "node_valid (ch_nodes c2 ! unat (ch_tail c2)) s1" using n(3) q(3) l by simp
    note i = copy_in_state [OF w1(1) _ v, unfolded w1(3), OF n(1), of m now, folded s2_def]
    have i3: "ipc_channels s2 ch = c2" using i(3) w1(3) by simp
    have p: "\<not> queue_full (load_tail c2) c2" "ch_nodes c2 ! unat (ch_tail c2) \<noteq> 0" using f q l by auto
    note t = publish_tail_state [OF i(1), unfolded i3, OF p]
    show ?thesis using e q t i(2,4) w1(2) Sent by (simp add: s2_def [symmetric])
  qed (use e set_channel_ring [OF w, folded c_def] d w1 in \<open>auto simp: send_case_def Let_def c_def c1_def split: if_splits\<close>)
qed

lemma ipc_receive_cases:
  assumes w: "channel_wf ch s"
  shows "case channel_queue ch s of
      [] \<Rightarrow> ipc_receive ch (Some b) s = Some (CK_ERROR_NOT_FOUND, Some b, s)
    | m # ms \<Rightarrow> \<exists>s'. ipc_receive ch (Some b) s = Some (CK_SUCCESS, Some m, s') \<and> channel_wf ch s' \<and> channel_queue ch s' = ms"
proof -
  define c where "c = ipc_channels s ch"
  have ch: "ch \<noteq> 0" and wc: "chan_wf (ipc_nodes s) c" using w by (auto simp: channel_wf_def c_def)
  have e: "channel_queue ch s = [] \<longleftrightarrow> load_head c = load_tail c"
    using queue_empty_iff [OF wc] by (simp add: channel_queue_def c_def)
  show ?thesis
  proof (cases "load_head c = load_tail c")
    case True
    then show ?thesis using e ch by (simp add: ipc_receive_def c_def)
  next
    case False
    note p = publish_head_state [OF w, folded c_def, OF False] and n = channel_wf_node [OF w, folded c_def]
    have "ipc_receive ch (Some b) s = Some (CK_SUCCESS, Some (n_message (ipc_nodes s (ch_nodes c ! unat (ch_head c)))),
        publish_head ch (load_head c) s)"
      using ch False n(2) n(4) [OF False] by (simp add: ipc_receive_def c_def [symmetric])
    then show ?thesis using p by (simp add: slot_message_def)
  qed
qed

section \<open>Channels as bounded queues\<close>

definition chan_put :: "ptr \<Rightarrow> u64 \<times> ipc_message_t \<Rightarrow> 'a ipc_state_scheme \<Rightarrow> bool \<times> 'a ipc_state_scheme" where
  "chan_put ch p s = (case ipc_send ch (Some (snd p)) (fst p) s of
      Some (r, s') \<Rightarrow> (r = CK_SUCCESS, s') | None \<Rightarrow> (False, s))"

definition chan_get :: "ptr \<Rightarrow> 'a ipc_state_scheme \<Rightarrow> ipc_message_t option \<times> 'a ipc_state_scheme" where
  "chan_get ch s = (case ipc_receive ch (Some message_zero) s of
      Some (r, b, s') \<Rightarrow> (if r = CK_SUCCESS then b else None, s') | None \<Rightarrow> (None, s))"

lemma send_code_success: "send_code r = CK_SUCCESS \<longleftrightarrow> r = Sent"
  by (cases r) (simp_all add: CK_SUCCESS_def CK_ERROR_BUSY_def CK_ERROR_OVERFLOW_def CK_ERROR_NO_MEMORY_def)

interpretation chan: bounded_queue "chan_put ch" "chan_get ch" snd "channel_queue ch" "channel_wf ch" 1023
proof
  fix s :: "'a ipc_state_scheme" and p :: "u64 \<times> ipc_message_t" and m ms
  assume w: "channel_wf ch s"
  obtain s' where s': "ipc_send ch (Some (snd p)) (fst p) s = Some (send_code (send_case ch (fst p) s), s')"
      "channel_wf ch s'" "channel_queue ch s' = (if send_case ch (fst p) s = Sent then channel_queue ch s @ [snd p] else channel_queue ch s)"
    using ipc_send_cases [OF w] by blast
  show "channel_wf ch (snd (chan_put ch p s))" using s' by (simp add: chan_put_def)
  show "channel_queue ch (snd (chan_put ch p s)) =
      (if fst (chan_put ch p s) then channel_queue ch s @ [snd p] else channel_queue ch s)"
    using s' by (simp add: chan_put_def send_code_success)
  note r = ipc_receive_cases [OF w, of message_zero]
  show "channel_wf ch (snd (chan_get ch s))" using r w by (auto simp: chan_get_def split: list.splits)
  show "channel_queue ch s = [] \<Longrightarrow> fst (chan_get ch s) = None \<and> channel_queue ch (snd (chan_get ch s)) = []"
    using r by (auto simp: chan_get_def CK_SUCCESS_def CK_ERROR_NOT_FOUND_def)
  show "channel_queue ch s = m # ms \<Longrightarrow> fst (chan_get ch s) = Some m \<and> channel_queue ch (snd (chan_get ch s)) = ms"
    using r by (auto simp: chan_get_def)
  show "length (channel_queue ch s) \<le> 1023" using w queue_len by (auto simp: channel_wf_def channel_queue_def)
qed

end
