(* ===== verification/CK_Ipc_Create.thy ===== *)
theory CK_Ipc_Create
  imports CK_Ipc_Inv
begin

text \<open>
  Creation of channels. Channels and nodes are larger than the largest slab object, so each takes
  a block of pages from the frame allocator; distinct blocks keep the nodes of all channels apart.
\<close>

section \<open>Large allocations\<close>

definition caches_small :: "'a slab_state_scheme \<Rightarrow> bool" where
  "caches_small s \<longleftrightarrow> (\<forall>c \<in> set (take (unat (g_cache_count s)) (g_caches s)). c_object_size c \<le> MAX_OBJECT_SIZE)"

lemma find_cache_none: "(\<And>c. c \<in> set cs \<Longrightarrow> c_object_size c < sz) \<Longrightarrow> find_cache sz cs i = None"
  by (induction cs arbitrary: i) (auto simp: not_le)

lemma kmalloc_large:
  assumes "caches_small s" "sz = sizeof_ipc_node_t \<or> sz = sizeof_ipc_channel_t"
  shows "kmalloc calloc sz s = Some (alloc_pages 2 0 s)"
proof -
  have g: "MAX_OBJECT_SIZE < sz" using assms(2)
    by (auto simp: sizeof_ipc_node_t_def sizeof_ipc_channel_t_def MAX_OBJECT_SIZE_def PAGE_SIZE_def)
  then have f: "find_cache sz (take (unat (g_cache_count s)) (g_caches s)) 0 = None"
    using assms(1) by (intro find_cache_none) (auto simp: caches_small_def)
  have u: "unat (sz + PAGE_SIZE) \<in> {8248, 12376}" using assms(2)
    by (auto simp: sizeof_ipc_node_t_def sizeof_ipc_channel_t_def PAGE_SIZE_def)
  then obtain n where n: "kmalloc_order (sz + PAGE_SIZE) 0 = Some n" "unat (sz + PAGE_SIZE) \<le> 2 ^ n * 4096"
      "\<forall>j < n. 2 ^ j * 4096 < unat (sz + PAGE_SIZE)"
    using kmalloc_order_run [of "sz + PAGE_SIZE" 0] by auto
  have "\<not> 2 < n" using n(3) u by auto
  moreover have "n \<noteq> 0" by (rule notI) (use n(2) u in auto)
  moreover have "n \<noteq> 1" by (rule notI) (use n(2) u in auto)
  ultimately have "n = 2" by simp
  with n(1) have "kmalloc_order (sz + PAGE_SIZE) 0 = Some 2" by simp
  then show ?thesis using f g by (simp add: kmalloc_def)
qed

lemma alloc_pages_fields:
  "alloc_pages k z s = (p, s') \<Longrightarrow> s' = s\<lparr>g_zones := g_zones s', g_free_pages := g_free_pages s'\<rparr>"
  using alloc_pages_zone_fields by (auto simp: alloc_pages_def Let_def)

lemma alloc_pages_ipc:
  fixes s :: "'a ipc_state_scheme"
  assumes "alloc_pages k z s = (p, s')"
  shows "g_channels s' = g_channels s" "g_channel_counter s' = g_channel_counter s" "ipc_channels s' = ipc_channels s"
    "ipc_nodes s' = ipc_nodes s" "caches_small s' = caches_small s"
proof -
  note f = alloc_pages_fields [OF assms]
  show "g_channels s' = g_channels s" "g_channel_counter s' = g_channel_counter s" "ipc_channels s' = ipc_channels s"
    "ipc_nodes s' = ipc_nodes s" "caches_small s' = caches_small s"
    unfolding caches_small_def by (subst f, simp)+
qed

text \<open>A block of four pages: fresh, and no longer free afterwards.\<close>

lemma alloc_four:
  assumes "frame_inv s" "alloc_pages 2 0 s = (p, s')"
  shows "frame_inv s'" "free_pfns s' \<subseteq> free_pfns s" "p \<noteq> 0 \<Longrightarrow> pfn p \<in> free_pfns s \<and> pfn p \<notin> free_pfns s'"
proof -
  note r = alloc_pages_run [OF assms(1) _ assms(2) refl]
  have o: "(2 :: u64) < NR_FREE_AREA" by (simp add: NR_FREE_AREA_def)
  show "frame_inv s'" "free_pfns s' \<subseteq> free_pfns s" using r [OF o] by (auto split: if_splits)
  have i: "pfn p \<in> pages p 2" by (simp add: pages_def)
  show "p \<noteq> 0 \<Longrightarrow> pfn p \<in> free_pfns s \<and> pfn p \<notin> free_pfns s'"
    using r [OF o] i zone_pfns_subset [of 0 s] by (auto split: if_splits)
qed

section \<open>The nodes of a new channel\<close>

definition nodes_ok :: "ptr list \<Rightarrow> (ptr \<Rightarrow> ipc_node_t) \<Rightarrow> nat set \<Rightarrow> bool" where
  "nodes_ok ns H F \<longleftrightarrow> length ns = 1024 \<and> distinct (filter (\<lambda>n. n \<noteq> 0) ns) \<and>
     (\<forall>n \<in> set ns. n \<noteq> 0 \<longrightarrow> n_magic (H n) = IPC_MAGIC \<and> pfn n \<notin> F)"

lemma nodes_ok_mono:
  assumes "nodes_ok ns H F" "F' \<subseteq> F" "\<And>n. n \<in> set ns \<Longrightarrow> n \<noteq> 0 \<Longrightarrow> H' n = H n"
  shows "nodes_ok ns H' F'"
  using assms by (auto simp: nodes_ok_def)

lemma distinct_filter_update:
  assumes "distinct (filter P xs)" "x \<notin> set xs"
  shows "distinct (filter P (xs[i := x]))"
  using assms
proof (induction xs arbitrary: i)
  case (Cons y ys)
  show ?case
  proof (cases i)
    case (Suc j)
    have "y \<notin> set (filter P (ys[j := x]))" if "P y"
      using Cons.prems that set_update_subset_insert [of ys j x] by auto
    moreover have "distinct (filter P (ys[j := x]))" using Cons by (auto split: if_splits)
    ultimately show ?thesis using Suc by simp
  qed (use Cons.prems in \<open>auto split: if_splits\<close>)
qed simp

lemma nodes_ok_update:
  assumes "nodes_ok ns H F" "p \<noteq> 0" "pfn p \<in> F" "F' \<subseteq> F" "pfn p \<notin> F'" "n_magic v = IPC_MAGIC"
  shows "nodes_ok (ns[i := p]) (H(p := v)) F'"
proof -
  have "p \<notin> set ns" using assms(1-3) by (auto simp: nodes_ok_def)
  then show ?thesis using assms distinct_filter_update [of _ ns p i] set_update_subset_insert [of ns i p]
    by (auto simp: nodes_ok_def)
qed

lemma ipc_frame_cong [simp]:
  "frame_inv (set_channel ch c s) = frame_inv s" "free_pfns (set_channel ch c s) = free_pfns s"
  "frame_inv (set_node n v s) = frame_inv s" "free_pfns (set_node n v s) = free_pfns s"
  "caches_small (set_channel ch c s) = caches_small s" "caches_small (set_node n v s) = caches_small s"
proof -
  have "g_zones (set_channel ch c s) = g_zones s" "mem (set_channel ch c s) = mem s"
    "g_zones (set_node n v s) = g_zones s" "mem (set_node n v s) = mem s"
    by (simp_all add: set_channel_def set_node_def)
  note f = frame_cong [OF this(1,2)] frame_cong [OF this(3,4)]
  show "frame_inv (set_channel ch c s) = frame_inv s" "free_pfns (set_channel ch c s) = free_pfns s"
    "frame_inv (set_node n v s) = frame_inv s" "free_pfns (set_node n v s) = free_pfns s" by (simp_all add: f)
  show "caches_small (set_channel ch c s) = caches_small s" "caches_small (set_node n v s) = caches_small s"
    by (simp_all add: caches_small_def set_channel_def set_node_def)
qed

lemma set_channel_rest [simp]:
  "g_channels (set_channel ch c s) = g_channels s" "g_channel_counter (set_channel ch c s) = g_channel_counter s"
  "g_channels (set_node n v s) = g_channels s" "g_channel_counter (set_node n v s) = g_channel_counter s"
  by (simp_all add: set_channel_def set_node_def)

text \<open>What the loop changes: it takes free pages and writes nodes on them.\<close>

definition grows :: "ptr \<Rightarrow> 'a ipc_state_scheme \<Rightarrow> 'a ipc_state_scheme \<Rightarrow> bool" where
  "grows ch s s' \<longleftrightarrow> frame_inv s' \<and> caches_small s' \<and> free_pfns s' \<subseteq> free_pfns s \<and>
     g_channels s' = g_channels s \<and> g_channel_counter s' = g_channel_counter s \<and>
     (\<forall>c. c \<noteq> ch \<longrightarrow> ipc_channels s' c = ipc_channels s c) \<and>
     (\<exists>ns. ipc_channels s' ch = (ipc_channels s ch)\<lparr>ch_nodes := ns\<rparr> \<and>
        (\<forall>n \<in> set ns. n = 0 \<or> n \<in> set (ch_nodes (ipc_channels s ch)) \<or> pfn n \<in> free_pfns s)) \<and>
     (\<forall>n. pfn n \<notin> free_pfns s \<longrightarrow> ipc_nodes s' n = ipc_nodes s n)"

lemma grows_refl: "frame_inv s \<Longrightarrow> caches_small s \<Longrightarrow> grows ch s s"
  by (auto simp: grows_def intro!: exI [of _ "ch_nodes (ipc_channels s ch)"])

lemma grows_trans:
  assumes "grows ch s t" "grows ch t u"
  shows "grows ch s u"
proof -
  obtain ns where ns: "ipc_channels t ch = (ipc_channels s ch)\<lparr>ch_nodes := ns\<rparr>"
      "\<And>n. n \<in> set ns \<Longrightarrow> n = 0 \<or> n \<in> set (ch_nodes (ipc_channels s ch)) \<or> pfn n \<in> free_pfns s"
    using assms(1) unfolding grows_def by blast
  obtain ms where ms: "ipc_channels u ch = (ipc_channels t ch)\<lparr>ch_nodes := ms\<rparr>"
      "\<And>n. n \<in> set ms \<Longrightarrow> n = 0 \<or> n \<in> set (ch_nodes (ipc_channels t ch)) \<or> pfn n \<in> free_pfns t"
    using assms(2) unfolding grows_def by blast
  have sub: "free_pfns t \<subseteq> free_pfns s" using assms(1) by (simp add: grows_def)
  have "n = 0 \<or> n \<in> set (ch_nodes (ipc_channels s ch)) \<or> pfn n \<in> free_pfns s" if "n \<in> set ms" for n
    using ms(2) [OF that] ns sub by auto
  moreover have "ipc_channels u ch = (ipc_channels s ch)\<lparr>ch_nodes := ms\<rparr>" using ms(1) ns(1) by simp
  ultimately show ?thesis using assms sub unfolding grows_def by (auto 4 3)
qed

lemma create_nodes_run:
  assumes "frame_inv s" "caches_small s" "nodes_ok (ch_nodes (ipc_channels s ch)) (ipc_nodes s) (free_pfns s)"
    "\<And>j. i \<le> j \<Longrightarrow> j < 1024 \<Longrightarrow> ch_nodes (ipc_channels s ch) ! j = 0" "i + n = 1024"
  shows "\<exists>s'. create_nodes calloc ch i n s = Some s' \<and> grows ch s s' \<and>
    nodes_ok (ch_nodes (ipc_channels s' ch)) (ipc_nodes s') (free_pfns s')"
  using assms
proof (induction n arbitrary: i s)
  case 0
  then show ?case using grows_refl by auto
next
  case (Suc n)
  obtain p s1 where a: "alloc_pages 2 0 s = (p, s1)" by (cases "alloc_pages 2 0 s")
  note f = alloc_four [OF Suc.prems(1) a] and e = alloc_pages_ipc [OF a]
  define c where "c = ipc_channels s ch"
  define s2 where "s2 = set_channel ch (c\<lparr>ch_nodes := (ch_nodes c)[i := p]\<rparr>) s1"
  define s3 where "s3 = (if p \<noteq> 0 then set_node p (node_zero\<lparr>n_magic := IPC_MAGIC\<rparr>) s2 else s2)"
  have r: "create_nodes calloc ch i (Suc n) s = create_nodes calloc ch (Suc i) n s3"
    using kmalloc_large [OF Suc.prems(2)] a e by (simp add: s3_def s2_def c_def Let_def)
  have k: "nodes_ok ((ch_nodes c)[i := p]) (ipc_nodes s3) (free_pfns s1)"
  proof (cases "p = 0")
    case True
    have "ch_nodes c ! i = 0" using Suc.prems(4) [of i] Suc.prems(5) by (simp add: c_def)
    then have "(ch_nodes c)[i := p] = ch_nodes c" using True list_update_id [of "ch_nodes c" i] by simp
    then show ?thesis using Suc.prems(3) f(2) True e by (auto simp: s3_def s2_def c_def intro: nodes_ok_mono)
  next
    case False
    then show ?thesis
      using nodes_ok_update [OF Suc.prems(3) False, of "free_pfns s1" "node_zero\<lparr>n_magic := IPC_MAGIC\<rparr>" i] f e
      by (simp add: s3_def s2_def c_def)
  qed
  have z: "ipc_channels s3 ch = c\<lparr>ch_nodes := (ch_nodes c)[i := p]\<rparr>" "free_pfns s3 = free_pfns s1"
    "frame_inv s3" "caches_small s3"
    using f(1) e Suc.prems(2) by (simp_all add: s3_def s2_def)
  have g: "grows ch s s3" using z f e Suc.prems(2) set_update_subset_insert [of "ch_nodes c" i p] unfolding grows_def
    by (intro conjI exI [of _ "(ch_nodes c)[i := p]"]) (auto simp: s3_def s2_def c_def)
  have k3: "nodes_ok (ch_nodes (ipc_channels s3 ch)) (ipc_nodes s3) (free_pfns s3)" using k z by simp
  have zr: "ch_nodes (ipc_channels s3 ch) ! j = 0" if "Suc i \<le> j" "j < 1024" for j
    using that Suc.prems(4) z(1) by (simp add: c_def)
  obtain s' where "create_nodes calloc ch (Suc i) n s3 = Some s'" "grows ch s3 s'"
      "nodes_ok (ch_nodes (ipc_channels s' ch)) (ipc_nodes s') (free_pfns s')"
    using Suc.IH [of s3 "Suc i", OF z(3,4) k3 zr] Suc.prems(5) by auto
  then show ?case using r grows_trans [OF g] by auto
qed

section \<open>All channels\<close>

definition ipc_inv :: "'a ipc_state_scheme \<Rightarrow> bool" where
  "ipc_inv s \<longleftrightarrow> frame_inv s \<and> caches_small s \<and> length (g_channels s) = 1024 \<and>
     (\<forall>c \<in> set (g_channels s). c \<noteq> 0 \<longrightarrow> channel_wf c s \<and> pfn c \<notin> free_pfns s \<and>
        nodes_ok (ch_nodes (ipc_channels s c)) (ipc_nodes s) (free_pfns s)) \<and>
     (\<forall>c \<in> set (g_channels s). \<forall>d \<in> set (g_channels s). c \<noteq> 0 \<longrightarrow> d \<noteq> 0 \<longrightarrow> c \<noteq> d \<longrightarrow>
        set (ch_nodes (ipc_channels s c)) \<inter> set (ch_nodes (ipc_channels s d)) \<subseteq> {0})"

lemma chan_wf_nodes:
  assumes "chan_wf H c" "\<And>n. n \<in> set (ch_nodes c) \<Longrightarrow> n \<noteq> 0 \<Longrightarrow> H' n = H n"
  shows "chan_wf H' c" "queue_of H' c = queue_of H c"
proof -
  show "chan_wf H' c" using assms by (auto simp: chan_wf_def)
  show "queue_of H' c = queue_of H c" unfolding queue_of_def
  proof (rule ring_update_other)
    fix i assume i: "i < ring_len 1024 (unat (ch_head c)) (unat (ch_tail c))"
    let ?j = "(unat (ch_head c) + i) mod 1024"
    have "ch_nodes c ! ?j \<in> set (ch_nodes c)" using assms(1) by (simp add: chan_wf_def)
    then show "slot_message H' c ?j = slot_message H c ?j" using assms i by (simp add: chan_wf_def slot_message_def)
  qed
qed

text \<open>A new channel next to the old ones.\<close>

lemma ipc_inv_add:
  assumes inv: "ipc_inv s" and g: "grows ch t s'" and ch: "ch \<noteq> 0" "pfn ch \<in> free_pfns s" "pfn ch \<notin> free_pfns t"
    and t0: "free_pfns t \<subseteq> free_pfns s" "g_channels t = g_channels s" "ipc_nodes t = ipc_nodes s"
      "\<And>c. c \<noteq> ch \<Longrightarrow> ipc_channels t c = ipc_channels s c" "set (ch_nodes (ipc_channels t ch)) \<subseteq> {0}"
    and k: "nodes_ok (ch_nodes (ipc_channels s' ch)) (ipc_nodes s') (free_pfns s')" and w: "channel_wf ch s'"
  shows "ipc_inv (s'\<lparr>g_channels := (g_channels s')[i := ch]\<rparr>)"
proof -
  let ?s = "s'\<lparr>g_channels := (g_channels s')[i := ch]\<rparr>"
  have f: "frame_inv ?s = frame_inv s'" "free_pfns ?s = free_pfns s'" "caches_small ?s = caches_small s'"
    using frame_cong [of ?s s'] by (simp_all add: caches_small_def)
  have cw: "channel_wf c ?s = channel_wf c s'" for c by (simp add: channel_wf_def)
  obtain ns where ns: "ch_nodes (ipc_channels s' ch) = ns"
      "\<And>n. n \<in> set ns \<Longrightarrow> n = 0 \<or> pfn n \<in> free_pfns s"
    using g t0 unfolding grows_def by fastforce
  have old: "c \<noteq> ch \<and> ipc_channels s' c = ipc_channels s c \<and> channel_wf c s' \<and> pfn c \<notin> free_pfns s' \<and>
      nodes_ok (ch_nodes (ipc_channels s c)) (ipc_nodes s') (free_pfns s') \<and> set (ch_nodes (ipc_channels s c)) \<inter> set ns \<subseteq> {0}"
    if c: "c \<in> set (g_channels s)" "c \<noteq> 0" for c
  proof -
    have i: "channel_wf c s" "pfn c \<notin> free_pfns s" "nodes_ok (ch_nodes (ipc_channels s c)) (ipc_nodes s) (free_pfns s)"
      using inv c by (auto simp: ipc_inv_def)
    have ne: "c \<noteq> ch" using i(2) ch(2) by auto
    then have e: "ipc_channels s' c = ipc_channels s c" using g t0(4) by (simp add: grows_def)
    have fs: "free_pfns s' \<subseteq> free_pfns s" using g t0(1) by (auto simp: grows_def)
    have nn: "ipc_nodes s' n = ipc_nodes s n" if "n \<in> set (ch_nodes (ipc_channels s c))" "n \<noteq> 0" for n
      using that i(3) g t0(1,3) by (auto simp: nodes_ok_def grows_def)
    have "chan_wf (ipc_nodes s') (ipc_channels s c)"
      by (rule chan_wf_nodes(1)) (use i(1) nn in \<open>auto simp: channel_wf_def\<close>)
    moreover have "nodes_ok (ch_nodes (ipc_channels s c)) (ipc_nodes s') (free_pfns s')" by (rule nodes_ok_mono [OF i(3) fs nn])
    moreover have "set (ch_nodes (ipc_channels s c)) \<inter> set ns \<subseteq> {0}" using i(3) ns(2) by (auto simp: nodes_ok_def)
    ultimately show ?thesis using ne e fs i(1,2) by (auto simp: channel_wf_def)
  qed
  have sub: "set ((g_channels s')[i := ch]) \<subseteq> insert ch (set (g_channels s))"
    using g t0(2) set_update_subset_insert [of "g_channels s" i ch] by (simp add: grows_def)
  have pc: "pfn ch \<notin> free_pfns s'" using g ch(3) by (auto simp: grows_def)
  have each: "channel_wf c ?s \<and> pfn c \<notin> free_pfns ?s \<and> nodes_ok (ch_nodes (ipc_channels ?s c)) (ipc_nodes ?s) (free_pfns ?s)"
    if "c \<in> set (g_channels ?s)" "c \<noteq> 0" for c
  proof (cases "c = ch")
    case True
    then show ?thesis using w k pc by (simp add: f cw)
  next
    case False
    then have "c \<in> set (g_channels s)" using that(1) sub by auto
    then show ?thesis using old [of c] that(2) by (auto simp: f cw)
  qed
  have pair: "set (ch_nodes (ipc_channels ?s c)) \<inter> set (ch_nodes (ipc_channels ?s d)) \<subseteq> {0}"
    if "c \<in> set (g_channels ?s)" "d \<in> set (g_channels ?s)" "c \<noteq> 0" "d \<noteq> 0" "c \<noteq> d" for c d
  proof -
    have cd: "c = ch \<or> c \<in> set (g_channels s)" "d = ch \<or> d \<in> set (g_channels s)" using that sub by auto
    have "set (ch_nodes (ipc_channels s c)) \<inter> set (ch_nodes (ipc_channels s d)) \<subseteq> {0}"
      if "c \<in> set (g_channels s)" "d \<in> set (g_channels s)" using inv that \<open>c \<noteq> 0\<close> \<open>d \<noteq> 0\<close> \<open>c \<noteq> d\<close> by (auto simp: ipc_inv_def)
    then show ?thesis using cd old [of c] old [of d] that(3-5) ns(1) by (auto simp: Int_commute)
  qed
  show ?thesis using inv g each pair t0(2) unfolding ipc_inv_def f by (simp add: grows_def)
qed

lemma channel_zero_facts: "ch_nodes channel_zero = replicate 1024 0" "ch_head channel_zero = 0" "ch_tail channel_zero = 0"
  by (simp_all add: channel_zero_def IPC_QUEUE_SIZE_def)

lemma ipc_channel_create_run:
  assumes inv: "ipc_inv s"
  shows "\<exists>ch s'. ipc_channel_create calloc a b now s = Some (ch, s') \<and> ipc_inv s' \<and>
    g_channel_counter s' = g_channel_counter s + 1 \<and>
    (if ch = 0 then g_channels s' = g_channels s
     else channel_wf ch s' \<and> channel_queue ch s' = [] \<and> ch \<notin> set (g_channels s) \<and>
       unat (ucast (g_channel_counter s + 1) :: u32) < 1024 \<and>
       g_channels s' = (g_channels s)[unat (ucast (g_channel_counter s + 1) :: u32) := ch])"
proof -
  define s1 where "s1 = s\<lparr>g_channel_counter := g_channel_counter s + 1\<rparr>"
  define i where "i = unat (ucast (g_channel_counter s + 1) :: u32)"
  have f1: "frame_inv s1 = frame_inv s" "free_pfns s1 = free_pfns s" "caches_small s1 = caches_small s"
    using frame_cong [of s1 s] by (simp_all add: s1_def caches_small_def)
  have i1: "ipc_inv s1 = ipc_inv s" unfolding ipc_inv_def f1 by (simp add: s1_def channel_wf_def)
  show ?thesis
  proof (cases "MAX_CHANNELS \<le> (ucast (g_channel_counter s + 1) :: u32)")
    case True
    then have "ipc_channel_create calloc a b now s = Some (0, s1)"
      by (simp add: ipc_channel_create_def atomic_inc_def s1_def)
    then show ?thesis using inv i1 by (simp add: s1_def)
  next
    case False
    then have i: "i < 1024" by (simp add: MAX_CHANNELS_def word_le_nat_alt i_def)
    obtain ch s2 where a: "alloc_pages 2 0 s1 = (ch, s2)" by (cases "alloc_pages 2 0 s1")
    have fi: "frame_inv s1" "caches_small s1" using inv f1 by (auto simp: ipc_inv_def)
    note f = alloc_four [OF fi(1) a] and e = alloc_pages_ipc [OF a]
    have km: "kmalloc calloc sizeof_ipc_channel_t s1 = Some (ch, s2)" using kmalloc_large [OF fi(2)] a by simp
    show ?thesis
    proof (cases "ch = 0")
      case True
      then have "s2 = s1" using alloc_pages_run [OF fi(1) _ a refl] by (simp add: NR_FREE_AREA_def)
      then have "ipc_channel_create calloc a b now s = Some (0, s1)"
        using False km True by (simp add: ipc_channel_create_def atomic_inc_def s1_def [symmetric])
      then show ?thesis using inv i1 by (simp add: s1_def)
    next
      case nz: False
      define c where "c = channel_zero\<lparr>ch_sender_id := a, ch_receiver_id := b, ch_head := atomic_set 0, ch_tail := atomic_set 0,
        rate_limit := 1000, quota_remaining := 10000, quota_reset_time := now + 1000, ch_refcount := 1\<rparr>"
      define s0 where "s0 = set_channel ch c s2"
      have c: "ch_nodes c = replicate 1024 0" "ch_head c = 0" "ch_tail c = 0" by (simp_all add: c_def channel_zero_facts atomic_set_def)
      have k0: "nodes_ok (ch_nodes (ipc_channels s0 ch)) (ipc_nodes s0) (free_pfns s0)"
        by (simp add: s0_def c nodes_ok_def)
      have p0: "frame_inv s0" "caches_small s0" using f(1) e(5) fi by (simp_all add: s0_def)
      obtain s3 where s3: "create_nodes calloc ch 0 1024 s0 = Some s3" "grows ch s0 s3"
          "nodes_ok (ch_nodes (ipc_channels s3 ch)) (ipc_nodes s3) (free_pfns s3)"
        using create_nodes_run [OF p0 k0, of 0 1024] by (auto simp: s0_def c)
      obtain ns where ns: "ipc_channels s3 ch = c\<lparr>ch_nodes := ns\<rparr>" using s3(2) by (auto simp: grows_def s0_def)
      have cw: "chan_wf (ipc_nodes s3) (ipc_channels s3 ch)" "queue_of (ipc_nodes s3) (ipc_channels s3 ch) = []"
        using s3(3) ns c by (auto simp: chan_wf_def nodes_ok_def queue_of_def ring_def ring_len_def)
      have r: "ipc_channel_create calloc a b now s = Some (ch, s3\<lparr>g_channels := (g_channels s3)[i := ch]\<rparr>)"
        using False km nz s3(1)
        by (simp add: ipc_channel_create_def atomic_inc_def s1_def [symmetric] c_def [symmetric] s0_def [symmetric] IPC_QUEUE_SIZE_def i_def)
      have v: "ipc_inv (s3\<lparr>g_channels := (g_channels s3)[i := ch]\<rparr>)"
        by (rule ipc_inv_add [where s = s1 and t = s0])
          (use i1 inv s3 nz f(2) f(3) [OF nz] e cw c in \<open>auto simp: s0_def channel_wf_def\<close>)
      have "ch \<notin> set (g_channels s)" using inv f(3) [OF nz] f1 nz by (auto simp: ipc_inv_def)
      moreover have "g_channels s3 = g_channels s" "g_channel_counter s3 = g_channel_counter s + 1"
        using s3(2) e by (auto simp: grows_def s0_def s1_def)
      ultimately show ?thesis using r v nz cw i by (auto simp: channel_wf_def channel_queue_def i_def)
    qed
  qed
qed

end
