(* ===== verification/CK_Ipc_Steps.thy ===== *)
theory CK_Ipc_Steps
  imports CK_Ipc_Inv
begin

text \<open>
  Senders and one receiver on a channel, interleaved. Each step of the relation is one access of
  \<open>ipc_send\<close> or \<open>ipc_receive\<close> to data the other side uses; accesses to fields only one side
  uses belong to the step before. Memory is sequentially consistent, as the fences of the code
  intend. With one sender the ring is a queue; with two, a message that both sides report as sent
  can be lost.
\<close>

section \<open>Steps\<close>

datatype sender_pc =
    S_idle
  | S_tail ipc_message_t u64 u32
  | S_free ipc_message_t u64 u32
  | S_copied ipc_message_t u32

datatype receiver_pc =
    R_idle
  | R_head u32
  | R_some u32
  | R_copied u32 ipc_message_t

record conc =
  kst :: ipc_state
  senders :: "nat \<Rightarrow> sender_pc"
  recv_pc :: receiver_pc
  accepted :: "ipc_message_t list"
  delivered :: "ipc_message_t list"
  sent_codes :: "int list"
  recv_codes :: "int list"

definition set_sender :: "nat \<Rightarrow> sender_pc \<Rightarrow> ipc_state \<Rightarrow> conc \<Rightarrow> conc" where
  "set_sender p pc s k = k\<lparr>kst := s, senders := (senders k)(p := pc)\<rparr>"

text \<open>\<open>accepted\<close> and \<open>delivered\<close> record the messages of the calls that returned \<open>CK_SUCCESS\<close>,
  \<open>sent_codes\<close> and \<open>recv_codes\<close> what every call returned, each in the order of the returns.\<close>

definition send_returns :: "int \<Rightarrow> conc \<Rightarrow> conc" where
  "send_returns r k = k\<lparr>sent_codes := sent_codes k @ [r]\<rparr>"

definition recv_returns :: "int \<Rightarrow> conc \<Rightarrow> conc" where
  "recv_returns r k = k\<lparr>recv_pc := R_idle, recv_codes := recv_codes k @ [r]\<rparr>"

text \<open>\<open>n\<close> is the number of senders, \<open>ch\<close> the channel.\<close>

inductive ipc_step :: "nat \<Rightarrow> ptr \<Rightarrow> conc \<Rightarrow> conc \<Rightarrow> bool" for n ch where
  send_busy: "p < n \<Longrightarrow> senders k p = S_idle \<Longrightarrow> c1 = quota_refill now (ipc_channels (kst k) ch) \<Longrightarrow>
    quota_remaining c1 = 0 \<Longrightarrow>
    ipc_step n ch k (send_returns CK_ERROR_BUSY (set_sender p S_idle (set_channel ch (drop_message c1) (kst k)) k))"
| send_tail: "p < n \<Longrightarrow> senders k p = S_idle \<Longrightarrow> c1 = quota_refill now (ipc_channels (kst k) ch) \<Longrightarrow>
    quota_remaining c1 \<noteq> 0 \<Longrightarrow> c2 = take_quota c1 \<Longrightarrow>
    ipc_step n ch k (set_sender p (S_tail m now (load_tail c2)) (set_channel ch c2 (kst k)) k)"
| send_full: "p < n \<Longrightarrow> senders k p = S_tail m now tail \<Longrightarrow> queue_full tail (ipc_channels (kst k) ch) \<Longrightarrow>
    ipc_step n ch k (send_returns CK_ERROR_OVERFLOW
      (set_sender p S_idle (set_channel ch (drop_message (ipc_channels (kst k) ch)) (kst k)) k))"
| send_free: "p < n \<Longrightarrow> senders k p = S_tail m now tail \<Longrightarrow> \<not> queue_full tail (ipc_channels (kst k) ch) \<Longrightarrow>
    ipc_step n ch k (set_sender p (S_free m now tail) (kst k) k)"
| send_no_node: "p < n \<Longrightarrow> senders k p = S_free m now tail \<Longrightarrow> node_at tail (ipc_channels (kst k) ch) = Some node \<Longrightarrow>
    \<not> node_valid node (kst k) \<Longrightarrow> ipc_step n ch k (send_returns CK_ERROR_NO_MEMORY (set_sender p S_idle (kst k) k))"
| send_copy: "p < n \<Longrightarrow> senders k p = S_free m now tail \<Longrightarrow> node_at tail (ipc_channels (kst k) ch) = Some node \<Longrightarrow>
    node_valid node (kst k) \<Longrightarrow>
    ipc_step n ch k (set_sender p (S_copied m tail) (copy_in node m now (kst k)) k)"
| send_publish: "p < n \<Longrightarrow> senders k p = S_copied m tail \<Longrightarrow>
    ipc_step n ch k (send_returns CK_SUCCESS
      ((set_sender p S_idle (publish_tail ch tail (kst k)) k)\<lparr>accepted := accepted k @ [m]\<rparr>))"
| recv_head: "recv_pc k = R_idle \<Longrightarrow>
    ipc_step n ch k (k\<lparr>recv_pc := R_head (load_head (ipc_channels (kst k) ch))\<rparr>)"
| recv_empty: "recv_pc k = R_head head \<Longrightarrow> head = load_tail (ipc_channels (kst k) ch) \<Longrightarrow>
    ipc_step n ch k (recv_returns CK_ERROR_NOT_FOUND k)"
| recv_some: "recv_pc k = R_head head \<Longrightarrow> head \<noteq> load_tail (ipc_channels (kst k) ch) \<Longrightarrow>
    ipc_step n ch k (k\<lparr>recv_pc := R_some head\<rparr>)"
| recv_no_node: "recv_pc k = R_some head \<Longrightarrow> node_at head (ipc_channels (kst k) ch) = Some node \<Longrightarrow>
    \<not> node_valid node (kst k) \<Longrightarrow> ipc_step n ch k (recv_returns CK_ERROR k)"
| recv_copy: "recv_pc k = R_some head \<Longrightarrow> node_at head (ipc_channels (kst k) ch) = Some node \<Longrightarrow>
    node_valid node (kst k) \<Longrightarrow>
    ipc_step n ch k (k\<lparr>recv_pc := R_copied head (n_message (ipc_nodes (kst k) node))\<rparr>)"
| recv_publish: "recv_pc k = R_copied head m \<Longrightarrow>
    ipc_step n ch k (recv_returns CK_SUCCESS (k\<lparr>kst := publish_head ch head (kst k), delivered := delivered k @ [m]\<rparr>))"

definition conc_init :: "ipc_state \<Rightarrow> conc" where
  "conc_init s = \<lparr>kst = s, senders = (\<lambda>_. S_idle), recv_pc = R_idle, accepted = [], delivered = [],
     sent_codes = [], recv_codes = []\<rparr>"

lemma set_sender_simps [simp]:
  "kst (set_sender p pc s k) = s" "senders (set_sender p pc s k) = (senders k)(p := pc)"
  "recv_pc (set_sender p pc s k) = recv_pc k" "accepted (set_sender p pc s k) = accepted k"
  "delivered (set_sender p pc s k) = delivered k" "sent_codes (set_sender p pc s k) = sent_codes k"
  "recv_codes (set_sender p pc s k) = recv_codes k"
  by (simp_all add: set_sender_def)

lemma send_returns_simps [simp]:
  "kst (send_returns r k) = kst k" "senders (send_returns r k) = senders k" "recv_pc (send_returns r k) = recv_pc k"
  "accepted (send_returns r k) = accepted k" "delivered (send_returns r k) = delivered k"
  "sent_codes (send_returns r k) = sent_codes k @ [r]" "recv_codes (send_returns r k) = recv_codes k"
  by (simp_all add: send_returns_def)

lemma recv_returns_simps [simp]:
  "kst (recv_returns r k) = kst k" "senders (recv_returns r k) = senders k" "recv_pc (recv_returns r k) = R_idle"
  "accepted (recv_returns r k) = accepted k" "delivered (recv_returns r k) = delivered k"
  "sent_codes (recv_returns r k) = sent_codes k" "recv_codes (recv_returns r k) = recv_codes k @ [r]"
  by (simp_all add: recv_returns_def)

lemma conc_init_simps [simp]:
  "kst (conc_init s) = s" "senders (conc_init s) = (\<lambda>_. S_idle)" "recv_pc (conc_init s) = R_idle"
  "accepted (conc_init s) = []" "delivered (conc_init s) = []" "sent_codes (conc_init s) = []" "recv_codes (conc_init s) = []"
  by (simp_all add: conc_init_def)

section \<open>One sender\<close>

fun sender_ok :: "ptr \<Rightarrow> ipc_state \<Rightarrow> sender_pc \<Rightarrow> bool" where
  "sender_ok ch s S_idle \<longleftrightarrow> True"
| "sender_ok ch s (S_tail m now tail) \<longleftrightarrow> tail = load_tail (ipc_channels s ch)"
| "sender_ok ch s (S_free m now tail) \<longleftrightarrow> tail = load_tail (ipc_channels s ch) \<and> \<not> queue_full tail (ipc_channels s ch)"
| "sender_ok ch s (S_copied m tail) \<longleftrightarrow> tail = load_tail (ipc_channels s ch) \<and> \<not> queue_full tail (ipc_channels s ch) \<and>
     ch_nodes (ipc_channels s ch) ! unat tail \<noteq> 0 \<and> slot_message (ipc_nodes s) (ipc_channels s ch) (unat tail) = m"

fun receiver_ok :: "ptr \<Rightarrow> ipc_state \<Rightarrow> receiver_pc \<Rightarrow> bool" where
  "receiver_ok ch s R_idle \<longleftrightarrow> True"
| "receiver_ok ch s (R_head head) \<longleftrightarrow> head = load_head (ipc_channels s ch)"
| "receiver_ok ch s (R_some head) \<longleftrightarrow> head = load_head (ipc_channels s ch) \<and> channel_queue ch s \<noteq> []"
| "receiver_ok ch s (R_copied head m) \<longleftrightarrow> head = load_head (ipc_channels s ch) \<and> (\<exists>ms. channel_queue ch s = m # ms)"

definition spsc_inv :: "ptr \<Rightarrow> conc \<Rightarrow> bool" where
  "spsc_inv ch k \<longleftrightarrow> channel_wf ch (kst k) \<and> sender_ok ch (kst k) (senders k 0) \<and> receiver_ok ch (kst k) (recv_pc k) \<and>
     accepted k = delivered k @ channel_queue ch (kst k)"

lemma spsc_returns [simp]:
  "spsc_inv ch (send_returns r k) = spsc_inv ch k"
  "spsc_inv ch (recv_returns r k) = spsc_inv ch (k\<lparr>recv_pc := R_idle\<rparr>)"
  by (simp_all add: spsc_inv_def)

text \<open>What the steps of one side leave to the other.\<close>

lemma receiver_ok_keep:
  assumes "receiver_ok ch s pc" "load_head (ipc_channels s' ch) = load_head (ipc_channels s ch)"
    and "\<exists>ms. channel_queue ch s' = channel_queue ch s @ ms"
  shows "receiver_ok ch s' pc"
  using assms by (cases pc) auto

lemma sender_ok_keep:
  assumes "sender_ok ch s pc" "ch_nodes (ipc_channels s' ch) = ch_nodes (ipc_channels s ch)"
    "ch_tail (ipc_channels s' ch) = ch_tail (ipc_channels s ch)" "ipc_nodes s' = ipc_nodes s"
    and "\<And>t. t = load_tail (ipc_channels s ch) \<Longrightarrow> \<not> queue_full t (ipc_channels s ch) \<Longrightarrow> \<not> queue_full t (ipc_channels s' ch)"
  shows "sender_ok ch s' pc"
  using assms by (cases pc) (auto simp: load_tail_def slot_message_def)

lemma full_iff_state:
  "channel_wf ch s \<Longrightarrow> queue_full (load_tail (ipc_channels s ch)) (ipc_channels s ch) \<longleftrightarrow> length (channel_queue ch s) = 1023"
  using queue_full_iff by (auto simp: channel_wf_def channel_queue_def)

lemma spsc_set_channel:
  assumes "spsc_inv ch k" "same_ring c (ipc_channels (kst k) ch)" "sender_ok ch (set_channel ch c (kst k)) pc"
  shows "spsc_inv ch (set_sender 0 pc (set_channel ch c (kst k)) k)"
  using assms set_channel_ring [of ch "kst k" c]
    receiver_ok_keep [of ch "kst k" "recv_pc k" "set_channel ch c (kst k)"]
  by (auto simp: spsc_inv_def set_sender_def same_ring_def load_head_def)

lemma spsc_copy:
  assumes "spsc_inv ch k" "senders k 0 = S_free m now tail" "node_at tail (ipc_channels (kst k) ch) = Some node" "node_valid node (kst k)"
  shows "spsc_inv ch (set_sender 0 (S_copied m tail) (copy_in node m now (kst k)) k)"
proof -
  define c where "c = ipc_channels (kst k) ch"
  have w: "channel_wf ch (kst k)" and t: "tail = load_tail c" "\<not> queue_full tail c"
    using assms(1,2) by (auto simp: spsc_inv_def c_def)
  note n = channel_wf_node [OF w, folded c_def] and b = wf_bounds [of "ipc_nodes (kst k)" c]
  have e: "unat tail = unat (ch_tail c)" using w b t by (simp add: channel_wf_def c_def)
  have nd: "node = ch_nodes c ! unat (ch_tail c)" using assms(3) n(1) t by (simp add: c_def)
  note i = copy_in_state [OF w assms(3) [unfolded t(1) c_def] assms(4), of m now]
  have "receiver_ok ch (copy_in node m now (kst k)) (recv_pc k)"
    by (rule receiver_ok_keep [of ch "kst k"]) (use assms(1) i in \<open>auto simp: spsc_inv_def\<close>)
  then show ?thesis using assms(1,4) i t e nd n(3) by (simp add: spsc_inv_def set_sender_def c_def [symmetric])
qed

lemma spsc_publish_tail:
  assumes "spsc_inv ch k" "senders k 0 = S_copied m tail"
  shows "spsc_inv ch ((set_sender 0 S_idle (publish_tail ch tail (kst k)) k)\<lparr>accepted := accepted k @ [m]\<rparr>)"
proof -
  define c where "c = ipc_channels (kst k) ch"
  have w: "channel_wf ch (kst k)" and t: "tail = load_tail c" "\<not> queue_full tail c" "ch_nodes c ! unat tail \<noteq> 0"
    "slot_message (ipc_nodes (kst k)) c (unat tail) = m"
    using assms by (auto simp: spsc_inv_def c_def)
  have e: "unat tail = unat (ch_tail c)" using w wf_bounds [of "ipc_nodes (kst k)" c] t by (simp add: channel_wf_def c_def)
  note p = publish_tail_state [OF w, folded c_def, OF t(2) [unfolded t(1)] t(3) [unfolded e]]
  have "receiver_ok ch (publish_tail ch tail (kst k)) (recv_pc k)"
    by (rule receiver_ok_keep [of ch "kst k"])
      (use assms(1) p t in \<open>auto simp: spsc_inv_def publish_tail_def Let_def load_head_def\<close>)
  then show ?thesis using assms p t e by (simp add: spsc_inv_def set_sender_def)
qed

lemma spsc_publish_head:
  assumes "spsc_inv ch k" "recv_pc k = R_copied head m"
  shows "spsc_inv ch (recv_returns r (k\<lparr>kst := publish_head ch head (kst k), delivered := delivered k @ [m]\<rparr>))"
proof -
  define c where "c = ipc_channels (kst k) ch"
  obtain ms where w: "channel_wf ch (kst k)" and h: "head = load_head c" and q: "channel_queue ch (kst k) = m # ms"
    using assms by (auto simp: spsc_inv_def c_def)
  have "load_head c \<noteq> load_tail c" using q w queue_empty_iff [of "ipc_nodes (kst k)" c]
    by (auto simp: channel_wf_def channel_queue_def c_def)
  note p = publish_head_state [OF w, folded c_def, OF this, folded h]
  let ?s = "publish_head ch head (kst k)"
  have tl: "load_tail (ipc_channels ?s ch) = load_tail c" by (simp add: publish_head_def Let_def load_tail_def c_def)
  have "length (channel_queue ch ?s) < length (channel_queue ch (kst k))" using p(2) by simp
  moreover have "length (channel_queue ch (kst k)) \<le> 1023" by (rule chan.within [OF w])
  ultimately have nf: "\<not> queue_full (load_tail c) (ipc_channels ?s ch)" using full_iff_state [OF p(1)] tl by simp
  have "sender_ok ch ?s (senders k 0)"
    by (rule sender_ok_keep [of ch "kst k"])
      (use assms(1) nf in \<open>auto simp: spsc_inv_def publish_head_def Let_def c_def\<close>)
  then show ?thesis using assms(1) p q by (simp add: spsc_inv_def)
qed

lemma same_ring_load: "same_ring c d \<Longrightarrow> load_tail c = load_tail d"
  by (simp add: same_ring_def load_tail_def)

lemma spsc_step:
  assumes "ipc_step 1 ch k k'" "spsc_inv ch k"
  shows "spsc_inv ch k'"
  using assms(1)
proof cases
  case (send_busy p c1 now)
  have "same_ring (drop_message c1) (ipc_channels (kst k) ch)"
    unfolding send_busy by (rule same_ring_trans [OF quota_same_ring(2) quota_same_ring(1)])
  then show ?thesis using spsc_set_channel [OF assms(2), of _ S_idle] send_busy by simp
next
  case (send_tail p c1 now c2 m)
  have "same_ring c2 (ipc_channels (kst k) ch)"
    unfolding send_tail by (rule same_ring_trans [OF quota_same_ring(3) quota_same_ring(1)])
  then show ?thesis using spsc_set_channel [OF assms(2), of c2] send_tail by simp
next
  case (send_full p m now tail)
  then show ?thesis using spsc_set_channel [OF assms(2) quota_same_ring(2), of S_idle] by simp
next
  case (send_free p m now tail)
  then show ?thesis using assms(2) by (auto simp: spsc_inv_def set_sender_def)
next
  case (send_no_node p m now tail node)
  then show ?thesis using assms(2) by (auto simp: spsc_inv_def set_sender_def)
next
  case (send_copy p m now tail node)
  then show ?thesis using spsc_copy [OF assms(2)] by simp
next
  case (send_publish p m tail)
  then show ?thesis using spsc_publish_tail [OF assms(2)] by simp
next
  case recv_head
  then show ?thesis using assms(2) by (auto simp: spsc_inv_def)
next
  case (recv_empty head)
  then show ?thesis using assms(2) by (auto simp: spsc_inv_def)
next
  case (recv_some head)
  then show ?thesis using assms(2) queue_empty_iff by (auto simp: spsc_inv_def channel_wf_def channel_queue_def)
next
  case (recv_no_node head node)
  then show ?thesis using assms(2) by (auto simp: spsc_inv_def)
next
  case (recv_copy head node)
  have w: "channel_wf ch (kst k)" and h: "head = load_head (ipc_channels (kst k) ch)" "channel_queue ch (kst k) \<noteq> []"
    using assms(2) recv_copy by (auto simp: spsc_inv_def)
  have "load_head (ipc_channels (kst k) ch) \<noteq> load_tail (ipc_channels (kst k) ch)"
    using h(2) w queue_empty_iff by (auto simp: channel_wf_def channel_queue_def)
  then show ?thesis using assms(2) recv_copy publish_head_state [OF w] channel_wf_node(2) [OF w] h
    by (simp add: spsc_inv_def slot_message_def)
next
  case (recv_publish head m)
  then show ?thesis using spsc_publish_head [OF assms(2)] by simp
qed

lemma spsc_reachable:
  assumes "(ipc_step 1 ch)\<^sup>*\<^sup>* k k'" "spsc_inv ch k"
  shows "spsc_inv ch k'"
  using assms by (induction rule: rtranclp_induct) (auto intro: spsc_step)

end
