(* ===== verification/CK_Ipc_Props.thy ===== *)
theory CK_Ipc_Props
  imports CK_Ipc_Create CK_Ipc_Steps
begin

text \<open>
  The properties of message channels: the answers of sending and receiving, first-in first-out
  order for every sequence of operations and every interleaving of one sender with the receiver,
  the loss of messages with two senders, the quota, and the creation and release of channels.
\<close>

section \<open>A channel for the witnesses\<close>

text \<open>Two nodes could be allocated, the others are \<open>NULL\<close>.\<close>

definition demo_channel :: ipc_channel_t where
  "demo_channel = channel_zero\<lparr>ch_nodes := 0x1000000 # 0x1004000 # replicate 1022 0, rate_limit := 1000,
     quota_remaining := 10000, quota_reset_time := 1000, ch_refcount := 1\<rparr>"

definition demo_ipc :: ipc_state where
  "demo_ipc =
     \<lparr>g_zones = replicate 3 zone_zero, g_total_pages = 0, g_free_pages = 0, mem = (\<lambda>_. 0),
      g_kernel_pgd = 0, g_paging_enabled = 0, tlb = (\<lambda>_. None), cr0 = 0, cr3 = 0, cr4 = 0, msr_efer = 0,
      g_caches = [], g_cache_count = 0, slabs = (\<lambda>_. demo_header),
      g_channels = 0 # 0x2000000 # replicate 1022 0, g_channel_counter = 1,
      ipc_channels = (\<lambda>_. demo_channel), ipc_nodes = (\<lambda>_. node_zero\<lparr>n_magic := IPC_MAGIC\<rparr>)\<rparr>"

lemma demo_channel_fields [simp]:
  "ch_head demo_channel = 0" "ch_tail demo_channel = 0" "ch_nodes demo_channel = 0x1000000 # 0x1004000 # replicate 1022 0"
  "quota_remaining demo_channel = 10000" "quota_reset_time demo_channel = 1000" "ch_refcount demo_channel = 1"
  by (simp_all add: demo_channel_def channel_zero_facts)

lemma demo_ipc_fields [simp]:
  "ipc_channels demo_ipc = (\<lambda>_. demo_channel)" "ipc_nodes demo_ipc = (\<lambda>_. node_zero\<lparr>n_magic := IPC_MAGIC\<rparr>)"
  "g_channels demo_ipc = 0 # 0x2000000 # replicate 1022 0" "g_channel_counter demo_ipc = 1" "g_cache_count demo_ipc = 0"
  by (simp_all add: demo_ipc_def)

lemma demo_channel_wf: "ch \<noteq> 0 \<Longrightarrow> channel_wf ch demo_ipc" "channel_queue ch demo_ipc = []"
  by (auto simp: channel_wf_def chan_wf_def channel_queue_def queue_of_def ring_def ring_len_def)

lemma demo_ipc_inv: "ipc_inv demo_ipc"
proof -
  have "g_zones demo_ipc = g_zones (frame_boot (\<lambda>_. 0))" "mem demo_ipc = mem (frame_boot (\<lambda>_. 0))"
    by (simp_all add: demo_ipc_def frame_boot_def)
  note f = frame_cong [OF this]
  show ?thesis using demo_channel_wf by (auto simp: ipc_inv_def f frame_boot_inv caches_small_def nodes_ok_def)
qed

section \<open>Sending and receiving\<close>

text \<open>C15: \<open>ipc_send\<close> on a well-formed channel never leaves the node array; it answers \<open>CK_ERROR_BUSY\<close> exactly when
  the quota is used up, \<open>CK_ERROR_OVERFLOW\<close> exactly when 1023 messages wait, \<open>CK_ERROR_NO_MEMORY\<close> when the
  node could not be allocated, and otherwise appends the message; the channel stays well-formed.\<close>

theorem ipc_send_correct:
  assumes "channel_wf ch s"
  shows "\<exists>s'. ipc_send ch (Some m) now s = Some (send_code (send_case ch now s), s') \<and> channel_wf ch s' \<and>
    channel_queue ch s' = (if send_case ch now s = Sent then channel_queue ch s @ [m] else channel_queue ch s)"
  using assms by (rule ipc_send_cases)

theorem ipc_send_correct_witness:
  "\<exists>s'. ipc_send 0x2000000 (Some message_zero) 5 demo_ipc = Some (CK_SUCCESS, s') \<and>
     channel_queue 0x2000000 s' = [message_zero]"
proof -
  have "send_case 0x2000000 5 demo_ipc = Sent"
    by (simp add: send_case_def demo_channel_wf quota_refill_def)
  then show ?thesis using ipc_send_correct [OF demo_channel_wf(1), of "0x2000000" message_zero 5]
    by (auto simp: demo_channel_wf)
qed

text \<open>\<open>ipc_receive\<close> on a well-formed channel answers \<open>CK_ERROR_NOT_FOUND\<close> without a change when no message
  waits, and otherwise hands out the first waiting message and removes it.\<close>

theorem ipc_receive_correct:
  assumes "channel_wf ch s"
  shows "case channel_queue ch s of
      [] \<Rightarrow> ipc_receive ch (Some b) s = Some (CK_ERROR_NOT_FOUND, Some b, s)
    | m # ms \<Rightarrow> \<exists>s'. ipc_receive ch (Some b) s = Some (CK_SUCCESS, Some m, s') \<and> channel_wf ch s' \<and> channel_queue ch s' = ms"
  using assms by (rule ipc_receive_cases)

theorem ipc_receive_correct_witness:
  "ipc_receive 0x2000000 (Some message_zero) demo_ipc = Some (CK_ERROR_NOT_FOUND, Some message_zero, demo_ipc)"
  using ipc_receive_correct [OF demo_channel_wf(1), of "0x2000000" message_zero] by (simp add: demo_channel_wf)

text \<open>C5: A channel is a first-in first-out queue of at most 1023 messages: for every sequence of sends (with the time of
  each) and receives from an empty channel, the messages received are the messages accepted, in order, except for at
  most 1023 that still wait.\<close>

theorem ipc_fifo:
  assumes "channel_wf ch s" and "channel_queue ch s = []"
    and "run_queue (chan_put ch) (chan_get ch) snd ops s = (ins, outs, s')"
  shows "\<exists>waiting. ins = outs @ waiting \<and> length waiting \<le> 1023"
  using assms by (rule chan.run_prefix)

theorem ipc_fifo_witness:
  "\<exists>ins outs s' waiting. run_queue (chan_put 0x2000000) (chan_get 0x2000000) snd [Put (5, message_zero), Get] demo_ipc = (ins, outs, s') \<and>
     ins = outs @ waiting \<and> length waiting \<le> 1023"
proof -
  obtain ins outs s' where r: "run_queue (chan_put 0x2000000) (chan_get 0x2000000) snd [Put (5, message_zero), Get] demo_ipc = (ins, outs, s')"
    by (metis prod_cases3)
  have "(0x2000000 :: ptr) \<noteq> 0" by simp
  from ipc_fifo [OF demo_channel_wf(1) [OF this] demo_channel_wf(2) r] r show ?thesis by blast
qed

section \<open>Interleavings\<close>

text \<open>C13: With one sender, in every interleaving of its accesses with those of the receiver, the channel stays
  well-formed and the messages the sender was told are sent are the messages delivered followed by the messages that wait.\<close>

theorem ipc_single_sender:
  assumes "channel_wf ch s" and "channel_queue ch s = []" and "(ipc_step 1 ch)\<^sup>*\<^sup>* (conc_init s) k"
  shows "channel_wf ch (kst k) \<and> accepted k = delivered k @ channel_queue ch (kst k)"
proof -
  have "spsc_inv ch (conc_init s)" using assms(1,2) by (simp add: spsc_inv_def conc_init_def)
  then have "spsc_inv ch k" using assms(3) spsc_reachable by blast
  then show ?thesis by (simp add: spsc_inv_def)
qed

theorem ipc_single_sender_witness:
  "\<exists>k. (ipc_step 1 0x2000000)\<^sup>*\<^sup>* (conc_init demo_ipc) k \<and> recv_pc k \<noteq> R_idle \<and>
     accepted k = delivered k @ channel_queue 0x2000000 (kst k)"
proof -
  define k where "k = (conc_init demo_ipc)\<lparr>recv_pc := R_head (load_head demo_channel)\<rparr>"
  have "ipc_step 1 0x2000000 (conc_init demo_ipc) k"
    using ipc_step.recv_head [of "conc_init demo_ipc" 1 "0x2000000"] by (simp add: k_def conc_init_def)
  then have r: "(ipc_step 1 0x2000000)\<^sup>*\<^sup>* (conc_init demo_ipc) k" by blast
  have "(0x2000000 :: ptr) \<noteq> 0" by simp
  from ipc_single_sender [OF demo_channel_wf(1) [OF this] demo_channel_wf(2) r] r
  show ?thesis by (auto simp: k_def)
qed

text \<open>The race: both senders read the same tail before either writes.\<close>

lemma double_write:
  assumes w: "channel_wf ch s" "channel_queue ch s = []" and t: "t = load_tail (ipc_channels s ch)"
    and node: "node = ch_nodes (ipc_channels s ch) ! unat (ch_tail (ipc_channels s ch))" "node \<noteq> 0"
  shows "\<not> queue_full t (ipc_channels s ch)" "node_at t (ipc_channels s ch) = Some node" "node_valid node s"
    "node_at t (ipc_channels (publish_tail ch t (copy_in node a now s)) ch) = Some node"
    "node_valid node (publish_tail ch t (copy_in node a now s))"
    "channel_queue ch (publish_tail ch t (copy_in node b now (publish_tail ch t (copy_in node a now s)))) = [b]"
proof -
  show nf: "\<not> queue_full t (ipc_channels s ch)" using full_iff_state [OF w(1)] w(2) t by simp
  show v: "node_at t (ipc_channels s ch) = Some node" "node_valid node s"
    using channel_wf_node(1,3) [OF w(1)] node by (simp_all add: t)
  then show "node_at t (ipc_channels (publish_tail ch t (copy_in node a now s)) ch) = Some node"
    "node_valid node (publish_tail ch t (copy_in node a now s))"
    by (simp_all add: publish_tail_def Let_def copy_in_def node_at_def node_valid_def split: if_splits)
  note i = copy_in_state [OF w(1) _ v(2), folded t, OF v(1), of b now]
  let ?s = "copy_in node b now s"
    and ?s5 = "publish_tail ch t (copy_in node b now (publish_tail ch t (copy_in node a now s)))"
  have "channel_queue ch (publish_tail ch t ?s) = [b]"
    using publish_tail_state(2) [OF i(1), unfolded i(3) t [symmetric]] nf node i(2,4) w(2) by simp
  moreover have "same_ring (ipc_channels ?s5 ch) (ipc_channels (publish_tail ch t ?s) ch)" "ipc_nodes ?s5 = ipc_nodes (publish_tail ch t ?s)"
    by (simp_all add: publish_tail_def Let_def copy_in_def same_ring_def)
  ultimately show "channel_queue ch ?s5 = [b]" using same_ring_queue by (metis channel_queue_def)
qed

lemma race_steps:
  assumes q: "now < quota_reset_time (ipc_channels s ch)" "1 < quota_remaining (ipc_channels s ch)"
    and w: "channel_wf ch s" and e: "channel_queue ch s = []"
    and n: "ch_nodes (ipc_channels s ch) ! unat (ch_tail (ipc_channels s ch)) \<noteq> 0"
  shows "\<exists>k. (ipc_step 2 ch)\<^sup>*\<^sup>* (conc_init s) k \<and> accepted k = [a, b] \<and> delivered k = [] \<and> channel_queue ch (kst k) = [b] \<and>
    senders k 0 = S_idle \<and> senders k 1 = S_idle"
proof -
  define c where "c = ipc_channels s ch"
  define t where "t = load_tail c"
  define node where "node = ch_nodes c ! unat (ch_tail c)"
  define s1 where "s1 = set_channel ch (take_quota c) s"
  define s2 where "s2 = set_channel ch (take_quota (take_quota c)) s1"
  define s3 where "s3 = copy_in node a now s2"
  define s4 where "s4 = copy_in node b now (publish_tail ch t s3)"
  define s5 where "s5 = publish_tail ch t s4"
  have rf: "quota_refill now c = c" "quota_refill now (take_quota c) = take_quota c"
    using q(1) by (simp_all add: quota_refill_def take_quota_def c_def not_le)
  have qn: "quota_remaining c \<noteq> 0" "quota_remaining (take_quota c) \<noteq> 0" using q(2) by (auto simp: take_quota_def c_def word_less_nat_alt)
  have r: "same_ring (take_quota (take_quota c)) c" by (simp add: same_ring_def take_quota_def)
  have ch2: "ipc_channels s2 ch = take_quota (take_quota c)" "ipc_nodes s2 = ipc_nodes s" by (simp_all add: s2_def s1_def)
  have w2: "channel_wf ch s2" "channel_queue ch s2 = []"
    using w e r same_ring_wf same_ring_queue by (auto simp: channel_wf_def channel_queue_def ch2 c_def)
  have "t = load_tail (ipc_channels s2 ch)" "node = ch_nodes (ipc_channels s2 ch) ! unat (ch_tail (ipc_channels s2 ch))" "node \<noteq> 0"
    using n by (simp_all add: ch2 t_def load_tail_def take_quota_def node_def c_def)
  note d = double_write(1-3) [OF w2 this] double_write(4,5) [OF w2 this, where a = a and now = now, folded s3_def]
    double_write(6) [OF w2 this, where a = a and b = b and now = now, folded s3_def s4_def, folded s5_def]
  define k0 where "k0 = conc_init s"
  define k1 where "k1 = set_sender 0 (S_tail a now t) s1 k0"
  define k2 where "k2 = set_sender 1 (S_tail b now t) s2 k1"
  define k3 where "k3 = set_sender 0 (S_free a now t) s2 k2"
  define k4 where "k4 = set_sender 1 (S_free b now t) s2 k3"
  define k5 where "k5 = set_sender 0 (S_copied a t) s3 k4"
  define k6 where "k6 = send_returns CK_SUCCESS ((set_sender 0 S_idle (publish_tail ch t s3) k5)\<lparr>accepted := [a]\<rparr>)"
  define k7 where "k7 = set_sender 1 (S_copied b t) s4 k6"
  define k8 where "k8 = send_returns CK_SUCCESS ((set_sender 1 S_idle s5 k7)\<lparr>accepted := [a, b]\<rparr>)"
  note k = k0_def k1_def k2_def k3_def k4_def k5_def k6_def k7_def k8_def
  have lq: "load_tail (take_quota d) = load_tail d" for d by (simp add: load_tail_def take_quota_def)
  have "ipc_step 2 ch k0 k1"
    using ipc_step.send_tail [of 0 2 k0 c now ch "take_quota c" a] rf qn by (simp add: k s1_def c_def t_def lq)
  moreover have "ipc_step 2 ch k1 k2"
  proof -
    have "kst k1 = s1" "senders k1 1 = S_idle" "ipc_channels s1 ch = take_quota c" by (simp_all add: k1_def k0_def s1_def)
    then show ?thesis unfolding k2_def s2_def
      using ipc_step.send_tail [of 1 2 k1 "take_quota c" now ch "take_quota (take_quota c)" b] rf qn by (simp add: t_def lq)
  qed
  moreover have "ipc_step 2 ch k2 k3" using ipc_step.send_free [of 0 2 k2 a now t ch] d(1) by (simp add: k)
  moreover have "ipc_step 2 ch k3 k4" using ipc_step.send_free [of 1 2 k3 b now t ch] d(1) by (simp add: k)
  moreover have "ipc_step 2 ch k4 k5" using ipc_step.send_copy [of 0 2 k4 a now t ch node] d(2,3) by (simp add: k s3_def)
  moreover have "ipc_step 2 ch k5 k6" using ipc_step.send_publish [of 0 2 k5 a t ch] by (simp add: k)
  moreover have "ipc_step 2 ch k6 k7" using ipc_step.send_copy [of 1 2 k6 b now t ch node] d(4,5) by (simp add: k s4_def)
  moreover have "ipc_step 2 ch k7 k8" using ipc_step.send_publish [of 1 2 k7 b t ch] by (simp add: k s5_def)
  ultimately have "(ipc_step 2 ch)\<^sup>*\<^sup>* k0 k8" by (meson rtranclp.rtrancl_into_rtrancl rtranclp.rtrancl_refl)
  then show ?thesis using d(6) by (intro exI [of _ k8]) (simp add: k)
qed

text \<open>C14: The comment calls the channel a queue for many producers, but two senders that read the same tail both report
  success while only one of their messages is in the queue: one is lost.\<close>

theorem ipc_two_senders_lose:
  assumes "now < quota_reset_time (ipc_channels s ch)" and "1 < quota_remaining (ipc_channels s ch)"
    and "channel_wf ch s" and "channel_queue ch s = []"
    and "ch_nodes (ipc_channels s ch) ! unat (ch_tail (ipc_channels s ch)) \<noteq> 0"
  shows "\<exists>k. (ipc_step 2 ch)\<^sup>*\<^sup>* (conc_init s) k \<and> accepted k = [a, b] \<and> delivered k = [] \<and> channel_queue ch (kst k) = [b] \<and>
    senders k 0 = S_idle \<and> senders k 1 = S_idle"
  using assms by (rule race_steps)

theorem ipc_two_senders_lose_witness:
  "\<exists>k. (ipc_step 2 0x2000000)\<^sup>*\<^sup>* (conc_init demo_ipc) k \<and> length (accepted k) = 2 \<and> delivered k = [] \<and>
     length (channel_queue 0x2000000 (kst k)) = 1"
proof -
  have "\<exists>k. (ipc_step 2 0x2000000)\<^sup>*\<^sup>* (conc_init demo_ipc) k \<and> accepted k = [message_zero, message_zero] \<and> delivered k = [] \<and>
      channel_queue 0x2000000 (kst k) = [message_zero] \<and> senders k 0 = S_idle \<and> senders k 1 = S_idle"
    by (rule ipc_two_senders_lose [of 5]) (simp_all add: demo_channel_wf)
  then show ?thesis by auto
qed

section \<open>The quota\<close>

text \<open>Sends in a row, with their times, and their answers.\<close>

fun send_all :: "ptr \<Rightarrow> (u64 \<times> ipc_message_t) list \<Rightarrow> 'a ipc_state_scheme \<Rightarrow> (int list \<times> 'a ipc_state_scheme) option" where
  "send_all ch [] s = Some ([], s)"
| "send_all ch ((now, m) # ms) s =
     (case ipc_send ch (Some m) now s of None \<Rightarrow> None
      | Some (r, s1) \<Rightarrow> (case send_all ch ms s1 of None \<Rightarrow> None | Some (rs, s2) \<Rightarrow> Some (r # rs, s2)))"

lemma ipc_send_quota:
  assumes w: "channel_wf ch s" and t: "now < quota_reset_time (ipc_channels s ch)"
  shows "\<exists>r s'. ipc_send ch (Some m) now s = Some (r, s') \<and> channel_wf ch s' \<and>
    quota_reset_time (ipc_channels s' ch) = quota_reset_time (ipc_channels s ch) \<and>
    (r = CK_ERROR_BUSY \<longleftrightarrow> quota_remaining (ipc_channels s ch) = 0) \<and>
    quota_remaining (ipc_channels s' ch) = (if r = CK_ERROR_BUSY then 0 else quota_remaining (ipc_channels s ch) - 1)"
proof -
  obtain r s' where r: "ipc_send ch (Some m) now s = Some (r, s')" "channel_wf ch s'" using ipc_send_cases [OF w] by blast
  have "quota_refill now (ipc_channels s ch) = ipc_channels s ch" using t by (simp add: quota_refill_def)
  then show ?thesis using r w
    by (auto simp: ipc_send_def Let_def channel_wf_def drop_message_def take_quota_def publish_tail_def copy_in_def
      CK_SUCCESS_def CK_ERROR_BUSY_def CK_ERROR_OVERFLOW_def CK_ERROR_NO_MEMORY_def split: if_splits option.splits)
qed

text \<open>Until the quota is reset, exactly the first sends, as many as the quota says, are let through; every later one is
  answered \<open>CK_ERROR_BUSY\<close>. Sends refused for a full queue use up the quota, too.\<close>

theorem ipc_quota:
  assumes "channel_wf ch s" and "\<forall>(now, m) \<in> set ms. now < quota_reset_time (ipc_channels s ch)"
  shows "\<exists>rs s'. send_all ch ms s = Some (rs, s') \<and> length rs = length ms \<and>
    (\<forall>i < length rs. rs ! i = CK_ERROR_BUSY \<longleftrightarrow> unat (quota_remaining (ipc_channels s ch)) \<le> i)"
  using assms
proof (induction ms arbitrary: s)
  case (Cons p ms)
  obtain now m where p: "p = (now, m)" by (cases p)
  let ?q = "quota_remaining (ipc_channels s ch)"
  obtain r s1 where r: "ipc_send ch (Some m) now s = Some (r, s1)" "channel_wf ch s1"
      "quota_reset_time (ipc_channels s1 ch) = quota_reset_time (ipc_channels s ch)"
      "r = CK_ERROR_BUSY \<longleftrightarrow> ?q = 0" "quota_remaining (ipc_channels s1 ch) = (if r = CK_ERROR_BUSY then 0 else ?q - 1)"
    using ipc_send_quota [OF Cons.prems(1), of now m] Cons.prems(2) p by auto
  obtain rs s2 where i: "send_all ch ms s1 = Some (rs, s2)" "length rs = length ms"
      "\<And>i. i < length rs \<Longrightarrow> rs ! i = CK_ERROR_BUSY \<longleftrightarrow> unat (quota_remaining (ipc_channels s1 ch)) \<le> i"
    using Cons.IH [OF r(2)] Cons.prems(2) r(3) by auto
  have u: "unat (quota_remaining (ipc_channels s1 ch)) = unat ?q - 1"
    using r(4,5) by (auto simp: unat_minus_one)
  have "(r # rs) ! i = CK_ERROR_BUSY \<longleftrightarrow> unat ?q \<le> i" if "i < length (r # rs)" for i
    using that i(3) u r(4) by (cases i) (auto simp: unat_eq_0)
  then show ?case using r(1) i(1,2) p by auto
qed simp

theorem ipc_quota_witness:
  "\<exists>rs s'. send_all 0x2000000 [(5, message_zero), (6, message_zero), (7, message_zero)] demo_ipc = Some (rs, s') \<and>
     length rs = 3 \<and> (\<forall>i < length rs. rs ! i \<noteq> CK_ERROR_BUSY)"
proof -
  have "(0x2000000 :: ptr) \<noteq> 0" by simp
  from ipc_quota [OF demo_channel_wf(1) [OF this], of "[(5, message_zero), (6, message_zero), (7, message_zero)]"]
  obtain rs s' where "send_all 0x2000000 [(5, message_zero), (6, message_zero), (7, message_zero)] demo_ipc = Some (rs, s')"
      "length rs = 3" "\<forall>i < length rs. rs ! i = CK_ERROR_BUSY \<longleftrightarrow> 10000 \<le> i" by auto
  then show ?thesis by (intro exI [of _ rs] exI [of _ s']) auto
qed

section \<open>All channels\<close>

lemma ipc_inv_write:
  assumes inv: "ipc_inv s" and ch: "ch \<in> set (g_channels s)" "ch \<noteq> 0" and w: "channel_wf ch s'"
    and eq: "g_zones s' = g_zones s" "mem s' = mem s" "g_caches s' = g_caches s" "g_cache_count s' = g_cache_count s"
      "g_channels s' = g_channels s" "ipc_channels s' = (ipc_channels s)(ch := c')" "ch_nodes c' = ch_nodes (ipc_channels s ch)"
    and nd: "\<And>n. n \<notin> set (ch_nodes (ipc_channels s ch)) \<or> n = 0 \<Longrightarrow> ipc_nodes s' n = ipc_nodes s n"
      "\<And>n. n_magic (ipc_nodes s' n) = n_magic (ipc_nodes s n)"
  shows "ipc_inv s'" "\<And>d. d \<in> set (g_channels s) \<Longrightarrow> d \<noteq> 0 \<Longrightarrow> d \<noteq> ch \<Longrightarrow> channel_queue d s' = channel_queue d s"
proof -
  note f = frame_cong [OF eq(1,2)]
  have nodes: "ch_nodes (ipc_channels s' d) = ch_nodes (ipc_channels s d)" for d using eq(6,7) by simp
  have cs: "caches_small s' = caches_small s" using eq(3,4) by (simp add: caches_small_def)
  have ok: "nodes_ok (ch_nodes (ipc_channels s d)) (ipc_nodes s') (free_pfns s) =
      nodes_ok (ch_nodes (ipc_channels s d)) (ipc_nodes s) (free_pfns s)" for d
    by (simp add: nodes_ok_def nd(2))
  have other: "chan_wf (ipc_nodes s') (ipc_channels s d) \<and> queue_of (ipc_nodes s') (ipc_channels s d) = queue_of (ipc_nodes s) (ipc_channels s d)"
    if d: "d \<in> set (g_channels s)" "d \<noteq> 0" "d \<noteq> ch" for d
  proof -
    have dw: "chan_wf (ipc_nodes s) (ipc_channels s d)" using inv d by (auto simp: ipc_inv_def channel_wf_def)
    have dj: "set (ch_nodes (ipc_channels s d)) \<inter> set (ch_nodes (ipc_channels s ch)) \<subseteq> {0}" using inv d ch by (auto simp: ipc_inv_def)
    have "ipc_nodes s' n = ipc_nodes s n" if "n \<in> set (ch_nodes (ipc_channels s d))" "n \<noteq> 0" for n
      by (rule nd(1)) (use dj that in auto)
    then show ?thesis using chan_wf_nodes [OF dw] by blast
  qed
  show "channel_queue d s' = channel_queue d s" if "d \<in> set (g_channels s)" "d \<noteq> 0" "d \<noteq> ch" for d
    using other [OF that] that(3) eq(6) by (simp add: channel_queue_def)
  have "channel_wf d s'" if "d \<in> set (g_channels s)" "d \<noteq> 0" for d
    using other [OF that] w eq(6) that(2) by (cases "d = ch") (auto simp: channel_wf_def)
  then show "ipc_inv s'" using inv unfolding ipc_inv_def eq(5) cs f ok nodes by auto
qed

lemma ipc_send_effect:
  assumes w: "channel_wf ch s" and run: "ipc_send ch (Some m) now s = Some (r, s')"
  shows "\<exists>c' node v. s' = set_channel ch c' (set_node node v s) \<and> ch_nodes c' = ch_nodes (ipc_channels s ch) \<and>
    n_magic v = n_magic (ipc_nodes s node) \<and>
    (node \<in> set (ch_nodes (ipc_channels s ch)) \<and> node \<noteq> 0 \<or> v = ipc_nodes s node)"
proof -
  have id: "set_node n (ipc_nodes s n) s = s" for n by (simp add: set_node_def)
  have nodes: "ch_nodes (quota_refill now c) = ch_nodes c" "ch_nodes (drop_message c) = ch_nodes c" "ch_nodes (take_quota c) = ch_nodes c" for c
    by (simp_all add: quota_refill_def drop_message_def take_quota_def)
  let ?c2 = "take_quota (quota_refill now (ipc_channels s ch))"
  consider (plain) c' where "s' = set_channel ch c' s" "ch_nodes c' = ch_nodes (ipc_channels s ch)"
    | (sent) node where "node_at (load_tail ?c2) ?c2 = Some node" "node_valid node s"
        "s' = publish_tail ch (load_tail ?c2) (copy_in node m now (set_channel ch ?c2 s))"
    using run w by (auto simp: ipc_send_def Let_def channel_wf_def nodes node_valid_def split: if_splits option.splits)
  then show ?thesis
  proof cases
    case plain
    then show ?thesis using id by metis
  next
    case sent
    have "node \<in> set (ch_nodes (ipc_channels s ch))" using sent(1) by (auto simp: node_at_def nodes split: if_splits)
    moreover have "node \<noteq> 0" using sent(2) by (simp add: node_valid_def)
    moreover have "s' = set_channel ch (?c2\<lparr>ch_tail := ucast (next_index (load_tail ?c2)), messages_sent := messages_sent ?c2 + 1\<rparr>)
        (set_node node ((ipc_nodes s node)\<lparr>n_message := m, n_timestamp := now\<rparr>) s)"
      unfolding sent(3) by (simp add: publish_tail_def copy_in_def set_channel_def set_node_def Let_def atomic_set_def atomic_inc_def)
    ultimately show ?thesis by (intro exI conjI) (assumption, auto simp: nodes)
  qed
qed

text \<open>Sending on one registered channel keeps the invariant of all channels and of the allocators and leaves the messages
  of every other channel alone.\<close>

theorem ipc_send_isolated:
  assumes "ipc_inv s" and "ch \<in> set (g_channels s)" and "ch \<noteq> 0" and "ipc_send ch (Some m) now s = Some (r, s')"
  shows "ipc_inv s' \<and> (\<forall>d \<in> set (g_channels s). d \<noteq> 0 \<and> d \<noteq> ch \<longrightarrow> channel_queue d s' = channel_queue d s)"
proof -
  have w: "channel_wf ch s" using assms by (auto simp: ipc_inv_def)
  obtain c' node v where e: "s' = set_channel ch c' (set_node node v s)" "ch_nodes c' = ch_nodes (ipc_channels s ch)"
      "n_magic v = n_magic (ipc_nodes s node)" "node \<in> set (ch_nodes (ipc_channels s ch)) \<and> node \<noteq> 0 \<or> v = ipc_nodes s node"
    using ipc_send_effect [OF w assms(4)] by blast
  have w': "channel_wf ch s'" using ipc_send_cases [OF w, of m now] assms(4) by auto
  have g: "g_zones s' = g_zones s" "mem s' = mem s" "g_caches s' = g_caches s" "g_cache_count s' = g_cache_count s"
    "g_channels s' = g_channels s" "ipc_channels s' = (ipc_channels s)(ch := c')"
    by (simp_all add: e(1) set_channel_def set_node_def)
  have "ipc_nodes s' n = ipc_nodes s n" if "n \<notin> set (ch_nodes (ipc_channels s ch)) \<or> n = 0" for n
    using e(1,4) that by auto
  moreover have "n_magic (ipc_nodes s' n) = n_magic (ipc_nodes s n)" for n using e(1,3) by simp
  ultimately show ?thesis using ipc_inv_write [OF assms(1-3) w' g e(2)] by blast
qed

theorem ipc_send_isolated_witness:
  "\<exists>r s'. ipc_send 0x2000000 (Some message_zero) 5 demo_ipc = Some (r, s') \<and> ipc_inv s'"
proof -
  obtain r s' where r: "ipc_send 0x2000000 (Some message_zero) 5 demo_ipc = Some (r, s')"
    using ipc_send_cases [OF demo_channel_wf(1), of "0x2000000"] by fastforce
  then show ?thesis using ipc_send_isolated [OF demo_ipc_inv _ _ r] by auto
qed

text \<open>C31: Creating a channel always returns; it keeps the invariant of all channels, counts the call, and either returns no
  channel (the table or the memory is exhausted) with the table as it was, or registers a new, well-formed, empty channel under the
  number counted.\<close>

theorem ipc_channel_create_correct:
  assumes "ipc_inv s"
  shows "\<exists>ch s'. ipc_channel_create calloc a b now s = Some (ch, s') \<and> ipc_inv s' \<and>
    g_channel_counter s' = g_channel_counter s + 1 \<and>
    (if ch = 0 then g_channels s' = g_channels s
     else channel_wf ch s' \<and> channel_queue ch s' = [] \<and> ch \<notin> set (g_channels s) \<and>
       unat (ucast (g_channel_counter s + 1) :: u32) < 1024 \<and>
       g_channels s' = (g_channels s)[unat (ucast (g_channel_counter s + 1) :: u32) := ch])"
  using assms by (rule ipc_channel_create_run)

theorem ipc_channel_create_correct_witness:
  "\<exists>ch s'. ipc_channel_create calloc_none 1 2 0 demo_ipc = Some (ch, s') \<and> ipc_inv s' \<and> g_channel_counter s' = 2"
  using ipc_channel_create_correct [OF demo_ipc_inv, of calloc_none 1 2 0] by auto

lemma free_nodes_none:
  assumes "\<forall>i < unat (g_cache_count s). slabs_partial (get_cache i s) = 0"
  shows "free_nodes ns s = Some s"
  by (induction ns) (auto simp: kfree_def kfree_caches_none assms)

text \<open>While no cache has a partial slab, destroying a channel counts its references down and releases nothing, not even
  with the last reference: its pages stay allocated and it stays in the table.\<close>

theorem ipc_channel_destroy_keeps:
  assumes "ch \<noteq> 0" and "\<forall>i < unat (g_cache_count s). slabs_partial (get_cache i s) = 0"
  shows "ipc_channel_destroy ch s =
    Some (set_channel ch ((ipc_channels s ch)\<lparr>ch_refcount := ch_refcount (ipc_channels s ch) - 1\<rparr>) s)"
proof -
  let ?s = "set_channel ch ((ipc_channels s ch)\<lparr>ch_refcount := ch_refcount (ipc_channels s ch) - 1\<rparr>) s"
  have "\<forall>i < unat (g_cache_count ?s). slabs_partial (get_cache i ?s) = 0"
    using assms(2) by (simp add: set_channel_def get_cache_def)
  then have "free_nodes ns ?s = Some ?s" "kfree ch ?s = Some ?s" for ns
    using free_nodes_none [of ?s] kfree_caches_none [of _ 0 ?s ch] assms(1) by (auto simp: kfree_def)
  then show ?thesis using assms(1) by (simp add: ipc_channel_destroy_def Let_def)
qed

theorem ipc_channel_destroy_keeps_witness:
  "\<exists>s'. ipc_channel_destroy 0x2000000 demo_ipc = Some s' \<and> ch_refcount (ipc_channels s' 0x2000000) = 0 \<and>
     0x2000000 \<in> set (g_channels s')"
  using ipc_channel_destroy_keeps [of "0x2000000" demo_ipc] by simp

end
