(* ===== verification/CK_Ipc_Calls.thy ===== *)
theory CK_Ipc_Calls
  imports CK_Ipc_Props
begin

text \<open>
  The step relation against the operations. The runs of the steps of a single sender, while the
  receiver takes nothing out, are exactly the sequences of \<open>ipc_send\<close> calls, and the runs of the
  steps of the receiver alone are exactly the sequences of \<open>ipc_receive\<close> calls: the same final
  state, the same code for every call and the same messages.
\<close>

section \<open>Sequences of calls\<close>

definition sent_messages :: "(u64 \<times> ipc_message_t) list \<Rightarrow> int list \<Rightarrow> ipc_message_t list" where
  "sent_messages calls rs = map (snd \<circ> fst) (filter (\<lambda>(c, r). r = CK_SUCCESS) (zip calls rs))"

text \<open>Each receive has a buffer of its own, whose contents afterwards are part of the answer.\<close>

fun receive_all ::
  "ptr \<Rightarrow> ipc_message_t list \<Rightarrow> 'a ipc_state_scheme \<Rightarrow> ((int \<times> ipc_message_t option) list \<times> 'a ipc_state_scheme) option" where
  "receive_all ch [] s = Some ([], s)"
| "receive_all ch (b # bs) s =
     (case ipc_receive ch (Some b) s of None \<Rightarrow> None
      | Some (r, m, s1) \<Rightarrow> (case receive_all ch bs s1 of None \<Rightarrow> None | Some (rs, s2) \<Rightarrow> Some ((r, m) # rs, s2)))"

definition received_messages :: "(int \<times> ipc_message_t option) list \<Rightarrow> ipc_message_t list" where
  "received_messages rs = map (the \<circ> snd) (filter (\<lambda>(r, m). r = CK_SUCCESS) rs)"

lemmas call_codes = CK_SUCCESS_def CK_ERROR_BUSY_def CK_ERROR_OVERFLOW_def CK_ERROR_NO_MEMORY_def CK_ERROR_NOT_FOUND_def CK_ERROR_def

lemma send_all_length: "send_all ch calls s = Some (rs, s') \<Longrightarrow> length rs = length calls"
  by (induction ch calls s arbitrary: rs s' rule: send_all.induct) (auto split: option.splits)

lemma send_all_snoc:
  "send_all ch calls s = Some (rs, s1) \<Longrightarrow> ipc_send ch (Some m) now s1 = Some (r, s2) \<Longrightarrow>
    send_all ch (calls @ [(now, m)]) s = Some (rs @ [r], s2)"
  by (induction calls arbitrary: s rs) (auto split: option.splits)

lemma sent_messages_snoc:
  "length rs = length calls \<Longrightarrow>
    sent_messages (calls @ [(now, m)]) (rs @ [r]) = sent_messages calls rs @ (if r = CK_SUCCESS then [m] else [])"
  by (simp add: sent_messages_def)

lemma receive_all_snoc:
  "receive_all ch bs s = Some (rs, s1) \<Longrightarrow> ipc_receive ch (Some b) s1 = Some (r, m, s2) \<Longrightarrow>
    receive_all ch (bs @ [b]) s = Some (rs @ [(r, m)], s2)"
  by (induction bs arbitrary: s rs) (auto split: option.splits)

section \<open>The sender\<close>

text \<open>The state between two accesses of a call that began in \<open>s\<close>.\<close>

abbreviation paid :: "ptr \<Rightarrow> u64 \<Rightarrow> ipc_state \<Rightarrow> ipc_channel_t" where
  "paid ch now s \<equiv> take_quota (quota_refill now (ipc_channels s ch))"

definition quota_left :: "ptr \<Rightarrow> u64 \<Rightarrow> ipc_state \<Rightarrow> bool" where
  "quota_left ch now s \<longleftrightarrow> quota_remaining (quota_refill now (ipc_channels s ch)) \<noteq> 0"

fun in_send :: "ptr \<Rightarrow> ipc_state \<Rightarrow> sender_pc \<Rightarrow> ipc_state \<Rightarrow> bool" where
  "in_send ch s S_idle s' \<longleftrightarrow> s' = s"
| "in_send ch s (S_tail m now t) s' \<longleftrightarrow>
     quota_left ch now s \<and> t = load_tail (paid ch now s) \<and> s' = set_channel ch (paid ch now s) s"
| "in_send ch s (S_free m now t) s' \<longleftrightarrow>
     quota_left ch now s \<and> t = load_tail (paid ch now s) \<and> s' = set_channel ch (paid ch now s) s \<and> \<not> queue_full t (paid ch now s)"
| "in_send ch s (S_copied m t) s' \<longleftrightarrow>
     (\<exists>now node. quota_left ch now s \<and> t = load_tail (paid ch now s) \<and> \<not> queue_full t (paid ch now s) \<and>
        node_at t (paid ch now s) = Some node \<and> node_valid node (set_channel ch (paid ch now s) s) \<and>
        s' = copy_in node m now (set_channel ch (paid ch now s) s))"

definition sending :: "ptr \<Rightarrow> ipc_state \<Rightarrow> conc \<Rightarrow> bool" where
  "sending ch s k \<longleftrightarrow> (\<exists>calls s0. send_all ch calls s = Some (sent_codes k, s0) \<and>
     accepted k = sent_messages calls (sent_codes k) \<and> in_send ch s0 (senders k 0) (kst k))"

text \<open>A step that ends a call, and a step inside one.\<close>

lemma sending_return:
  assumes "sending ch s k" and "\<And>s0. in_send ch s0 (senders k 0) (kst k) \<Longrightarrow> \<exists>now. ipc_send ch (Some m) now s0 = Some (r, kst k')"
    and "senders k' 0 = S_idle" and "sent_codes k' = sent_codes k @ [r]" and "accepted k' = accepted k @ (if r = CK_SUCCESS then [m] else [])"
  shows "sending ch s k'"
proof -
  obtain calls s0 where c: "send_all ch calls s = Some (sent_codes k, s0)" "accepted k = sent_messages calls (sent_codes k)"
    "in_send ch s0 (senders k 0) (kst k)" using assms(1) by (auto simp: sending_def)
  obtain now where "ipc_send ch (Some m) now s0 = Some (r, kst k')" using assms(2) [OF c(3)] by blast
  from send_all_snoc [OF c(1) this] sent_messages_snoc [of "sent_codes k" calls now m r] send_all_length [OF c(1)] c(2) assms(3-5)
  show ?thesis by (auto simp: sending_def intro!: exI [of _ "calls @ [(now, m)]"])
qed

lemma sending_inside:
  assumes "sending ch s k" and "\<And>s0. in_send ch s0 (senders k 0) (kst k) \<Longrightarrow> in_send ch s0 (senders k' 0) (kst k')"
    and "sent_codes k' = sent_codes k" and "accepted k' = accepted k"
  shows "sending ch s k'"
  using assms unfolding sending_def by metis

lemma set_channel_twice: "set_channel ch c (set_channel ch d s) = set_channel ch c s"
  by (simp add: set_channel_def)

lemma sending_step:
  assumes ch: "ch \<noteq> 0" and st: "ipc_step 1 ch k k'" and d: "delivered k' = []" and i: "sending ch s k"
  shows "sending ch s k'"
  using st
proof cases
  case (send_busy p c1 now)
  then show ?thesis using ch
    by (intro sending_return [OF i, where m = message_zero and r = CK_ERROR_BUSY])
      (auto simp: ipc_send_def Let_def call_codes intro!: exI [of _ now])
next
  case (send_tail p c1 now c2 m)
  then show ?thesis by (intro sending_inside [OF i]) (auto simp: quota_left_def)
next
  case (send_full p m now tail)
  then show ?thesis using ch
    by (intro sending_return [OF i, where m = m and r = CK_ERROR_OVERFLOW])
      (auto simp: ipc_send_def Let_def quota_left_def set_channel_twice call_codes intro!: exI [of _ now])
next
  case (send_free p m now tail)
  then show ?thesis by (intro sending_inside [OF i]) auto
next
  case (send_no_node p m now tail node)
  then show ?thesis using ch
    by (intro sending_return [OF i, where m = m and r = CK_ERROR_NO_MEMORY])
      (auto simp: ipc_send_def Let_def quota_left_def call_codes intro!: exI [of _ now])
next
  case (send_copy p m now tail node)
  then show ?thesis by (intro sending_inside [OF i]) auto
next
  case (send_publish p m tail)
  then show ?thesis using ch
    by (intro sending_return [OF i, where m = m and r = CK_SUCCESS])
      (fastforce simp: ipc_send_def Let_def quota_left_def call_codes)+
next
  case (recv_publish head m)
  then show ?thesis using d by simp
qed (use sending_inside [OF i, of k'] in simp_all)

lemma delivered_step: "ipc_step n ch k k' \<Longrightarrow> delivered k' = [] \<Longrightarrow> delivered k = []"
  by (cases rule: ipc_step.cases) auto

lemma sending_run:
  assumes "ch \<noteq> 0" and "(ipc_step 1 ch)\<^sup>*\<^sup>* (conc_init s) k" and "delivered k = []"
  shows "sending ch s k"
  using assms(2,3)
proof (induction rule: rtranclp_induct)
  case base
  show ?case unfolding sending_def by (intro exI [of _ "[]"] exI [of _ s]) (simp add: sent_messages_def)
next
  case (step k k')
  then show ?case using sending_step [OF assms(1)] delivered_step by blast
qed

text \<open>The other way round: each call is a run, whatever the receiver is doing meanwhile.\<close>

definition returned :: "conc \<Rightarrow> ipc_state \<Rightarrow> int \<Rightarrow> ipc_message_t \<Rightarrow> conc \<Rightarrow> bool" where
  "returned k s r m k' \<longleftrightarrow> senders k' 0 = S_idle \<and> kst k' = s \<and> delivered k' = delivered k \<and>
     sent_codes k' = sent_codes k @ [r] \<and> accepted k' = accepted k @ (if r = CK_SUCCESS then [m] else [])"

lemma last_step: "ipc_step n ch k k1 \<Longrightarrow> P k1 \<Longrightarrow> \<exists>k'. (ipc_step n ch)\<^sup>*\<^sup>* k k' \<and> P k'"
  by blast

lemma first_step:
  "ipc_step n ch k k1 \<Longrightarrow> \<exists>k'. (ipc_step n ch)\<^sup>*\<^sup>* k1 k' \<and> P k' \<Longrightarrow> \<exists>k'. (ipc_step n ch)\<^sup>*\<^sup>* k k' \<and> P k'"
  by (meson converse_rtranclp_into_rtranclp)

lemma steps_from_free:
  assumes "senders k 0 = S_free m now t" and "node_at t (ipc_channels (kst k) ch) = Some node"
  shows "\<exists>k'. (ipc_step 1 ch)\<^sup>*\<^sup>* k k' \<and>
    (if node_valid node (kst k) then returned k (publish_tail ch t (copy_in node m now (kst k))) CK_SUCCESS m k'
     else returned k (kst k) CK_ERROR_NO_MEMORY m k')"
proof (cases "node_valid node (kst k)")
  case True
  define k1 where "k1 = set_sender 0 (S_copied m t) (copy_in node m now (kst k)) k"
  have one: "ipc_step 1 ch k k1" using ipc_step.send_copy [of 0 1 k m now t ch node] assms True by (simp add: k1_def)
  have two: "ipc_step 1 ch k1 (send_returns CK_SUCCESS ((set_sender 0 S_idle (publish_tail ch t (kst k1)) k1)\<lparr>accepted := accepted k @ [m]\<rparr>))"
    using ipc_step.send_publish [of 0 1 k1 m t ch] by (simp add: k1_def)
  show ?thesis by (rule first_step [OF one last_step [OF two]]) (use True in \<open>simp add: k1_def returned_def\<close>)
next
  case False
  then show ?thesis using assms
    by (intro last_step [OF ipc_step.send_no_node [of 0 1 k m now t ch node]]) (simp_all add: returned_def call_codes)
qed

lemma steps_of_send:
  assumes ch: "ch \<noteq> 0" and idle: "senders k 0 = S_idle" and r: "ipc_send ch (Some m) now (kst k) = Some (r, s')"
  shows "\<exists>k'. (ipc_step 1 ch)\<^sup>*\<^sup>* k k' \<and> returned k s' r m k'"
proof (cases "quota_left ch now (kst k)")
  case False
  then have "ipc_step 1 ch k (send_returns CK_ERROR_BUSY (set_sender 0 S_idle s' k))" "r = CK_ERROR_BUSY"
    using ipc_step.send_busy [of 0 1 k _ now ch] idle r ch by (auto simp: quota_left_def ipc_send_def Let_def)
  then show ?thesis by (elim last_step) (simp add: returned_def call_codes)
next
  case q: True
  define c where "c = paid ch now (kst k)"
  define k1 where "k1 = set_sender 0 (S_tail m now (load_tail c)) (set_channel ch c (kst k)) k"
  have one: "ipc_step 1 ch k k1" using ipc_step.send_tail [of 0 1 k _ now ch _ m] idle q by (simp add: k1_def c_def quota_left_def)
  have same: "returned k1 = returned k" by (simp add: returned_def fun_eq_iff k1_def)
  have "\<exists>k'. (ipc_step 1 ch)\<^sup>*\<^sup>* k1 k' \<and> returned k1 s' r m k'"
  proof (cases "queue_full (load_tail c) c")
    case True
    then have "ipc_step 1 ch k1 (send_returns CK_ERROR_OVERFLOW (set_sender 0 S_idle s' k1))" "r = CK_ERROR_OVERFLOW"
      using ipc_step.send_full [of 0 1 k1 m now "load_tail c" ch] q r ch
      by (auto simp: quota_left_def ipc_send_def Let_def k1_def c_def set_channel_twice)
    then show ?thesis by (elim last_step) (simp add: returned_def call_codes)
  next
    case False
    define k2 where "k2 = set_sender 0 (S_free m now (load_tail c)) (kst k1) k1"
    obtain node where n: "node_at (load_tail c) c = Some node"
      using r q ch False by (auto simp: ipc_send_def Let_def quota_left_def c_def split: option.splits)
    have two: "ipc_step 1 ch k1 k2" using ipc_step.send_free [of 0 1 k1 m now "load_tail c" ch] False by (simp add: k1_def k2_def)
    have s2: "kst k2 = set_channel ch c (kst k)" and e: "returned k2 = returned k1"
      by (simp_all add: returned_def fun_eq_iff k1_def k2_def)
    have "\<exists>k'. (ipc_step 1 ch)\<^sup>*\<^sup>* k2 k' \<and> returned k2 s' r m k'"
      using steps_from_free [of k2 m now "load_tail c" ch node] n r q ch False s2
      by (auto simp: ipc_send_def Let_def quota_left_def k2_def c_def split: if_splits)
    then show ?thesis unfolding e by (rule first_step [OF two])
  qed
  then show ?thesis unfolding same by (rule first_step [OF one])
qed

lemma steps_of_sends:
  assumes "ch \<noteq> 0" and "senders k 0 = S_idle" and "send_all ch calls (kst k) = Some (rs, s')"
  shows "\<exists>k'. (ipc_step 1 ch)\<^sup>*\<^sup>* k k' \<and> senders k' 0 = S_idle \<and> kst k' = s' \<and> delivered k' = delivered k \<and>
    sent_codes k' = sent_codes k @ rs \<and> accepted k' = accepted k @ sent_messages calls rs"
  using assms(2,3)
proof (induction calls arbitrary: k rs)
  case Nil
  then show ?case by (intro exI [of _ k]) (simp add: sent_messages_def)
next
  case (Cons call calls)
  obtain now m where c: "call = (now, m)" by (cases call)
  obtain r s1 rs1 where r: "ipc_send ch (Some m) now (kst k) = Some (r, s1)" "send_all ch calls s1 = Some (rs1, s')" "rs = r # rs1"
    using Cons.prems(2) c by (auto split: option.splits)
  obtain k1 where k1: "(ipc_step 1 ch)\<^sup>*\<^sup>* k k1" "returned k s1 r m k1" using steps_of_send [OF assms(1) Cons.prems(1) r(1)] by blast
  then obtain k' where "(ipc_step 1 ch)\<^sup>*\<^sup>* k1 k'" "senders k' 0 = S_idle" "kst k' = s'" "delivered k' = delivered k1"
    "sent_codes k' = sent_codes k1 @ rs1" "accepted k' = accepted k1 @ sent_messages calls rs1"
    using Cons.IH [of k1 rs1] r(2) by (auto simp: returned_def)
  then show ?case using k1 r(3) c by (intro exI [of _ k']) (auto simp: returned_def sent_messages_def)
qed

lemma sender_steps:
  assumes "ch \<noteq> 0"
  shows "(\<exists>k. (ipc_step 1 ch)\<^sup>*\<^sup>* (conc_init s) k \<and> senders k 0 = S_idle \<and> delivered k = [] \<and>
      kst k = s' \<and> sent_codes k = rs \<and> accepted k = ms) \<longleftrightarrow>
    (\<exists>calls. send_all ch calls s = Some (rs, s') \<and> ms = sent_messages calls rs)"
  using sending_run [OF assms, of s] steps_of_sends [OF assms, of "conc_init s"] by (fastforce simp: sending_def)

section \<open>The receiver\<close>

fun in_receive :: "ptr \<Rightarrow> ipc_state \<Rightarrow> receiver_pc \<Rightarrow> bool" where
  "in_receive ch s R_idle \<longleftrightarrow> True"
| "in_receive ch s (R_head h) \<longleftrightarrow> h = load_head (ipc_channels s ch)"
| "in_receive ch s (R_some h) \<longleftrightarrow> h = load_head (ipc_channels s ch) \<and> h \<noteq> load_tail (ipc_channels s ch)"
| "in_receive ch s (R_copied h m) \<longleftrightarrow> h = load_head (ipc_channels s ch) \<and> h \<noteq> load_tail (ipc_channels s ch) \<and>
     (\<exists>node. node_at h (ipc_channels s ch) = Some node \<and> node_valid node s \<and> m = n_message (ipc_nodes s node))"

definition receiving :: "ptr \<Rightarrow> ipc_state \<Rightarrow> conc \<Rightarrow> bool" where
  "receiving ch s k \<longleftrightarrow> in_receive ch (kst k) (recv_pc k) \<and>
     (\<exists>bs rs. receive_all ch bs s = Some (rs, kst k) \<and> recv_codes k = map fst rs \<and> delivered k = received_messages rs)"

lemma receiving_return:
  assumes "receiving ch s k" and "ipc_receive ch (Some b) (kst k) = Some (r, Some m, kst k')"
    and "recv_pc k' = R_idle" and "recv_codes k' = recv_codes k @ [r]" and "delivered k' = delivered k @ (if r = CK_SUCCESS then [m] else [])"
  shows "receiving ch s k'"
proof -
  obtain bs rs where c: "receive_all ch bs s = Some (rs, kst k)" "recv_codes k = map fst rs" "delivered k = received_messages rs"
    using assms(1) by (auto simp: receiving_def)
  from receive_all_snoc [OF c(1) assms(2)] c(2,3) assms(3-5)
  show ?thesis by (auto simp: receiving_def received_messages_def intro!: exI [of _ "bs @ [b]"])
qed

lemma receiving_step:
  assumes ch: "ch \<noteq> 0" and st: "ipc_step 0 ch k k'" and i: "receiving ch s k"
  shows "receiving ch s k'"
  using st
proof cases
  case (recv_empty head)
  then show ?thesis using ch i
    by (intro receiving_return [OF i, where b = message_zero and m = message_zero and r = CK_ERROR_NOT_FOUND])
      (auto simp: ipc_receive_def Let_def call_codes receiving_def)
next
  case (recv_no_node head node)
  then show ?thesis using ch i
    by (intro receiving_return [OF i, where b = message_zero and m = message_zero and r = CK_ERROR])
      (auto simp: ipc_receive_def Let_def call_codes receiving_def)
next
  case (recv_publish head m)
  then show ?thesis using ch i
    by (intro receiving_return [OF i, where b = message_zero and m = m and r = CK_SUCCESS])
      (auto simp: ipc_receive_def Let_def call_codes receiving_def)
qed (use i in \<open>auto simp: receiving_def\<close>)

lemma receiving_run:
  assumes "ch \<noteq> 0" and "(ipc_step 0 ch)\<^sup>*\<^sup>* (conc_init s) k"
  shows "receiving ch s k"
  using assms(2)
proof (induction rule: rtranclp_induct)
  case base
  show ?case unfolding receiving_def by (intro conjI exI [of _ "[]"]) (simp_all add: received_messages_def)
next
  case (step k k')
  then show ?case using receiving_step [OF assms(1)] by blast
qed

definition got :: "conc \<Rightarrow> ipc_state \<Rightarrow> int \<Rightarrow> ipc_message_t option \<Rightarrow> conc \<Rightarrow> bool" where
  "got k s r m k' \<longleftrightarrow> recv_pc k' = R_idle \<and> kst k' = s \<and> recv_codes k' = recv_codes k @ [r] \<and>
     delivered k' = delivered k @ (if r = CK_SUCCESS then [the m] else [])"

lemma steps_from_some:
  assumes "recv_pc k = R_some h" and "node_at h (ipc_channels (kst k) ch) = Some node"
  shows "\<exists>k'. (ipc_step n ch)\<^sup>*\<^sup>* k k' \<and>
    (if node_valid node (kst k) then got k (publish_head ch h (kst k)) CK_SUCCESS (Some (n_message (ipc_nodes (kst k) node))) k'
     else got k (kst k) CK_ERROR m k')"
proof (cases "node_valid node (kst k)")
  case True
  define k1 where "k1 = k\<lparr>recv_pc := R_copied h (n_message (ipc_nodes (kst k) node))\<rparr>"
  have one: "ipc_step n ch k k1" using ipc_step.recv_copy [of k h ch node n] assms True by (simp add: k1_def)
  show ?thesis
    by (rule first_step [OF one last_step [OF ipc_step.recv_publish]]) (use True in \<open>simp_all add: k1_def got_def\<close>)
next
  case False
  then show ?thesis using assms
    by (intro last_step [OF ipc_step.recv_no_node [of k h ch node n]]) (simp_all add: got_def call_codes)
qed

lemma steps_of_receive:
  assumes ch: "ch \<noteq> 0" and idle: "recv_pc k = R_idle" and r: "ipc_receive ch (Some b) (kst k) = Some (r, m, s')"
  shows "\<exists>k'. (ipc_step n ch)\<^sup>*\<^sup>* k k' \<and> got k s' r m k'"
proof -
  let ?c = "ipc_channels (kst k) ch"
  define k1 where "k1 = k\<lparr>recv_pc := R_head (load_head ?c)\<rparr>"
  have one: "ipc_step n ch k k1" using ipc_step.recv_head [of k n ch] idle by (simp add: k1_def)
  show ?thesis
  proof (cases "load_head ?c = load_tail ?c")
    case True
    then show ?thesis using r ch
      by (intro first_step [OF one last_step [OF ipc_step.recv_empty [of k1 "load_head ?c"]]])
        (auto simp: k1_def ipc_receive_def Let_def got_def call_codes)
  next
    case False
    define k2 where "k2 = k\<lparr>recv_pc := R_some (load_head ?c)\<rparr>"
    obtain node where n: "node_at (load_head ?c) ?c = Some node"
      using r ch False by (auto simp: ipc_receive_def Let_def split: option.splits)
    have two: "ipc_step n ch k1 k2" using ipc_step.recv_some [of k1 "load_head ?c" ch n] False by (simp add: k1_def k2_def)
    have "got k2 = got k" by (simp add: got_def fun_eq_iff k2_def)
    then have "\<exists>k'. (ipc_step n ch)\<^sup>*\<^sup>* k2 k' \<and> got k s' r m k'"
      using steps_from_some [of k2 "load_head ?c" ch node n m] n r ch False
      by (auto simp: ipc_receive_def Let_def k2_def split: if_splits)
    then show ?thesis by (intro first_step [OF one first_step [OF two]])
  qed
qed

lemma steps_of_receives:
  assumes "ch \<noteq> 0" and "recv_pc k = R_idle" and "receive_all ch bs (kst k) = Some (rs, s')"
  shows "\<exists>k'. (ipc_step n ch)\<^sup>*\<^sup>* k k' \<and> recv_pc k' = R_idle \<and> kst k' = s' \<and>
    recv_codes k' = recv_codes k @ map fst rs \<and> delivered k' = delivered k @ received_messages rs"
  using assms(2,3)
proof (induction bs arbitrary: k rs)
  case Nil
  then show ?case by (intro exI [of _ k]) (simp add: received_messages_def)
next
  case (Cons b bs)
  obtain r m s1 rs1 where r: "ipc_receive ch (Some b) (kst k) = Some (r, m, s1)" "receive_all ch bs s1 = Some (rs1, s')" "rs = (r, m) # rs1"
    using Cons.prems(2) by (auto split: option.splits)
  obtain k1 where k1: "(ipc_step n ch)\<^sup>*\<^sup>* k k1" "got k s1 r m k1" using steps_of_receive [OF assms(1) Cons.prems(1) r(1)] by blast
  then obtain k' where "(ipc_step n ch)\<^sup>*\<^sup>* k1 k'" "recv_pc k' = R_idle" "kst k' = s'"
    "recv_codes k' = recv_codes k1 @ map fst rs1" "delivered k' = delivered k1 @ received_messages rs1"
    using Cons.IH [of k1 rs1] r(2) by (auto simp: got_def)
  then show ?case using k1 r(3) by (intro exI [of _ k']) (auto simp: got_def received_messages_def)
qed

lemma receiver_steps:
  assumes "ch \<noteq> 0"
  shows "(\<exists>k. (ipc_step 0 ch)\<^sup>*\<^sup>* (conc_init s) k \<and> recv_pc k = R_idle \<and> kst k = s' \<and> recv_codes k = cs \<and> delivered k = ms) \<longleftrightarrow>
    (\<exists>bs rs. receive_all ch bs s = Some (rs, s') \<and> cs = map fst rs \<and> ms = received_messages rs)"
  using receiving_run [OF assms, of s] steps_of_receives [OF assms, of "conc_init s"] by (fastforce simp: receiving_def)

section \<open>Both sides\<close>

text \<open>C32: The interleaved accesses are those of the two functions. The runs of the accesses of one sender during which
  the receiver takes nothing out, up to a point where no send is under way, reach exactly the states that sequences of
  \<open>ipc_send\<close> calls reach, with the same code for every call (\<open>CK_SUCCESS\<close>, \<open>CK_ERROR_BUSY\<close>,
  \<open>CK_ERROR_OVERFLOW\<close>, \<open>CK_ERROR_NO_MEMORY\<close>) and the messages of the calls that succeeded; the runs of the accesses of
  the receiver alone are, in the same way, exactly the sequences of \<open>ipc_receive\<close> calls.\<close>

theorem ipc_steps_are_calls:
  assumes "ch \<noteq> 0"
  shows "((\<exists>k. (ipc_step 1 ch)\<^sup>*\<^sup>* (conc_init s) k \<and> senders k 0 = S_idle \<and> delivered k = [] \<and>
        kst k = s' \<and> sent_codes k = rs \<and> accepted k = ms) \<longleftrightarrow>
      (\<exists>calls. send_all ch calls s = Some (rs, s') \<and> ms = sent_messages calls rs)) \<and>
    ((\<exists>k. (ipc_step 0 ch)\<^sup>*\<^sup>* (conc_init s) k \<and> recv_pc k = R_idle \<and>
        kst k = s' \<and> recv_codes k = rs \<and> delivered k = ms) \<longleftrightarrow>
      (\<exists>bs outs. receive_all ch bs s = Some (outs, s') \<and> rs = map fst outs \<and> ms = received_messages outs))"
  using sender_steps [OF assms] receiver_steps [OF assms] by blast

text \<open>On the demonstration channel, a send and, on its outcome, a receive; each is a run of the steps.\<close>

theorem ipc_steps_are_calls_witness:
  "\<exists>s k. (ipc_step 1 0x2000000)\<^sup>*\<^sup>* (conc_init demo_ipc) k \<and> kst k = s \<and> sent_codes k = [CK_SUCCESS] \<and> accepted k = [message_zero] \<and>
     (\<exists>k'. (ipc_step 0 0x2000000)\<^sup>*\<^sup>* (conc_init s) k' \<and> recv_codes k' = [CK_SUCCESS, CK_ERROR_NOT_FOUND] \<and> delivered k' = [message_zero])"
proof -
  let ?ch = "0x2000000 :: ptr"
  note ops = take_quota_def quota_refill_def load_tail_def load_head_def queue_full_def node_at_def node_valid_def copy_in_def
    publish_tail_def publish_head_def next_index_def set_channel_def set_node_def atomic_read_def atomic_set_def Let_def
  obtain s where s: "send_all ?ch [(5, message_zero)] demo_ipc = Some ([CK_SUCCESS], s)"
      "ch_head (ipc_channels s ?ch) = 0" "ch_tail (ipc_channels s ?ch) = 1"
      "node_at 0 (ipc_channels s ?ch) = Some 0x1000000" "ipc_nodes s 0x1000000 = node_zero\<lparr>n_magic := IPC_MAGIC, n_message := message_zero, n_timestamp := 5\<rparr>"
    by (simp add: ipc_send_def ops IPC_QUEUE_SIZE_def)
  have "receive_all ?ch [message_zero, message_zero] s =
      Some ([(CK_SUCCESS, Some message_zero), (CK_ERROR_NOT_FOUND, Some message_zero)], publish_head ?ch 0 s)"
    using s by (simp add: ipc_receive_def ops IPC_QUEUE_SIZE_def)
  then have "\<exists>bs outs. receive_all ?ch bs s = Some (outs, publish_head ?ch 0 s) \<and> [CK_SUCCESS, CK_ERROR_NOT_FOUND] = map fst outs \<and>
      [message_zero] = received_messages outs"
    by (intro exI conjI, assumption) (simp_all add: received_messages_def call_codes)
  moreover have "\<exists>calls. send_all ?ch calls demo_ipc = Some ([CK_SUCCESS], s) \<and> [message_zero] = sent_messages calls [CK_SUCCESS]"
    using s(1) by (intro exI [of _ "[(5, message_zero)]"]) (simp add: sent_messages_def)
  ultimately show ?thesis
    using ipc_steps_are_calls [of ?ch demo_ipc s "[CK_SUCCESS]" "[message_zero]"]
      ipc_steps_are_calls [of ?ch s "publish_head ?ch 0 s" "[CK_SUCCESS, CK_ERROR_NOT_FOUND]" "[message_zero]"] by auto
qed

end
