(* ===== verification/CK_Sched.thy ===== *)
theory CK_Sched
  imports CK_Ipc
begin

text \<open>
  Model of \<open>kernel/core/scheduling.c\<close>. The list primitives, the spin lock, the CPU detection and
  the idle loop are not part of the sources: they are the fields of the argument \<open>E\<close> of the
  operations. A \<open>struct list_head\<close> is either the head of a run queue or the \<open>run_list\<close> of a
  thread; its contents are the pointers in \<open>links\<close>. The context switch and the initialisation of
  the register context, also external, are recorded in the order of the calls. A lock that is never
  obtained is \<open>None\<close>.
\<close>

unbundle bit_operations_syntax

section \<open>Data\<close>

datatype lnode = Head nat nat | Run ptr

type_synonym links = "lnode \<Rightarrow> lnode \<times> lnode"

type_synonym spinlock_t = nat

definition MAX_CPUS :: u64 where "MAX_CPUS = 256"
definition NR_PRIORITY_LEVELS :: nat where "NR_PRIORITY_LEVELS = 5"
definition TIME_SLICE_MS :: int where "TIME_SLICE_MS = 10"
definition CELL_ID_KERNEL :: u64 where "CELL_ID_KERNEL = 1"

text \<open>\<open>t_time_slice\<close> is a field the scheduler uses and the header does not declare. It is a signed
  number here, because the tick compares it with \<open>\<le> 0\<close>; it counts down from 10 and never wraps.\<close>

record thread_info_t =
  t_cell_id :: u64
  t_thread_id :: u64
  t_state :: thread_state_t
  t_priority :: thread_priority_t
  t_stack_base :: ptr
  t_stack_size :: u64
  t_instruction_pointer :: u64
  t_time_slice :: int

record runqueue_t =
  rq_lock :: spinlock_t
  rq_current :: ptr
  rq_idle_thread :: ptr
  nr_running :: u64
  nr_switches :: u64
  rq_bitmap :: u64

record sched_env =
  e_unlocked :: spinlock_t
  e_lock :: "spinlock_t \<Rightarrow> spinlock_t option"
  e_unlock :: "spinlock_t \<Rightarrow> spinlock_t"
  e_list_init :: "lnode \<Rightarrow> links \<Rightarrow> links"
  e_list_add_tail :: "lnode \<Rightarrow> lnode \<Rightarrow> links \<Rightarrow> links"
  e_list_del :: "lnode \<Rightarrow> links \<Rightarrow> links"
  e_list_empty :: "lnode \<Rightarrow> links \<Rightarrow> bool"
  e_list_first_entry :: "lnode \<Rightarrow> links \<Rightarrow> ptr"
  e_thread_size :: u64
  e_idle_loop :: u64
  e_cpu_count :: u64

datatype sched_event = Switch_to ptr ptr | Init_context ptr u64 ptr

record sched_state = ipc_state +
  g_runqueues :: "runqueue_t list"
  g_cpu_count :: u64
  g_thread_counter :: atomic_t
  threads :: "ptr \<Rightarrow> thread_info_t"
  run_links :: links
  sched_events :: "sched_event list"

definition thread_zero :: thread_info_t where
  "thread_zero = \<lparr>t_cell_id = 0, t_thread_id = 0, t_state = THREAD_STATE_UNUSED, t_priority = PRIORITY_IDLE,
     t_stack_base = 0, t_stack_size = 0, t_instruction_pointer = 0, t_time_slice = 0\<rparr>"

definition get_rq :: "nat \<Rightarrow> 'a sched_state_scheme \<Rightarrow> runqueue_t" where
  "get_rq cpu s = g_runqueues s ! cpu"

definition set_rq :: "nat \<Rightarrow> runqueue_t \<Rightarrow> 'a sched_state_scheme \<Rightarrow> 'a sched_state_scheme" where
  "set_rq cpu rq s = s\<lparr>g_runqueues := (g_runqueues s)[cpu := rq]\<rparr>"

definition set_thread :: "ptr \<Rightarrow> thread_info_t \<Rightarrow> 'a sched_state_scheme \<Rightarrow> 'a sched_state_scheme" where
  "set_thread t v s = s\<lparr>threads := (threads s)(t := v)\<rparr>"

definition queue_of_thread :: "nat \<Rightarrow> thread_info_t \<Rightarrow> lnode" where
  "queue_of_thread cpu th = Head cpu (priority_value (t_priority th))"

section \<open>Run queues\<close>

fun init_queues :: "sched_env \<Rightarrow> nat \<Rightarrow> nat \<Rightarrow> nat \<Rightarrow> links \<Rightarrow> links" where
  "init_queues E cpu i 0 l = l"
| "init_queues E cpu i (Suc n) l = init_queues E cpu (Suc i) n (e_list_init E (Head cpu i) l)"

definition init_runqueue :: "sched_env \<Rightarrow> nat \<Rightarrow> 'a sched_state_scheme \<Rightarrow> 'a sched_state_scheme" where
  "init_runqueue E cpu s =
     (set_rq cpu \<lparr>rq_lock = e_unlocked E, rq_current = 0, rq_idle_thread = 0, nr_running = 0, nr_switches = 0,
        rq_bitmap = 0\<rparr> s)\<lparr>run_links := init_queues E cpu 0 NR_PRIORITY_LEVELS (run_links s)\<rparr>"

definition lock_rq :: "sched_env \<Rightarrow> nat \<Rightarrow> 'a sched_state_scheme \<Rightarrow> 'a sched_state_scheme option" where
  "lock_rq E cpu s =
     map_option (\<lambda>k. set_rq cpu ((get_rq cpu s)\<lparr>rq_lock := k\<rparr>) s) (e_lock E (rq_lock (get_rq cpu s)))"

definition unlock_rq :: "sched_env \<Rightarrow> nat \<Rightarrow> 'a sched_state_scheme \<Rightarrow> 'a sched_state_scheme" where
  "unlock_rq E cpu s = set_rq cpu ((get_rq cpu s)\<lparr>rq_lock := e_unlock E (rq_lock (get_rq cpu s))\<rparr>) s"

definition sched_enqueue :: "sched_env \<Rightarrow> ptr \<Rightarrow> 'a sched_state_scheme \<Rightarrow> 'a sched_state_scheme option" where
  "sched_enqueue E thread s =
     (if thread = 0 \<or> t_state (threads s thread) \<noteq> THREAD_STATE_READY then Some s
      else
        let cpu = 0; th = threads s thread in
        case lock_rq E cpu s of None \<Rightarrow> None
        | Some s1 \<Rightarrow>
            let s2 = s1\<lparr>run_links := e_list_add_tail E (Run thread) (queue_of_thread cpu th) (run_links s1)\<rparr>;
                rq = get_rq cpu s2;
                s3 = set_rq cpu (rq\<lparr>rq_bitmap := rq_bitmap rq OR push_bit (priority_value (t_priority th)) 1,
                                    nr_running := nr_running rq + 1\<rparr>) s2
            in Some (unlock_rq E cpu s3))"

definition sched_dequeue :: "sched_env \<Rightarrow> ptr \<Rightarrow> 'a sched_state_scheme \<Rightarrow> 'a sched_state_scheme option" where
  "sched_dequeue E thread s =
     (if thread = 0 then Some s
      else
        let cpu = 0; th = threads s thread in
        case lock_rq E cpu s of None \<Rightarrow> None
        | Some s1 \<Rightarrow>
            let s2 = s1\<lparr>run_links := e_list_del E (Run thread) (run_links s1)\<rparr>;
                rq = get_rq cpu s2;
                rq1 = (if e_list_empty E (queue_of_thread cpu th) (run_links s2)
                       then rq\<lparr>rq_bitmap := rq_bitmap rq AND NOT (push_bit (priority_value (t_priority th)) 1)\<rparr> else rq);
                s3 = set_rq cpu (rq1\<lparr>nr_running := nr_running rq1 - 1\<rparr>) s2
            in Some (unlock_rq E cpu s3))"

section \<open>Choosing and switching\<close>

text \<open>\<open>__builtin_clzll\<close> of a nonzero word.\<close>

fun clz_from :: "nat \<Rightarrow> u64 \<Rightarrow> nat" where
  "clz_from 0 x = 64"
| "clz_from (Suc n) x = (if bit x n then 63 - n else clz_from n x)"

definition builtin_clzll :: "u64 \<Rightarrow> nat" where
  "builtin_clzll x = clz_from 64 x"

definition get_next_thread :: "sched_env \<Rightarrow> nat \<Rightarrow> 'a sched_state_scheme \<Rightarrow> ptr" where
  "get_next_thread E cpu s =
     (let rq = get_rq cpu s in
      if rq_bitmap rq = 0 then rq_idle_thread rq
      else
        let priority = builtin_clzll (rq_bitmap rq) XOR 63
        in e_list_first_entry E (Head cpu priority) (run_links s))"

definition schedule :: "sched_env \<Rightarrow> 'a sched_state_scheme \<Rightarrow> 'a sched_state_scheme option" where
  "schedule E s =
     (let cpu = 0 in
      case lock_rq E cpu s of None \<Rightarrow> None
      | Some s1 \<Rightarrow>
          let prev = rq_current (get_rq cpu s1); nxt = get_next_thread E cpu s1 in
          if prev = nxt then Some (unlock_rq E cpu s1)
          else
            let rq = get_rq cpu s1;
                s2 = set_rq cpu (rq\<lparr>rq_current := nxt, nr_switches := nr_switches rq + 1\<rparr>) s1;
                s3 = unlock_rq E cpu s2
            in Some (s3\<lparr>sched_events := sched_events s3 @ [Switch_to prev nxt]\<rparr>))"

text \<open>\<open>current\<close> is the constant \<open>NULL\<close> in the code.\<close>

definition sched_yield :: "sched_env \<Rightarrow> 'a sched_state_scheme \<Rightarrow> 'a sched_state_scheme option" where
  "sched_yield E s =
     (let current = 0 :: ptr in
      if current \<noteq> 0 \<and> t_state (threads s current) = THREAD_STATE_RUNNING then
        (case sched_enqueue E current (set_thread current ((threads s current)\<lparr>t_state := THREAD_STATE_READY\<rparr>) s) of
           None \<Rightarrow> None | Some s1 \<Rightarrow> schedule E s1)
      else Some s)"

definition sched_block :: "sched_env \<Rightarrow> ptr \<Rightarrow> 'a sched_state_scheme \<Rightarrow> 'a sched_state_scheme option" where
  "sched_block E thread s =
     (if thread = 0 then Some s
      else case sched_dequeue E thread (set_thread thread ((threads s thread)\<lparr>t_state := THREAD_STATE_BLOCKED\<rparr>) s) of
        None \<Rightarrow> None | Some s1 \<Rightarrow> schedule E s1)"

definition sched_wakeup :: "sched_env \<Rightarrow> ptr \<Rightarrow> 'a sched_state_scheme \<Rightarrow> 'a sched_state_scheme option" where
  "sched_wakeup E thread s =
     (if thread = 0 \<or> t_state (threads s thread) \<noteq> THREAD_STATE_BLOCKED then Some s
      else sched_enqueue E thread (set_thread thread ((threads s thread)\<lparr>t_state := THREAD_STATE_READY\<rparr>) s))"

text \<open>\<open>current\<close> is the constant \<open>NULL\<close> here, too; the wake-up time it would set is never read.\<close>

definition sched_sleep :: "sched_env \<Rightarrow> u64 \<Rightarrow> 'a sched_state_scheme \<Rightarrow> 'a sched_state_scheme option" where
  "sched_sleep E ms s =
     (let current = 0 :: ptr in
      if current = 0 then Some s
      else case sched_dequeue E current (set_thread current ((threads s current)\<lparr>t_state := THREAD_STATE_SLEEPING\<rparr>) s) of
        None \<Rightarrow> None | Some s1 \<Rightarrow> schedule E s1)"

definition sched_tick :: "sched_env \<Rightarrow> 'a sched_state_scheme \<Rightarrow> 'a sched_state_scheme option" where
  "sched_tick E s =
     (let cpu = 0; rq = get_rq cpu s; current = rq_current rq in
      if current = 0 \<or> current = rq_idle_thread rq then Some s
      else
        let th = threads s current;
            th1 = th\<lparr>t_time_slice := t_time_slice th - 1\<rparr>;
            s1 = set_thread current th1 s in
        if t_time_slice th1 \<le> 0 then
          (case sched_enqueue E current
              (set_thread current (th1\<lparr>t_state := THREAD_STATE_READY, t_time_slice := TIME_SLICE_MS\<rparr>) s1) of
             None \<Rightarrow> None | Some s2 \<Rightarrow> schedule E s2)
        else Some s1)"

section \<open>Threads\<close>

definition sched_create_thread ::
  "(u64 \<Rightarrow> u64 \<Rightarrow> 'a sched_state_scheme \<Rightarrow> ptr \<times> 'a sched_state_scheme) \<Rightarrow> sched_env \<Rightarrow> u64 \<Rightarrow> u64 \<Rightarrow> ptr \<Rightarrow> u64 \<Rightarrow>
   thread_priority_t \<Rightarrow> 'a sched_state_scheme \<Rightarrow> (ptr \<times> 'a sched_state_scheme) option" where
  "sched_create_thread calloc E cell_id entry stack_base stack_size priority s =
     (case kmalloc calloc (e_thread_size E) s of None \<Rightarrow> None
      | Some (thread, s1) \<Rightarrow>
          if thread = 0 then Some (0, s1)
          else case atomic_inc (g_thread_counter s1) of (tid, counter) \<Rightarrow>
            let th = thread_zero\<lparr>t_cell_id := cell_id, t_thread_id := tid, t_state := THREAD_STATE_READY,
                  t_priority := priority, t_stack_base := stack_base, t_stack_size := stack_size,
                  t_instruction_pointer := entry, t_time_slice := TIME_SLICE_MS\<rparr>;
                s2 = set_thread thread th (s1\<lparr>g_thread_counter := counter\<rparr>)
            in Some (thread, s2\<lparr>sched_events := sched_events s2 @ [Init_context thread entry stack_base]\<rparr>))"

definition sched_destroy_thread :: "sched_env \<Rightarrow> ptr \<Rightarrow> 'a sched_state_scheme \<Rightarrow> 'a sched_state_scheme option" where
  "sched_destroy_thread E thread s =
     (if thread = 0 then Some s
      else case sched_dequeue E thread s of None \<Rightarrow> None
        | Some s1 \<Rightarrow>
            let s2 = set_thread thread ((threads s1 thread)\<lparr>t_state := THREAD_STATE_ZOMBIE\<rparr>) s1 in
            case kfree (t_stack_base (threads s2 thread)) s2 of None \<Rightarrow> None
            | Some s3 \<Rightarrow> kfree thread s3)"

fun init_runqueues :: "sched_env \<Rightarrow> nat \<Rightarrow> nat \<Rightarrow> 'a sched_state_scheme \<Rightarrow> 'a sched_state_scheme" where
  "init_runqueues E i 0 s = s"
| "init_runqueues E i (Suc n) s = init_runqueues E (Suc i) n (init_runqueue E i s)"

fun create_idle ::
  "(u64 \<Rightarrow> u64 \<Rightarrow> 'a sched_state_scheme \<Rightarrow> ptr \<times> 'a sched_state_scheme) \<Rightarrow> sched_env \<Rightarrow> nat \<Rightarrow> nat \<Rightarrow>
   'a sched_state_scheme \<Rightarrow> 'a sched_state_scheme option" where
  "create_idle calloc E i 0 s = Some s"
| "create_idle calloc E i (Suc n) s =
     (case alloc_page 0 s of (stack, s1) \<Rightarrow>
        case sched_create_thread calloc E CELL_ID_KERNEL (e_idle_loop E) stack PAGE_SIZE PRIORITY_IDLE s1 of
          None \<Rightarrow> None
        | Some (idle, s2) \<Rightarrow>
            create_idle calloc E (Suc i) n
              (if idle \<noteq> 0 then set_rq i ((get_rq i s2)\<lparr>rq_idle_thread := idle, rq_current := idle\<rparr>) s2 else s2))"

definition scheduler_init ::
  "(u64 \<Rightarrow> u64 \<Rightarrow> 'a sched_state_scheme \<Rightarrow> ptr \<times> 'a sched_state_scheme) \<Rightarrow> sched_env \<Rightarrow>
   'a sched_state_scheme \<Rightarrow> 'a sched_state_scheme option" where
  "scheduler_init calloc E s =
     (let s1 = s\<lparr>g_cpu_count := e_cpu_count E\<rparr>;
          s2 = (if g_cpu_count s1 > MAX_CPUS then s1\<lparr>g_cpu_count := MAX_CPUS\<rparr> else s1);
          n = unat (g_cpu_count s2)
      in create_idle calloc E 0 n (init_runqueues E 0 n s2))"

end
