(* ===== verification/CK_Serial.thy ===== *)
theory CK_Serial
  imports CK_Sched "HOL-Library.Monad_Syntax"
begin

text \<open>
  Model of the serial console of \<open>kernel/core/main.c\<close>. The device is the argument \<open>D\<close>: \<open>D k\<close> is
  the value of the line status register at its \<open>k\<close>-th read. What is written to the data register
  is appended to \<open>serial_out\<close>. The wait for the device may never end, \<open>None\<close>. C strings end at the
  first NUL.
\<close>

unbundle bit_operations_syntax

type_synonym uart = "nat \<Rightarrow> u32"

record serial_state = sched_state +
  serial_polls :: nat
  serial_out :: "u32 list"

section \<open>Operations\<close>

definition NUL :: char where "NUL = CHR 0x00"

partial_function (option) serial_wait :: "uart \<Rightarrow> nat \<Rightarrow> nat option" where
  "serial_wait D k = (if drop_bit 5 (D k) AND 1 \<noteq> 0 then Some (Suc k) else serial_wait D (Suc k))"

definition char_reg :: "char \<Rightarrow> u32" where
  "char_reg c = scast (of_char c :: u8)"

definition serial_putc :: "uart \<Rightarrow> char \<Rightarrow> 'a serial_state_scheme \<Rightarrow> 'a serial_state_scheme option" where
  "serial_putc D c s = do {
     k \<leftarrow> serial_wait D (serial_polls s);
     Some (s\<lparr>serial_polls := k, serial_out := serial_out s @ [char_reg c]\<rparr>)
   }"

fun serial_print :: "uart \<Rightarrow> string \<Rightarrow> 'a serial_state_scheme \<Rightarrow> 'a serial_state_scheme option" where
  "serial_print D [] s = Some s"
| "serial_print D (c # cs) s = (if c = NUL then Some s else do { s1 \<leftarrow> serial_putc D c s; serial_print D cs s1 })"

definition hex_chars :: string where "hex_chars = ''0123456789ABCDEF''"

text \<open>The loop from the last digit to the first; every character of the buffer is overwritten.\<close>

fun hex_fill :: "nat \<Rightarrow> u64 \<Rightarrow> string \<Rightarrow> string" where
  "hex_fill 0 val buf = buf"
| "hex_fill (Suc i) val buf = hex_fill i (drop_bit 4 val) (buf[i := hex_chars ! unat (val AND 0xF)])"

definition serial_print_hex :: "uart \<Rightarrow> u64 \<Rightarrow> 'a serial_state_scheme \<Rightarrow> 'a serial_state_scheme option" where
  "serial_print_hex D val s = serial_print D (hex_fill 16 val (replicate 16 NUL)) s"

definition serial_println :: "uart \<Rightarrow> string \<Rightarrow> 'a serial_state_scheme \<Rightarrow> 'a serial_state_scheme option" where
  "serial_println D str s = do {
     s1 \<leftarrow> serial_print D str s;
     s2 \<leftarrow> serial_putc D (CHR 0x0D) s1;
     serial_putc D (CHR 0x0A) s2
   }"

text \<open>Printing functions are called in sequences; such a sequence is a list of calls.\<close>

datatype print_call = Putc char | Print string | Hex u64 | Println string

fun print_one :: "uart \<Rightarrow> print_call \<Rightarrow> 'a serial_state_scheme \<Rightarrow> 'a serial_state_scheme option" where
  "print_one D (Putc c) s = serial_putc D c s"
| "print_one D (Print str) s = serial_print D str s"
| "print_one D (Hex v) s = serial_print_hex D v s"
| "print_one D (Println str) s = serial_println D str s"

fun print_calls :: "uart \<Rightarrow> print_call list \<Rightarrow> 'a serial_state_scheme \<Rightarrow> 'a serial_state_scheme option" where
  "print_calls D [] s = Some s"
| "print_calls D (c # cs) s = do { s1 \<leftarrow> print_one D c s; print_calls D cs s1 }"

section \<open>Waiting for the device\<close>

text \<open>The device is ready again and again.\<close>

definition uart_live :: "uart \<Rightarrow> bool" where
  "uart_live D \<longleftrightarrow> (\<forall>k. \<exists>j \<ge> k. drop_bit 5 (D j) AND 1 \<noteq> 0)"

lemma serial_wait_ends:
  assumes "drop_bit 5 (D j) AND 1 \<noteq> 0" "k \<le> j"
  shows "\<exists>n. serial_wait D k = Some n"
  using assms(2)
proof (induction "j - k" arbitrary: k)
  case 0
  then show ?case using assms(1) by (subst serial_wait.simps) simp
next
  case (Suc d)
  then show ?case by (subst serial_wait.simps) auto
qed

text \<open>What a printing step does: it adds characters to the output and changes nothing else.\<close>

definition outputs :: "u32 list \<Rightarrow> 'a serial_state_scheme \<Rightarrow> 'a serial_state_scheme \<Rightarrow> bool" where
  "outputs cs s s' \<longleftrightarrow> (\<exists>k. s' = s\<lparr>serial_polls := k, serial_out := serial_out s @ cs\<rparr>)"

lemma outputs_refl: "outputs [] s s"
  unfolding outputs_def by (rule exI [of _ "serial_polls s"]) simp

lemma outputs_trans: "outputs cs s t \<Longrightarrow> outputs ds t u \<Longrightarrow> outputs (cs @ ds) s u"
  by (auto simp: outputs_def)

lemma serial_putc_run:
  assumes "uart_live D"
  shows "\<exists>s'. serial_putc D c s = Some s' \<and> outputs [char_reg c] s s'"
proof -
  obtain j where "serial_polls s \<le> j" "drop_bit 5 (D j) AND 1 \<noteq> 0" using assms unfolding uart_live_def by blast
  then obtain n where "serial_wait D (serial_polls s) = Some n" using serial_wait_ends by blast
  then show ?thesis by (auto simp: serial_putc_def outputs_def)
qed

definition cstr :: "string \<Rightarrow> string" where
  "cstr xs = takeWhile (\<lambda>c. c \<noteq> NUL) xs"

lemma serial_print_run:
  assumes "uart_live D"
  shows "\<exists>s'. serial_print D str s = Some s' \<and> outputs (map char_reg (cstr str)) s s'"
proof (induction str arbitrary: s)
  case (Cons c cs)
  obtain s1 where 1: "serial_putc D c s = Some s1" "outputs [char_reg c] s s1" using serial_putc_run [OF assms] by blast
  obtain s2 where "serial_print D cs s1 = Some s2" "outputs (map char_reg (cstr cs)) s1 s2" using Cons.IH by blast
  then show ?case using 1 outputs_trans [OF 1(2)] by (auto simp: cstr_def outputs_refl)
qed (auto simp: cstr_def outputs_refl)

lemma serial_println_run:
  assumes "uart_live D"
  shows "\<exists>s'. serial_println D str s = Some s' \<and> outputs (map char_reg (cstr str @ [CHR 0x0D, CHR 0x0A])) s s'"
proof -
  obtain s1 where 1: "serial_print D str s = Some s1" "outputs (map char_reg (cstr str)) s s1"
    using serial_print_run [OF assms] by blast
  obtain s2 where 2: "serial_putc D (CHR 0x0D) s1 = Some s2" "outputs [char_reg (CHR 0x0D)] s1 s2"
    using serial_putc_run [OF assms] by blast
  obtain s3 where 3: "serial_putc D (CHR 0x0A) s2 = Some s3" "outputs [char_reg (CHR 0x0A)] s2 s3"
    using serial_putc_run [OF assms] by blast
  show ?thesis using 1 2 3 outputs_trans [OF outputs_trans [OF 1(2) 2(2)] 3(2)] by (simp add: serial_println_def)
qed

section \<open>Hexadecimal numbers\<close>

definition hex_value :: "char \<Rightarrow> nat" where
  "hex_value c = (if of_char c < (58 :: nat) then of_char c - 48 else of_char c - 55)"

definition hex_number :: "string \<Rightarrow> nat" where
  "hex_number cs = foldl (\<lambda>a c. 16 * a + hex_value c) 0 cs"

lemma hex_digit_value: "d < 16 \<Longrightarrow> hex_value (hex_chars ! d) = d \<and> hex_chars ! d \<noteq> NUL"
proof -
  have "\<forall>d \<in> set [0..<16]. hex_value (hex_chars ! d) = d \<and> hex_chars ! d \<noteq> NUL"
    by (simp add: upt_rec hex_value_def hex_chars_def NUL_def)
  then show "d < 16 \<Longrightarrow> ?thesis" by auto
qed

fun hex_digits :: "nat \<Rightarrow> u64 \<Rightarrow> string" where
  "hex_digits 0 v = []"
| "hex_digits (Suc n) v = hex_digits n (drop_bit 4 v) @ [hex_chars ! unat (v AND 0xF)]"

lemma length_hex_digits [simp]: "length (hex_digits n v) = n"
  by (induction n arbitrary: v) auto

lemma hex_fill_digits: "n \<le> length buf \<Longrightarrow> hex_fill n v buf = hex_digits n v @ drop n buf"
proof (induction n arbitrary: v buf)
  case (Suc n)
  have "drop n (buf[n := c]) = c # drop (Suc n) buf" for c
    using Suc.prems by (simp add: drop_update_swap Cons_nth_drop_Suc [symmetric])
  then show ?case using Suc by simp
qed simp

lemma unat_nibble: "unat (v AND (0xF :: u64)) = unat v mod 16" "unat (drop_bit 4 (v :: u64)) = unat v div 16"
proof -
  have "(0xF :: u64) = mask 4" by (simp add: mask_eq_exp_minus_1)
  then have "v AND 0xF = take_bit 4 v" by (simp only: take_bit_eq_mask)
  then have "unat (v AND 0xF) = take_bit 4 (unat v)" by (simp only: unsigned_take_bit_eq)
  then show "unat (v AND 0xF) = unat v mod 16" by (simp add: take_bit_eq_mod)
  show "unat (drop_bit 4 v) = unat v div 16" by (simp add: drop_bit_eq_div unat_div_distrib)
qed

lemma hex_number_digits: "hex_number (hex_digits n v) = unat v mod 16 ^ n"
proof (induction n arbitrary: v)
  case (Suc n)
  have "hex_number (hex_digits (Suc n) v) = 16 * (unat v div 16 mod 16 ^ n) + unat v mod 16"
    using Suc.IH [of "drop_bit 4 v"] hex_digit_value [of "unat v mod 16"] by (simp add: hex_number_def unat_nibble)
  then show ?case by (simp add: mod_mult2_eq)
qed (simp add: hex_number_def)

lemma hex_digits_nonzero: "NUL \<notin> set (hex_digits n v)"
proof (induction n arbitrary: v)
  case (Suc n)
  then show ?case using hex_digit_value [of "unat v mod 16"] by (auto simp: unat_nibble)
qed simp

lemma cstr_id: "NUL \<notin> set xs \<Longrightarrow> cstr xs = xs"
  unfolding cstr_def by (rule takeWhile_eq_all_conv [THEN iffD2]) auto

lemma serial_print_hex_run:
  assumes "uart_live D"
  shows "\<exists>s'. serial_print_hex D v s = Some s' \<and> outputs (map char_reg (hex_digits 16 v)) s s'"
proof -
  have "hex_fill 16 v (replicate 16 NUL) = hex_digits 16 v" by (simp add: hex_fill_digits)
  then show ?thesis using serial_print_run [OF assms, of "hex_digits 16 v" s]
    by (simp add: serial_print_hex_def cstr_id hex_digits_nonzero)
qed

section \<open>Sequences of calls\<close>

fun printed :: "print_call \<Rightarrow> string" where
  "printed (Putc c) = [c]"
| "printed (Print str) = cstr str"
| "printed (Hex v) = hex_digits 16 v"
| "printed (Println str) = cstr str @ [CHR 0x0D, CHR 0x0A]"

definition printout :: "print_call list \<Rightarrow> u32 list" where
  "printout cs = map char_reg (concat (map printed cs))"

lemma print_one_run:
  assumes "uart_live D"
  shows "\<exists>s'. print_one D c s = Some s' \<and> outputs (map char_reg (printed c)) s s'"
  using serial_putc_run [OF assms] serial_print_run [OF assms] serial_print_hex_run [OF assms] serial_println_run [OF assms]
  by (cases c) simp_all

lemma print_calls_run:
  assumes "uart_live D"
  shows "\<exists>s'. print_calls D cs s = Some s' \<and> outputs (printout cs) s s'"
proof (induction cs arbitrary: s)
  case Nil
  then show ?case by (simp add: printout_def outputs_refl)
next
  case (Cons c cs)
  obtain s1 where 1: "print_one D c s = Some s1" "outputs (map char_reg (printed c)) s s1" using print_one_run [OF assms] by blast
  obtain s2 where "print_calls D cs s1 = Some s2" "outputs (printout cs) s1 s2" using Cons.IH by blast
  then show ?case using 1 outputs_trans [OF 1(2)] by (auto simp: printout_def)
qed

declare serial_print.simps [simp del] print_calls.simps [simp del]

end
