(* ===== verification/CK_Vfs.thy ===== *)
theory CK_Vfs
  imports CK_Serial
begin

text \<open>
  Model of \<open>filesystems/vfs/vfs_core.c\<close>: registered filesystems, mount points and open files.
  The functions of a filesystem are not part of the sources: a function pointer is an address, and
  calling it is an operation of the argument \<open>X\<close>. The walk over the list of filesystems may never
  end, \<open>None\<close>.
\<close>

unbundle bit_operations_syntax

section \<open>Data\<close>

definition MAX_MOUNT_POINTS :: nat where "MAX_MOUNT_POINTS = 64"
definition MAX_OPEN_FILES :: int where "MAX_OPEN_FILES = 4096"

record file_operations_t =
  f_open :: ptr
  f_close :: ptr
  f_read :: ptr
  f_write :: ptr
  f_seek :: ptr
  f_stat :: ptr
  f_readdir :: ptr
  f_mkdir :: ptr
  f_unlink :: ptr

record vfs_inode_t =
  i_ino :: u64
  i_mode :: u32
  i_uid :: u32
  i_gid :: u32
  i_size :: u64
  i_atime :: u64
  i_mtime :: u64
  i_ctime :: u64
  i_nlink :: u32
  i_type :: u32
  i_private_data :: ptr
  i_fops :: ptr
  i_refcount :: atomic_t

record mount_point_t =
  m_path :: string
  m_fs :: ptr
  m_root_inode :: ptr
  m_private_data :: ptr
  m_flags :: u32

record vfs_filesystem_t =
  fs_name :: string
  fs_magic :: u32
  fs_mount :: ptr
  fs_umount :: ptr
  fs_statfs :: ptr
  fs_fops :: ptr
  fs_next :: ptr

record vfs_file_t =
  v_fd :: u32
  v_inode :: ptr
  v_mount :: ptr
  v_flags :: u32
  v_position :: int
  v_private_data :: ptr
  v_refcount :: atomic_t

record vfs_state = serial_state +
  g_filesystems :: ptr
  g_mount_points :: "mount_point_t list"
  g_open_files :: "vfs_file_t list"
  g_next_fd :: atomic_t
  filesystems :: "ptr \<Rightarrow> vfs_filesystem_t"
  inodes :: "ptr \<Rightarrow> vfs_inode_t"
  file_ops :: "ptr \<Rightarrow> file_operations_t"

record 's vfs_ext =
  x_mount :: "ptr \<Rightarrow> nat \<Rightarrow> string \<Rightarrow> u32 \<Rightarrow> 's \<Rightarrow> int \<times> 's"
  x_umount :: "ptr \<Rightarrow> nat \<Rightarrow> 's \<Rightarrow> int \<times> 's"
  x_close :: "ptr \<Rightarrow> nat \<Rightarrow> 's \<Rightarrow> int \<times> 's"
  x_read :: "ptr \<Rightarrow> nat \<Rightarrow> ptr \<Rightarrow> u64 \<Rightarrow> int \<Rightarrow> 's \<Rightarrow> int \<times> 's"
  x_write :: "ptr \<Rightarrow> nat \<Rightarrow> ptr \<Rightarrow> u64 \<Rightarrow> int \<Rightarrow> 's \<Rightarrow> int \<times> 's"

definition mount_zero :: mount_point_t where
  "mount_zero = \<lparr>m_path = [], m_fs = 0, m_root_inode = 0, m_private_data = 0, m_flags = 0\<rparr>"

definition file_zero :: vfs_file_t where
  "file_zero = \<lparr>v_fd = 0, v_inode = 0, v_mount = 0, v_flags = 0, v_position = 0, v_private_data = 0, v_refcount = 0\<rparr>"

text \<open>\<open>strncmp(a, b, n) == 0\<close>.\<close>

definition strncmp_eq :: "nat \<Rightarrow> string \<Rightarrow> string \<Rightarrow> bool" where
  "strncmp_eq n a b \<longleftrightarrow> take n (cstr a) = take n (cstr b)"

definition set_mount :: "nat \<Rightarrow> mount_point_t \<Rightarrow> 'a vfs_state_scheme \<Rightarrow> 'a vfs_state_scheme" where
  "set_mount i m s = s\<lparr>g_mount_points := (g_mount_points s)[i := m]\<rparr>"

definition set_file :: "nat \<Rightarrow> vfs_file_t \<Rightarrow> 'a vfs_state_scheme \<Rightarrow> 'a vfs_state_scheme" where
  "set_file i f s = s\<lparr>g_open_files := (g_open_files s)[i := f]\<rparr>"

definition set_fs :: "ptr \<Rightarrow> vfs_filesystem_t \<Rightarrow> 'a vfs_state_scheme \<Rightarrow> 'a vfs_state_scheme" where
  "set_fs p f s = s\<lparr>filesystems := (filesystems s)(p := f)\<rparr>"

section \<open>Filesystems\<close>

definition vfs_init :: "uart \<Rightarrow> 'a vfs_state_scheme \<Rightarrow> 'a vfs_state_scheme option" where
  "vfs_init D s = do {
     s1 \<leftarrow> serial_println D ''[*] Initializing VFS...'' s;
     let s2 = s1\<lparr>g_mount_points := (replicate MAX_MOUNT_POINTS mount_zero)[0 := mount_zero\<lparr>m_path := ''/''\<rparr>],
                 g_open_files := replicate (nat MAX_OPEN_FILES) file_zero\<rparr>;
     serial_println D ''[+] VFS initialized'' s2
   }"

definition vfs_register_filesystem :: "uart \<Rightarrow> ptr \<Rightarrow> 'a vfs_state_scheme \<Rightarrow> (int \<times> 'a vfs_state_scheme) option" where
  "vfs_register_filesystem D fs s =
     (if fs = 0 \<or> cstr (fs_name (filesystems s fs)) = [] then Some (CK_ERROR_INVALID_ARG, s)
      else do {
        let s1 = set_fs fs ((filesystems s fs)\<lparr>fs_next := g_filesystems s\<rparr>) s;
        let s2 = s1\<lparr>g_filesystems := fs\<rparr>;
        s3 \<leftarrow> serial_print D ''[-] Registered filesystem: '' s2;
        s4 \<leftarrow> serial_println D (fs_name (filesystems s3 fs)) s3;
        Some (CK_SUCCESS, s4)
      })"

text \<open>The walk that \<open>find_filesystem\<close> and \<open>vfs_unregister_filesystem\<close> share; the second result is the
  node before, 0 for the head pointer.\<close>

partial_function (option) walk_filesystems ::
  "(ptr \<Rightarrow> vfs_filesystem_t) \<Rightarrow> string \<Rightarrow> ptr \<Rightarrow> ptr \<Rightarrow> (ptr \<times> ptr) option" where
  "walk_filesystems h name prev cur =
     (if cur = 0 then Some (0, prev)
      else if strncmp_eq 32 (fs_name (h cur)) name then Some (cur, prev)
      else walk_filesystems h name cur (fs_next (h cur)))"

definition vfs_unregister_filesystem :: "string \<Rightarrow> 'a vfs_state_scheme \<Rightarrow> (int \<times> 'a vfs_state_scheme) option" where
  "vfs_unregister_filesystem name s = do {
     (cur, prev) \<leftarrow> walk_filesystems (filesystems s) name 0 (g_filesystems s);
     if cur = 0 then Some (CK_ERROR_NOT_FOUND, s)
     else if prev = 0 then Some (CK_SUCCESS, s\<lparr>g_filesystems := fs_next (filesystems s cur)\<rparr>)
     else Some (CK_SUCCESS, set_fs prev ((filesystems s prev)\<lparr>fs_next := fs_next (filesystems s cur)\<rparr>) s)
   }"

definition find_filesystem :: "string \<Rightarrow> 'a vfs_state_scheme \<Rightarrow> ptr option" where
  "find_filesystem name s = map_option fst (walk_filesystems (filesystems s) name 0 (g_filesystems s))"

section \<open>Mount points\<close>

fun find_slot :: "mount_point_t list \<Rightarrow> nat" where
  "find_slot [] = 0"
| "find_slot (m # ms) = (if cstr (m_path m) = [] then 0 else Suc (find_slot ms))"

text \<open>The call of the filesystem's own function, if it has one.\<close>

definition call_mount ::
  "'a vfs_state_scheme vfs_ext \<Rightarrow> ptr \<Rightarrow> nat \<Rightarrow> string \<Rightarrow> u32 \<Rightarrow> 'a vfs_state_scheme \<Rightarrow> int \<times> 'a vfs_state_scheme" where
  "call_mount X fs i source flags s =
     (if fs_mount (filesystems s fs) \<noteq> 0 then x_mount X (fs_mount (filesystems s fs)) i source flags s else (CK_SUCCESS, s))"

definition call_umount ::
  "'a vfs_state_scheme vfs_ext \<Rightarrow> ptr \<Rightarrow> nat \<Rightarrow> 'a vfs_state_scheme \<Rightarrow> int \<times> 'a vfs_state_scheme" where
  "call_umount X fs i s =
     (if fs \<noteq> 0 \<and> fs_umount (filesystems s fs) \<noteq> 0 then x_umount X (fs_umount (filesystems s fs)) i s else (CK_SUCCESS, s))"

definition vfs_mount ::
  "uart \<Rightarrow> 'a vfs_state_scheme vfs_ext \<Rightarrow> string \<Rightarrow> string \<Rightarrow> string \<Rightarrow> u32 \<Rightarrow> 'a vfs_state_scheme \<Rightarrow>
   (int \<times> 'a vfs_state_scheme) option" where
  "vfs_mount D X source target fstype flags s = do {
     fs \<leftarrow> find_filesystem fstype s;
     if fs = 0 then do {
       s1 \<leftarrow> serial_print D ''[!] Unknown filesystem: '' s;
       s2 \<leftarrow> serial_println D fstype s1;
       Some (CK_ERROR_NOT_FOUND, s2)
     } else do {
       let i = find_slot (g_mount_points s);
       if i \<ge> MAX_MOUNT_POINTS then Some (CK_ERROR_NO_MEMORY, s)
       else do {
         let s1 = set_mount i ((g_mount_points s ! i)\<lparr>m_path := take 255 (cstr target), m_fs := fs, m_flags := flags\<rparr>) s;
         let (ret, s2) = call_mount X fs i source flags s1;
         if ret \<noteq> CK_SUCCESS then Some (ret, set_mount i ((g_mount_points s2 ! i)\<lparr>m_path := []\<rparr>) s2)
         else do {
           s3 \<leftarrow> serial_print D ''[+] Mounted '' s2;
           s4 \<leftarrow> serial_print D fstype s3;
           s5 \<leftarrow> serial_print D '' on '' s4;
           s6 \<leftarrow> serial_println D target s5;
           Some (CK_SUCCESS, s6)
         }
       }
     }
   }"

fun find_mount :: "string \<Rightarrow> mount_point_t list \<Rightarrow> nat" where
  "find_mount target [] = 0"
| "find_mount target (m # ms) =
     (if cstr (m_path m) \<noteq> [] \<and> strncmp_eq 256 (m_path m) target then 0 else Suc (find_mount target ms))"

definition vfs_umount ::
  "uart \<Rightarrow> 'a vfs_state_scheme vfs_ext \<Rightarrow> string \<Rightarrow> 'a vfs_state_scheme \<Rightarrow> (int \<times> 'a vfs_state_scheme) option" where
  "vfs_umount D X target s = do {
     let i = find_mount target (g_mount_points s);
     if i \<ge> MAX_MOUNT_POINTS then Some (CK_ERROR_NOT_FOUND, s)
     else do {
       let fs = m_fs (g_mount_points s ! i);
       let (ret, s1) = call_umount X fs i s;
       if ret \<noteq> CK_SUCCESS then Some (ret, s1)
       else do {
         let s2 = set_mount i ((g_mount_points s1 ! i)\<lparr>m_path := []\<rparr>) s1;
         s3 \<leftarrow> serial_print D ''[+] Unmounted '' s2;
         s4 \<leftarrow> serial_println D target s3;
         Some (CK_SUCCESS, s4)
       }
     }
   }"

section \<open>Open files\<close>

definition alloc_fd :: "'a vfs_state_scheme \<Rightarrow> int \<times> 'a vfs_state_scheme" where
  "alloc_fd s =
     (case atomic_inc (g_next_fd s) of (v, n) \<Rightarrow>
        let fd = sint (ucast v :: 32 word) in
        if fd \<ge> MAX_OPEN_FILES then (CK_ERROR_NO_MEMORY, s\<lparr>g_next_fd := snd (atomic_dec n)\<rparr>)
        else (fd, s\<lparr>g_next_fd := n\<rparr>))"

definition free_fd :: "int \<Rightarrow> 'a vfs_state_scheme \<Rightarrow> 'a vfs_state_scheme" where
  "free_fd fd s =
     (if 0 \<le> fd \<and> fd < MAX_OPEN_FILES
      then set_file (nat fd) ((g_open_files s ! nat fd)\<lparr>v_inode := 0, v_flags := 0\<rparr>) s else s)"

definition vfs_open :: "string \<Rightarrow> int \<Rightarrow> int \<Rightarrow> 'a vfs_state_scheme \<Rightarrow> int \<times> 'a vfs_state_scheme" where
  "vfs_open pathname flags mode s =
     (case alloc_fd s of (fd, s1) \<Rightarrow>
        if fd < 0 then (fd, s1)
        else
          (fd, set_file (nat fd) ((g_open_files s1 ! nat fd)\<lparr>v_fd := word_of_int fd, v_flags := word_of_int flags,
                 v_position := 0, v_refcount := atomic_set 1\<rparr>) s1))"

definition vfs_close :: "'a vfs_state_scheme vfs_ext \<Rightarrow> int \<Rightarrow> 'a vfs_state_scheme \<Rightarrow> int \<times> 'a vfs_state_scheme" where
  "vfs_close X fd s =
     (if fd < 0 \<or> fd \<ge> MAX_OPEN_FILES then (CK_ERROR_INVALID_ARG, s)
      else
        let n = nat fd; file = g_open_files s ! n;
            s2 = (if sint (atomic_read (v_refcount file)) > 0 then
                    (let s1 = set_file n (file\<lparr>v_refcount := snd (atomic_dec (v_refcount file))\<rparr>) s;
                         ino = v_inode file; fops = i_fops (inodes s1 ino) in
                     if ino \<noteq> 0 \<and> fops \<noteq> 0 \<and> f_close (file_ops s1 fops) \<noteq> 0
                     then snd (x_close X (f_close (file_ops s1 fops)) n s1) else s1)
                  else s)
        in (CK_SUCCESS, free_fd fd s2))"

definition vfs_read ::
  "'a vfs_state_scheme vfs_ext \<Rightarrow> int \<Rightarrow> ptr \<Rightarrow> u64 \<Rightarrow> 'a vfs_state_scheme \<Rightarrow> int \<times> 'a vfs_state_scheme" where
  "vfs_read X fd buf count s =
     (if fd < 0 \<or> fd \<ge> MAX_OPEN_FILES then (CK_ERROR_INVALID_ARG, s)
      else
        let n = nat fd; file = g_open_files s ! n; fops = i_fops (inodes s (v_inode file)) in
        if v_inode file = 0 \<or> fops = 0 \<or> f_read (file_ops s fops) = 0 then (CK_ERROR_NOT_SUPPORTED, s)
        else x_read X (f_read (file_ops s fops)) n buf count (v_position file) s)"

definition vfs_write ::
  "'a vfs_state_scheme vfs_ext \<Rightarrow> int \<Rightarrow> ptr \<Rightarrow> u64 \<Rightarrow> 'a vfs_state_scheme \<Rightarrow> int \<times> 'a vfs_state_scheme" where
  "vfs_write X fd buf count s =
     (if fd < 0 \<or> fd \<ge> MAX_OPEN_FILES then (CK_ERROR_INVALID_ARG, s)
      else
        let n = nat fd; file = g_open_files s ! n; fops = i_fops (inodes s (v_inode file)) in
        if v_inode file = 0 \<or> fops = 0 \<or> f_write (file_ops s fops) = 0 then (CK_ERROR_NOT_SUPPORTED, s)
        else x_write X (f_write (file_ops s fops)) n buf count (v_position file) s)"

end
