(* ===== verification/CK_Syscalls.thy ===== *)
theory CK_Syscalls
  imports CK_Vfs
begin

text \<open>
  Model of \<open>kernel/core/syscalls.c\<close>: the table of system calls, the dispatcher and the model
  specific registers. A handler is one of the functions of the file or an address outside it; a
  call of the latter is the argument \<open>ext\<close>.
\<close>

unbundle bit_operations_syntax

section \<open>Data\<close>

definition MAX_SYSCALLS :: u64 where "MAX_SYSCALLS = 512"

datatype syscall_nr =
    SYS_READ
  | SYS_WRITE
  | SYS_OPEN
  | SYS_CLOSE
  | SYS_STAT
  | SYS_FSTAT
  | SYS_LSTAT
  | SYS_POLL
  | SYS_LSEEK
  | SYS_MMAP
  | SYS_MPROTECT
  | SYS_MUNMAP
  | SYS_BRK
  | SYS_EXIT
  | SYS_EXIT_GROUP
  | SYS_FORK
  | SYS_EXECVE
  | SYS_WAIT4
  | SYS_KILL
  | SYS_GETPID
  | SYS_GETUID
  | SYS_GETEUID
  | SYS_ACCESS
  | SYS_PIPE
  | SYS_SELECT
  | SYS_SOCKET
  | SYS_CONNECT
  | SYS_SENDTO
  | SYS_RECVFROM
  | SYS_IOCTL
  | SYS_FCNTL
  | SYS_DUP
  | SYS_DUP2
  | SYS_NANOSLEEP
  | SYS_GETTIMEOFDAY
  | SYS_GETRLIMIT
  | SYS_SYSINFO
  | SYS_CELL_CREATE
  | SYS_CELL_DESTROY
  | SYS_CELL_YIELD
  | SYS_IPC_SEND
  | SYS_IPC_RECV
  | SYS_CAPABILITY_GRANT
  | SYS_CAPABILITY_REVOKE

fun nr_value :: "syscall_nr \<Rightarrow> u64" where
  "nr_value SYS_READ = 0"
| "nr_value SYS_WRITE = 1"
| "nr_value SYS_OPEN = 2"
| "nr_value SYS_CLOSE = 3"
| "nr_value SYS_STAT = 4"
| "nr_value SYS_FSTAT = 5"
| "nr_value SYS_LSTAT = 6"
| "nr_value SYS_POLL = 7"
| "nr_value SYS_LSEEK = 8"
| "nr_value SYS_MMAP = 9"
| "nr_value SYS_MPROTECT = 10"
| "nr_value SYS_MUNMAP = 11"
| "nr_value SYS_BRK = 12"
| "nr_value SYS_EXIT = 60"
| "nr_value SYS_EXIT_GROUP = 231"
| "nr_value SYS_FORK = 57"
| "nr_value SYS_EXECVE = 59"
| "nr_value SYS_WAIT4 = 61"
| "nr_value SYS_KILL = 62"
| "nr_value SYS_GETPID = 39"
| "nr_value SYS_GETUID = 102"
| "nr_value SYS_GETEUID = 107"
| "nr_value SYS_ACCESS = 21"
| "nr_value SYS_PIPE = 22"
| "nr_value SYS_SELECT = 23"
| "nr_value SYS_SOCKET = 41"
| "nr_value SYS_CONNECT = 42"
| "nr_value SYS_SENDTO = 44"
| "nr_value SYS_RECVFROM = 45"
| "nr_value SYS_IOCTL = 16"
| "nr_value SYS_FCNTL = 72"
| "nr_value SYS_DUP = 32"
| "nr_value SYS_DUP2 = 33"
| "nr_value SYS_NANOSLEEP = 35"
| "nr_value SYS_GETTIMEOFDAY = 96"
| "nr_value SYS_GETRLIMIT = 97"
| "nr_value SYS_SYSINFO = 99"
| "nr_value SYS_CELL_CREATE = 300"
| "nr_value SYS_CELL_DESTROY = 301"
| "nr_value SYS_CELL_YIELD = 302"
| "nr_value SYS_IPC_SEND = 303"
| "nr_value SYS_IPC_RECV = 304"
| "nr_value SYS_CAPABILITY_GRANT = 305"
| "nr_value SYS_CAPABILITY_REVOKE = 306"

datatype syscall_handler_t =
    Sys_read | Sys_write | Sys_exit | Sys_getpid | Sys_cell_create | Sys_ipc_send | Sys_ipc_recv
  | Ext_handler ptr

record syscall_state = vfs_state +
  g_syscall_table :: "syscall_handler_t option list"
  g_syscall_names :: "string option list"
  msrs :: "u32 \<Rightarrow> u64"

type_synonym 's ext_syscall = "ptr \<Rightarrow> u64 \<Rightarrow> u64 \<Rightarrow> u64 \<Rightarrow> u64 \<Rightarrow> u64 \<Rightarrow> u64 \<Rightarrow> 's \<Rightarrow> int \<times> 's"

section \<open>Handlers\<close>

definition sys_read :: "u64 \<Rightarrow> u64 \<Rightarrow> u64 \<Rightarrow> int" where
  "sys_read fd buf count = CK_ERROR_NOT_SUPPORTED"

definition sys_write :: "u64 \<Rightarrow> u64 \<Rightarrow> u64 \<Rightarrow> int" where
  "sys_write fd buf count = CK_ERROR_NOT_SUPPORTED"

definition sys_exit :: "u64 \<Rightarrow> int" where
  "sys_exit status = 0"

definition sys_getpid :: int where
  "sys_getpid = 1"

definition sys_cell_create :: "u64 \<Rightarrow> u64 \<Rightarrow> int" where
  "sys_cell_create config flags = CK_ERROR_NOT_SUPPORTED"

definition sys_ipc_send :: "u64 \<Rightarrow> u64 \<Rightarrow> u64 \<Rightarrow> int" where
  "sys_ipc_send channel msg sz = CK_ERROR_NOT_SUPPORTED"

definition sys_ipc_recv :: "u64 \<Rightarrow> u64 \<Rightarrow> u64 \<Rightarrow> int" where
  "sys_ipc_recv channel msg sz = CK_ERROR_NOT_SUPPORTED"

text \<open>A call through the table; a function of fewer arguments ignores the others.\<close>

fun call_handler ::
  "'a syscall_state_scheme ext_syscall \<Rightarrow> syscall_handler_t \<Rightarrow> u64 \<Rightarrow> u64 \<Rightarrow> u64 \<Rightarrow> u64 \<Rightarrow> u64 \<Rightarrow> u64 \<Rightarrow>
   'a syscall_state_scheme \<Rightarrow> int \<times> 'a syscall_state_scheme" where
  "call_handler ext Sys_read a1 a2 a3 a4 a5 a6 s = (sys_read a1 a2 a3, s)"
| "call_handler ext Sys_write a1 a2 a3 a4 a5 a6 s = (sys_write a1 a2 a3, s)"
| "call_handler ext Sys_exit a1 a2 a3 a4 a5 a6 s = (sys_exit a1, s)"
| "call_handler ext Sys_getpid a1 a2 a3 a4 a5 a6 s = (sys_getpid, s)"
| "call_handler ext Sys_cell_create a1 a2 a3 a4 a5 a6 s = (sys_cell_create a1 a2, s)"
| "call_handler ext Sys_ipc_send a1 a2 a3 a4 a5 a6 s = (sys_ipc_send a1 a2 a3, s)"
| "call_handler ext Sys_ipc_recv a1 a2 a3 a4 a5 a6 s = (sys_ipc_recv a1 a2 a3, s)"
| "call_handler ext (Ext_handler p) a1 a2 a3 a4 a5 a6 s = ext p a1 a2 a3 a4 a5 a6 s"

section \<open>Registration and dispatch\<close>

definition register_syscall ::
  "u64 \<Rightarrow> syscall_handler_t option \<Rightarrow> string option \<Rightarrow> 'a syscall_state_scheme \<Rightarrow> int \<times> 'a syscall_state_scheme" where
  "register_syscall nr handler name s =
     (if nr \<ge> MAX_SYSCALLS then (CK_ERROR_INVALID_ARG, s)
      else (CK_SUCCESS, s\<lparr>g_syscall_table := (g_syscall_table s)[unat nr := handler],
                          g_syscall_names := (g_syscall_names s)[unat nr := name]\<rparr>))"

definition syscall_dispatch ::
  "'a syscall_state_scheme ext_syscall \<Rightarrow> u64 \<Rightarrow> u64 \<Rightarrow> u64 \<Rightarrow> u64 \<Rightarrow> u64 \<Rightarrow> u64 \<Rightarrow> u64 \<Rightarrow> 'a syscall_state_scheme \<Rightarrow>
   int \<times> 'a syscall_state_scheme" where
  "syscall_dispatch ext nr a1 a2 a3 a4 a5 a6 s =
     (if nr \<ge> MAX_SYSCALLS then (CK_ERROR_NOT_SUPPORTED, s)
      else case g_syscall_table s ! unat nr of
        None \<Rightarrow> (CK_ERROR_NOT_SUPPORTED, s)
      | Some h \<Rightarrow> call_handler ext h a1 a2 a3 a4 a5 a6 s)"

text \<open>The entry point has an empty body.\<close>

definition syscall_entry :: "'a syscall_state_scheme \<Rightarrow> 'a syscall_state_scheme" where
  "syscall_entry s = s"

section \<open>Initialisation\<close>

text \<open>\<open>wrmsr\<close> with the two halves of the value; \<open>EFER\<close> is the register of the paging model.\<close>

definition wrmsr :: "u32 \<Rightarrow> u32 \<Rightarrow> u32 \<Rightarrow> 'a syscall_state_scheme \<Rightarrow> 'a syscall_state_scheme" where
  "wrmsr c lo hi s =
     (let v = push_bit 32 (ucast hi) OR ucast lo in
      if c = 0xC0000080 then s\<lparr>msr_efer := v\<rparr> else s\<lparr>msrs := (msrs s)(c := v)\<rparr>)"

definition lo32 :: "u64 \<Rightarrow> u32" where "lo32 v = ucast (v AND 0xFFFFFFFF)"
definition hi32 :: "u64 \<Rightarrow> u32" where "hi32 v = ucast (drop_bit 32 v)"

text \<open>The calls of \<open>register_syscall\<close> in the order of the code.\<close>

definition initial_syscalls :: "(syscall_nr \<times> syscall_handler_t \<times> string) list" where
  "initial_syscalls =
     [(SYS_READ, Sys_read, ''read''), (SYS_WRITE, Sys_write, ''write''), (SYS_EXIT, Sys_exit, ''exit''),
      (SYS_GETPID, Sys_getpid, ''getpid''), (SYS_CELL_CREATE, Sys_cell_create, ''cell_create''),
      (SYS_IPC_SEND, Sys_ipc_send, ''ipc_send''), (SYS_IPC_RECV, Sys_ipc_recv, ''ipc_recv'')]"

fun register_all ::
  "(syscall_nr \<times> syscall_handler_t \<times> string) list \<Rightarrow> 'a syscall_state_scheme \<Rightarrow> 'a syscall_state_scheme" where
  "register_all [] s = s"
| "register_all ((n, h, name) # rs) s = register_all rs (snd (register_syscall (nr_value n) (Some h) (Some name) s))"

text \<open>\<open>entry\<close> is the address of \<open>syscall_entry\<close>; the read of \<open>EFER\<close> is the read of the register.\<close>

definition syscall_init :: "uart \<Rightarrow> u64 \<Rightarrow> 'a syscall_state_scheme \<Rightarrow> 'a syscall_state_scheme option" where
  "syscall_init D entry s = do {
     s1 \<leftarrow> serial_println D ''[*] Initializing syscall interface...'' s;
     let s2 = s1\<lparr>g_syscall_table := replicate (unat MAX_SYSCALLS) None, g_syscall_names := replicate (unat MAX_SYSCALLS) None\<rparr>;
     let s3 = register_all initial_syscalls s2;
     let s4 = wrmsr 0xC0000082 (lo32 entry) (hi32 entry) s3;
     let s5 = wrmsr 0xC0000084 0x00200200 0 s4;
     let s6 = wrmsr 0xC0000102 0 0 s5;
     let efer = msr_efer s6 OR 1;
     let s7 = wrmsr 0xC0000080 (lo32 efer) (hi32 efer) s6;
     serial_println D ''[+] Syscall interface initialized'' s7
   }"

end
