(* ===== verification/CK_Interrupts.thy ===== *)
theory CK_Interrupts
  imports CK_Syscalls
begin

text \<open>
  Model of \<open>kernel/core/interrupts.c\<close>: the interrupt descriptor table, the handlers and the
  programming of the interrupt controllers. \<open>stub\<close> gives the addresses of the assembly stubs, \<open>ext\<close>
  is a call of a registered handler. Writes to I/O ports are recorded in order; a processor that
  halts for good is \<open>cpu_halted\<close>.
\<close>

unbundle bit_operations_syntax

section \<open>Data\<close>

definition IDT_ENTRIES :: nat where "IDT_ENTRIES = 256"
definition ISR_ENTRIES :: nat where "ISR_ENTRIES = 32"

record idt_entry_t =
  offset_low :: u16
  selector :: u16
  ist :: u8
  type_attr :: u8
  offset_mid :: u16
  offset_high :: u32
  idt_reserved :: u32

record idt_ptr_t =
  idt_limit :: u16
  idt_base :: u64

record interrupt_frame_t =
  fr_r15 :: u64 fr_r14 :: u64 fr_r13 :: u64 fr_r12 :: u64 fr_r11 :: u64 fr_r10 :: u64 fr_r9 :: u64 fr_r8 :: u64
  fr_rdi :: u64 fr_rsi :: u64 fr_rbp :: u64 fr_rbx :: u64 fr_rdx :: u64 fr_rcx :: u64 fr_rax :: u64
  fr_vector :: u64
  fr_error_code :: u64
  fr_rip :: u64 fr_cs :: u64 fr_rflags :: u64 fr_rsp :: u64 fr_ss :: u64

record intr_state = syscall_state +
  g_idt :: "idt_entry_t list"
  g_idt_ptr :: idt_ptr_t
  g_isr_handlers :: "ptr list"
  idtr :: "idt_ptr_t option"
  port_writes :: "(u16 \<times> u8) list"
  interrupt_flag :: bool
  cpu_halted :: bool

definition idt_zero :: idt_entry_t where
  "idt_zero = \<lparr>offset_low = 0, selector = 0, ist = 0, type_attr = 0, offset_mid = 0, offset_high = 0, idt_reserved = 0\<rparr>"

section \<open>Processor instructions\<close>

definition outb :: "u16 \<Rightarrow> u8 \<Rightarrow> 'a intr_state_scheme \<Rightarrow> 'a intr_state_scheme" where
  "outb port v s = s\<lparr>port_writes := port_writes s @ [(port, v)]\<rparr>"

definition cpu_sti :: "'a intr_state_scheme \<Rightarrow> 'a intr_state_scheme" where
  "cpu_sti s = s\<lparr>interrupt_flag := True\<rparr>"

definition cpu_cli :: "'a intr_state_scheme \<Rightarrow> 'a intr_state_scheme" where
  "cpu_cli s = s\<lparr>interrupt_flag := False\<rparr>"

text \<open>The loop \<open>while (1) cpu_halt();\<close>.\<close>

definition halt_forever :: "'a intr_state_scheme \<Rightarrow> 'a intr_state_scheme" where
  "halt_forever s = s\<lparr>cpu_halted := True\<rparr>"

section \<open>Descriptor table\<close>

definition idt_set_gate :: "u8 \<Rightarrow> u64 \<Rightarrow> u16 \<Rightarrow> u8 \<Rightarrow> 'a intr_state_scheme \<Rightarrow> 'a intr_state_scheme" where
  "idt_set_gate num handler sel attr s =
     s\<lparr>g_idt := (g_idt s)[unat num :=
        \<lparr>offset_low = ucast (handler AND 0xFFFF), selector = sel, ist = 0, type_attr = attr,
         offset_mid = ucast (drop_bit 16 handler AND 0xFFFF),
         offset_high = ucast (drop_bit 32 handler AND 0xFFFFFFFF), idt_reserved = 0\<rparr>]\<rparr>"

definition exception_gates :: "(u8 \<times> string) list" where
  "exception_gates =
     [(0, ''exception_divide_error''), (1, ''exception_debug''), (2, ''exception_nmi''), (3, ''exception_breakpoint''),
      (4, ''exception_overflow''), (5, ''exception_bound_range''), (6, ''exception_invalid_opcode''),
      (7, ''exception_device_not_available''), (8, ''exception_double_fault''),
      (9, ''exception_coprocessor_segment_overrun''), (10, ''exception_invalid_tss''),
      (11, ''exception_segment_not_present''), (12, ''exception_stack_fault''), (13, ''exception_general_protection''),
      (14, ''exception_page_fault''), (15, ''exception_x87_floating_point''), (16, ''exception_alignment_check''),
      (17, ''exception_machine_check''), (18, ''exception_simd_floating_point''), (19, ''exception_virtualization''),
      (20, ''exception_control_protection'')]"

definition irq_gates :: "(u8 \<times> string) list" where
  "irq_gates =
     [(32 + 0, ''irq0''), (32 + 1, ''irq1''), (32 + 2, ''irq2''), (32 + 3, ''irq3''), (32 + 4, ''irq4''), (32 + 5, ''irq5''),
      (32 + 6, ''irq6''), (32 + 7, ''irq7''), (32 + 8, ''irq8''), (32 + 9, ''irq9''), (32 + 10, ''irq10''), (32 + 11, ''irq11''),
      (32 + 12, ''irq12''), (32 + 13, ''irq13''), (32 + 14, ''irq14''), (32 + 15, ''irq15'')]"

fun set_gates :: "(string \<Rightarrow> u64) \<Rightarrow> (u8 \<times> string) list \<Rightarrow> 'a intr_state_scheme \<Rightarrow> 'a intr_state_scheme" where
  "set_gates stub [] s = s"
| "set_gates stub ((n, h) # gs) s = set_gates stub gs (idt_set_gate n (stub h) 0x08 0x8E s)"

text \<open>\<open>idt\<close> is the address of the table; \<open>sizeof (g_idt) = 256 * 16\<close>.\<close>

definition idt_init :: "(string \<Rightarrow> u64) \<Rightarrow> u64 \<Rightarrow> 'a intr_state_scheme \<Rightarrow> 'a intr_state_scheme" where
  "idt_init stub idt s =
     (let s1 = s\<lparr>g_idt_ptr := \<lparr>idt_limit = 4096 - 1, idt_base = idt\<rparr>, g_idt := replicate IDT_ENTRIES idt_zero\<rparr>;
          s2 = set_gates stub exception_gates s1;
          s3 = set_gates stub irq_gates s2
      in s3\<lparr>idtr := Some (g_idt_ptr s3)\<rparr>)"

section \<open>Handlers\<close>

definition exception_names :: "string list" where
  "exception_names =
     [''Divide Error'', ''Debug'', ''NMI'', ''Breakpoint'', ''Overflow'', ''Bound Range Exceeded'', ''Invalid Opcode'',
      ''Device Not Available'', ''Double Fault'', ''Coprocessor Segment Overrun'', ''Invalid TSS'', ''Segment Not Present'',
      ''Stack Fault'', ''General Protection'', ''Page Fault'', ''X87 Floating Point'', ''Alignment Check'', ''Machine Check'',
      ''SIMD Floating Point'', ''Virtualization'', ''Control Protection'']"

definition exception_report :: "interrupt_frame_t \<Rightarrow> print_call list" where
  "exception_report frame =
     [Println '''', Println ''!!! EXCEPTION !!!''] @
     (if fr_vector frame < 21 then [Print ''Exception: '', Println (exception_names ! unat (fr_vector frame))]
      else [Print ''Unknown Exception: '', Hex (fr_vector frame), Println '''']) @
     [Print ''Error Code: '', Hex (fr_error_code frame), Println '''',
      Print ''RIP: '', Hex (fr_rip frame), Println '''',
      Print ''RFLAGS: '', Hex (fr_rflags frame), Println '''',
      Print ''RSP: '', Hex (fr_rsp frame), Println '''']"

definition default_exception_handler :: "uart \<Rightarrow> interrupt_frame_t \<Rightarrow> 'a intr_state_scheme \<Rightarrow> 'a intr_state_scheme option" where
  "default_exception_handler D frame s = do {
     s1 \<leftarrow> print_calls D (exception_report frame) s;
     Some (halt_forever s1)
   }"

definition irq_handler ::
  "(ptr \<Rightarrow> interrupt_frame_t \<Rightarrow> 'a intr_state_scheme \<Rightarrow> 'a intr_state_scheme) \<Rightarrow> interrupt_frame_t \<Rightarrow>
   'a intr_state_scheme \<Rightarrow> 'a intr_state_scheme" where
  "irq_handler ext frame s =
     (let irq = fr_vector frame - 32;
          s1 = (if irq \<ge> 8 then outb 0xA0 0x20 s else s);
          s2 = outb 0x20 0x20 s1 in
      if irq < of_nat ISR_ENTRIES \<and> g_isr_handlers s2 ! unat irq \<noteq> 0 then ext (g_isr_handlers s2 ! unat irq) frame s2 else s2)"

definition register_isr :: "u8 \<Rightarrow> ptr \<Rightarrow> 'a intr_state_scheme \<Rightarrow> 'a intr_state_scheme" where
  "register_isr num handler s =
     (if unat num < ISR_ENTRIES then s\<lparr>g_isr_handlers := (g_isr_handlers s)[unat num := handler]\<rparr> else s)"

definition enable_interrupts :: "'a intr_state_scheme \<Rightarrow> 'a intr_state_scheme" where
  "enable_interrupts s = cpu_sti s"

definition disable_interrupts :: "'a intr_state_scheme \<Rightarrow> 'a intr_state_scheme" where
  "disable_interrupts s = cpu_cli s"

section \<open>Interrupt controllers\<close>

definition remap_writes :: "(u16 \<times> u8) list" where
  "remap_writes = [(0x20, 0x11), (0x21, 0x20), (0x21, 0x04), (0xA1, 0x02), (0x21, 0x01), (0xA1, 0x01), (0x21, 0x00), (0xA1, 0x00)]"

fun outb_all :: "(u16 \<times> u8) list \<Rightarrow> 'a intr_state_scheme \<Rightarrow> 'a intr_state_scheme" where
  "outb_all [] s = s"
| "outb_all ((p, v) # ws) s = outb_all ws (outb p v s)"

definition interrupt_controller_init ::
  "uart \<Rightarrow> (string \<Rightarrow> u64) \<Rightarrow> u64 \<Rightarrow> 'a intr_state_scheme \<Rightarrow> 'a intr_state_scheme option" where
  "interrupt_controller_init D stub idt s = do {
     s1 \<leftarrow> serial_println D ''[*] Initializing IDT...'' s;
     let s2 = idt_init stub idt s1;
     let s3 = outb_all remap_writes s2;
     s4 \<leftarrow> serial_println D ''[+] IDT initialized'' s3;
     s5 \<leftarrow> serial_println D ''[*] Enabling timer interrupt...'' s4;
     serial_println D ''[+] Timer enabled'' s5
   }"

end
