(* ===== verification/CK_Panic.thy ===== *)
theory CK_Panic
  imports CK_Interrupts
begin

text \<open>
  Model of \<open>kernel/core/panic.c\<close>: the crash dump, the dump of the stack and the panic itself. The
  values of the registers that the code reads with inline assembly are the argument \<open>R\<close>; \<open>cr0\<close>,
  \<open>cr3\<close> and \<open>cr4\<close> are those of the paging model.
\<close>

unbundle bit_operations_syntax

section \<open>Data\<close>

definition PANIC_MAGIC :: u32 where "PANIC_MAGIC = 0xDEADBEEF"
definition CRASH_DUMP_VERSION :: u32 where "CRASH_DUMP_VERSION = 1"

record crash_dump_t =
  cd_magic :: u32
  cd_version :: u32
  cd_timestamp :: u64
  cd_panic_cpu :: u64
  cd_cr0 :: u64 cd_cr2 :: u64 cd_cr3 :: u64 cd_cr4 :: u64
  cd_rax :: u64 cd_rbx :: u64 cd_rcx :: u64 cd_rdx :: u64
  cd_rsi :: u64 cd_rdi :: u64 cd_rbp :: u64 cd_rsp :: u64
  cd_r8 :: u64 cd_r9 :: u64 cd_r10 :: u64 cd_r11 :: u64
  cd_r12 :: u64 cd_r13 :: u64 cd_r14 :: u64 cd_r15 :: u64
  cd_rip :: u64 cd_cs :: u64 cd_rflags :: u64
  cd_error_code :: u64
  cd_message :: string

record panic_state = intr_state +
  g_crash_dump :: crash_dump_t
  g_in_panic :: int

record cpu_regs =
  reg_gs0 :: u64
  reg_cr2 :: u64
  reg_rsp :: u64
  reg_rip :: u64
  reg_rflags :: u64

definition get_cpu_id :: "cpu_regs \<Rightarrow> u64" where "get_cpu_id R = reg_gs0 R"
definition read_cr0 :: "'a panic_state_scheme \<Rightarrow> u64" where "read_cr0 s = cr0 s"
definition read_cr2 :: "cpu_regs \<Rightarrow> u64" where "read_cr2 R = reg_cr2 R"
definition read_cr3 :: "'a panic_state_scheme \<Rightarrow> u64" where "read_cr3 s = cr3 s"
definition read_cr4 :: "'a panic_state_scheme \<Rightarrow> u64" where "read_cr4 s = cr4 s"
definition cpu_read_rflags :: "cpu_regs \<Rightarrow> u64" where "cpu_read_rflags R = reg_rflags R"
definition cpu_read_rsp :: "cpu_regs \<Rightarrow> u64" where "cpu_read_rsp R = reg_rsp R"
definition cpu_read_rip :: "cpu_regs \<Rightarrow> u64" where "cpu_read_rip R = reg_rip R"

section \<open>Memory dump\<close>

text \<open>The two inner loops and the calls of one line; \<open>n\<close> is the number of bytes of the line.\<close>

definition byte_calls :: "u8 \<Rightarrow> print_call list" where
  "byte_calls b = (if b AND 0xF0 = 0 then [Putc (CHR ''0'')] else []) @ [Hex (ucast b), Putc (CHR '' '')]"

definition char_calls :: "u8 \<Rightarrow> print_call list" where
  "char_calls b = (if 32 \<le> b \<and> b < 127 then [Putc (char_of (unat b))] else [Putc (CHR ''.'')])"

definition hexdump_line :: "memory \<Rightarrow> u64 \<Rightarrow> nat \<Rightarrow> nat \<Rightarrow> print_call list" where
  "hexdump_line m addr i n =
     [Hex (addr + of_nat i), Print '': ''] @
     concat (map (\<lambda>j. byte_calls (m (addr + of_nat (i + j)))) [0..<n]) @
     [Print ''  ''] @
     concat (map (\<lambda>j. char_calls (m (addr + of_nat (i + j)))) [0..<n]) @
     [Putc (CHR 0x0D), Putc (CHR 0x0A)]"

function hexdump_lines :: "memory \<Rightarrow> u64 \<Rightarrow> nat \<Rightarrow> nat \<Rightarrow> print_call list" where
  "hexdump_lines m addr i len =
     (if i < len then hexdump_line m addr i (min 16 (len - i)) @ hexdump_lines m addr (i + 16) len else [])"
  by pat_completeness auto
termination
  by (relation "measure (\<lambda>(m, addr, i, len). len - i)") auto

declare hexdump_lines.simps [simp del]

definition print_hexdump :: "uart \<Rightarrow> u64 \<Rightarrow> nat \<Rightarrow> 'a panic_state_scheme \<Rightarrow> 'a panic_state_scheme option" where
  "print_hexdump D addr len s = print_calls D (hexdump_lines (mem s) addr 0 len) s"

section \<open>Panic\<close>

definition save_crash_dump :: "cpu_regs \<Rightarrow> string option \<Rightarrow> u64 \<Rightarrow> 'a panic_state_scheme \<Rightarrow> 'a panic_state_scheme" where
  "save_crash_dump R msg error_code s =
     s\<lparr>g_crash_dump :=
       \<lparr>cd_magic = PANIC_MAGIC, cd_version = CRASH_DUMP_VERSION, cd_timestamp = 0, cd_panic_cpu = get_cpu_id R,
        cd_cr0 = read_cr0 s, cd_cr2 = read_cr2 R, cd_cr3 = read_cr3 s, cd_cr4 = read_cr4 s,
        cd_rax = 0, cd_rbx = 0, cd_rcx = 0, cd_rdx = 0, cd_rsi = 0, cd_rdi = 0, cd_rbp = 0, cd_rsp = cpu_read_rsp R,
        cd_r8 = 0, cd_r9 = 0, cd_r10 = 0, cd_r11 = 0, cd_r12 = 0, cd_r13 = 0, cd_r14 = 0, cd_r15 = 0,
        cd_rip = cpu_read_rip R, cd_cs = 0, cd_rflags = cpu_read_rflags R, cd_error_code = error_code,
        cd_message = (case msg of Some m \<Rightarrow> take 255 (cstr m) | None \<Rightarrow> [])\<rparr>\<rparr>"

definition panic_head :: "string option \<Rightarrow> print_call list" where
  "panic_head msg =
     [Println '''', Println ''========================================'', Println ''!!! CELLKERNEL PANIC !!!'',
      Println ''========================================'', Println ''''] @
     (case msg of Some m \<Rightarrow> [Print ''Reason: '', Println m, Println ''''] | None \<Rightarrow> [])"

definition register_report :: "crash_dump_t \<Rightarrow> print_call list" where
  "register_report d =
     [Println ''Register State:'',
      Print ''  RAX: '', Hex (cd_rax d), Print ''  RBX: '', Hex (cd_rbx d),
      Print ''  RCX: '', Hex (cd_rcx d), Print ''  RDX: '', Hex (cd_rdx d), Putc (CHR 0x0D), Putc (CHR 0x0A),
      Print ''  RSI: '', Hex (cd_rsi d), Print ''  RDI: '', Hex (cd_rdi d),
      Print ''  RBP: '', Hex (cd_rbp d), Print ''  RSP: '', Hex (cd_rsp d), Putc (CHR 0x0D), Putc (CHR 0x0A),
      Print ''  R8:  '', Hex (cd_r8 d), Print ''  R9:  '', Hex (cd_r9 d),
      Print ''  R10: '', Hex (cd_r10 d), Print ''  R11: '', Hex (cd_r11 d), Putc (CHR 0x0D), Putc (CHR 0x0A),
      Print ''  R12: '', Hex (cd_r12 d), Print ''  R13: '', Hex (cd_r13 d),
      Print ''  R14: '', Hex (cd_r14 d), Print ''  R15: '', Hex (cd_r15 d), Putc (CHR 0x0D), Putc (CHR 0x0A),
      Print ''  RIP: '', Hex (cd_rip d), Print ''  CS:  '', Hex (cd_cs d),
      Print ''  RFLAGS: '', Hex (cd_rflags d), Putc (CHR 0x0D), Putc (CHR 0x0A),
      Println '''', Println ''Control Registers:'',
      Print ''  CR0: '', Hex (cd_cr0 d), Print ''  CR2: '', Hex (cd_cr2 d), Putc (CHR 0x0D), Putc (CHR 0x0A),
      Print ''  CR3: '', Hex (cd_cr3 d), Print ''  CR4: '', Hex (cd_cr4 d), Putc (CHR 0x0D), Putc (CHR 0x0A),
      Println '''', Println ''Stack dump (first 256 bytes):'']"

definition panic_tail :: "print_call list" where
  "panic_tail =
     [Println '''', Println ''========================================'', Println ''System halted. Please reboot.'',
      Println ''========================================'']"

definition kernel_panic :: "uart \<Rightarrow> cpu_regs \<Rightarrow> string option \<Rightarrow> 'a panic_state_scheme \<Rightarrow> 'a panic_state_scheme option" where
  "kernel_panic D R msg s = do {
     let s1 = cpu_cli s;
     if g_in_panic s1 \<noteq> 0 then do {
       s2 \<leftarrow> serial_println D ''[!] Recursive panic detected!'' s1;
       Some (halt_forever s2)
     } else do {
       let s2 = s1\<lparr>g_in_panic := 1\<rparr>;
       s3 \<leftarrow> print_calls D (panic_head msg) s2;
       let s4 = save_crash_dump R msg 0 s3;
       s5 \<leftarrow> print_calls D (register_report (g_crash_dump s4)) s4;
       s6 \<leftarrow> print_hexdump D (cd_rsp (g_crash_dump s5)) 256 s5;
       s7 \<leftarrow> print_calls D panic_tail s6;
       Some (halt_forever s7)
     }
   }"

section \<open>Assertions\<close>

text \<open>The decimal digits that \<open>snprintf\<close> writes for \<open>%d\<close>.\<close>

fun decimal :: "nat \<Rightarrow> string" where
  "decimal n = (if n < 10 then [char_of (48 + n)] else decimal (n div 10) @ [char_of (48 + n mod 10)])"

declare decimal.simps [simp del]

definition show_int :: "int \<Rightarrow> string" where
  "show_int i = (if i < 0 then CHR ''-'' # decimal (nat (- i)) else decimal (nat i))"

definition assert_fail ::
  "uart \<Rightarrow> cpu_regs \<Rightarrow> string \<Rightarrow> string \<Rightarrow> int \<Rightarrow> string \<Rightarrow> 'a panic_state_scheme \<Rightarrow> 'a panic_state_scheme option" where
  "assert_fail D R expr file line func s =
     (let msg = take 255 (''Assertion failed: '' @ cstr expr @ '' at '' @ cstr file @ '':'' @ show_int line @
                          '' in '' @ cstr func @ ''()'')
      in kernel_panic D R (Some msg) s)"

end
