(* ===== verification/CK_Main.thy ===== *)
theory CK_Main
  imports CK_Panic
begin

text \<open>
  Model of \<open>kernel/core/main.c\<close>: the start of the kernel. Of the initialisation functions, those of
  interrupts, scheduler, system calls, channels and VFS are the ones of the other components; the
  others exist as weak stubs only. \<open>None\<close> also stands for the fault of a division by zero. Entering
  the idle loop ends the boot.
\<close>

unbundle bit_operations_syntax

section \<open>Data\<close>

record kernel_state = panic_state +
  g_memory_map :: ptr
  g_memory_map_size :: u64
  g_descriptor_size :: u64

section \<open>Banner and memory map\<close>

definition BS :: char where "BS = CHR 0x5C"

text \<open>The version is meant to be the concatenation of the three version numbers.\<close>

definition banner :: "print_call list" where
  "banner =
     [Println '''',
      Println ''  ____           _         __  __             _'',
      Println ('' / ___|___   ___| | _____ |  '' @ [BS] @ ''/  | __ _ _ __ (_)_ __   ___''),
      Println (''| |   / _ '' @ [BS] @ '' / __| |/ / _ '' @ [BS] @ ''| |'' @ [BS] @ ''/| |/ _` | '_ '' @ [BS] @ ''| | '_ '' @ [BS] @ '' / _ '' @ [BS]),
      Println ''| |__| (_) | (__|   < (_) | |  | | (_| | | | | | | | |  __/'',
      Println ('' '' @ [BS] @ ''____'' @ [BS] @ ''___/ '' @ [BS] @ ''___|_|'' @ [BS] @ ''_'' @ [BS] @ ''___/|_|  |_|'' @ [BS] @ ''__,_|_| |_|_|_| |_|'' @ [BS] @ ''___|''),
      Println '''',
      Println ''CellKernel v1.0.0'',
      Println ''True Microkernel Architecture - Zero Trust Security'',
      Println ''Copyright (c) 2024 CellKernel Project'',
      Println '''']"

definition print_banner :: "uart \<Rightarrow> 'a kernel_state_scheme \<Rightarrow> 'a kernel_state_scheme option" where
  "print_banner D s = print_calls D banner s"

definition desc_calls :: "efi_memory_descriptor_t \<Rightarrow> print_call list" where
  "desc_calls d =
     [Print ''    '', Hex (ucast (type d)), Print ''  '', Hex (physical_start d), Print ''  '', Hex (num_pages d),
      Print ''  '', Hex (attribute d), Putc (CHR 0x0D), Putc (CHR 0x0A)]"

fun desc_lines :: "memory \<Rightarrow> u64 \<Rightarrow> nat \<Rightarrow> ptr \<Rightarrow> print_call list" where
  "desc_lines m sz 0 desc = []"
| "desc_lines m sz (Suc n) desc = desc_calls (read_desc m desc) @ desc_lines m sz n (desc + sz)"

definition print_memory_map :: "uart \<Rightarrow> 'a kernel_state_scheme \<Rightarrow> 'a kernel_state_scheme option" where
  "print_memory_map D s =
     (if g_descriptor_size s = 0 then None
      else
        let entries = g_memory_map_size s div g_descriptor_size s in
        print_calls D
          ([Println ''[*] Memory Map:'', Println ''    Type          Physical Start     Pages      Attributes''] @
           desc_lines (mem s) (g_descriptor_size s) (unat entries) (g_memory_map s)) s)"

section \<open>Panic of the boot code\<close>

definition main_kernel_panic :: "uart \<Rightarrow> string \<Rightarrow> 'a kernel_state_scheme \<Rightarrow> 'a kernel_state_scheme option" where
  "main_kernel_panic D msg s = do {
     s1 \<leftarrow> print_calls D [Println '''', Println ''!!! KERNEL PANIC !!!'', Print msg, Println '''', Println ''System halted.''] s;
     Some (halt_forever (cpu_cli s1))
   }"

section \<open>Stubs\<close>

definition hal_early_init :: "uart \<Rightarrow> 'a kernel_state_scheme \<Rightarrow> 'a kernel_state_scheme option" where
  "hal_early_init D s = serial_println D ''[!] HAL early init stub'' s"

definition memory_manager_init :: "uart \<Rightarrow> 'a kernel_state_scheme \<Rightarrow> 'a kernel_state_scheme option" where
  "memory_manager_init D s = serial_println D ''[!] Memory manager init stub'' s"

definition cell_subsystem_init :: "uart \<Rightarrow> 'a kernel_state_scheme \<Rightarrow> 'a kernel_state_scheme option" where
  "cell_subsystem_init D s = serial_println D ''[!] Cell subsystem init stub'' s"

definition capability_system_init :: "uart \<Rightarrow> 'a kernel_state_scheme \<Rightarrow> 'a kernel_state_scheme option" where
  "capability_system_init D s = serial_println D ''[!] Capability system init stub'' s"

definition security_subsystem_init :: "uart \<Rightarrow> 'a kernel_state_scheme \<Rightarrow> 'a kernel_state_scheme option" where
  "security_subsystem_init D s = serial_println D ''[!] Security subsystem init stub'' s"

definition driver_framework_init :: "uart \<Rightarrow> 'a kernel_state_scheme \<Rightarrow> 'a kernel_state_scheme option" where
  "driver_framework_init D s = serial_println D ''[!] Driver framework init stub'' s"

section \<open>Start\<close>

definition kernel_early_init :: "uart \<Rightarrow> 'a kernel_state_scheme \<Rightarrow> 'a kernel_state_scheme option" where
  "kernel_early_init D s = do {
     s1 \<leftarrow> serial_println D ''[*] Early kernel initialization...'' s;
     s2 \<leftarrow> hal_early_init D s1;
     serial_println D ''[+] HAL initialized'' s2
   }"

definition kernel_main_init ::
  "uart \<Rightarrow> (u64 \<Rightarrow> u64 \<Rightarrow> 'a kernel_state_scheme \<Rightarrow> ptr \<times> 'a kernel_state_scheme) \<Rightarrow> sched_env \<Rightarrow> (string \<Rightarrow> u64) \<Rightarrow>
   u64 \<Rightarrow> u64 \<Rightarrow> 'a kernel_state_scheme \<Rightarrow> 'a kernel_state_scheme option" where
  "kernel_main_init D calloc E stub idt entry s = do {
     s \<leftarrow> serial_println D ''[*] Initializing subsystems...'' s;
     s \<leftarrow> memory_manager_init D s;
     s \<leftarrow> serial_println D ''[+] Memory manager initialized'' s;
     s \<leftarrow> interrupt_controller_init D stub idt s;
     s \<leftarrow> serial_println D ''[+] Interrupt controller initialized'' s;
     s \<leftarrow> scheduler_init calloc E s;
     s \<leftarrow> serial_println D ''[+] Scheduler initialized'' s;
     s \<leftarrow> syscall_init D entry s;
     s \<leftarrow> serial_println D ''[+] Syscall interface initialized'' s;
     s \<leftarrow> capability_system_init D s;
     s \<leftarrow> serial_println D ''[+] Capability system initialized'' s;
     s \<leftarrow> cell_subsystem_init D s;
     s \<leftarrow> serial_println D ''[+] Cell subsystem initialized'' s;
     let s = ipc_subsystem_init s;
     s \<leftarrow> serial_println D ''[+] IPC subsystem initialized'' s;
     s \<leftarrow> security_subsystem_init D s;
     s \<leftarrow> serial_println D ''[+] Security subsystem initialized'' s;
     s \<leftarrow> driver_framework_init D s;
     s \<leftarrow> serial_println D ''[+] Driver framework initialized'' s;
     s \<leftarrow> vfs_init D s;
     s \<leftarrow> serial_println D ''[+] VFS initialized'' s;
     serial_println D ''[+] All subsystems initialized successfully'' s
   }"

definition kernel_idle :: "uart \<Rightarrow> 'a kernel_state_scheme \<Rightarrow> 'a kernel_state_scheme option" where
  "kernel_idle D s = do {
     s1 \<leftarrow> serial_println D ''[*] Entering idle loop...'' s;
     Some (cpu_sti s1)
   }"

definition kernel_main ::
  "uart \<Rightarrow> (u64 \<Rightarrow> u64 \<Rightarrow> 'a kernel_state_scheme \<Rightarrow> ptr \<times> 'a kernel_state_scheme) \<Rightarrow> sched_env \<Rightarrow> (string \<Rightarrow> u64) \<Rightarrow>
   u64 \<Rightarrow> u64 \<Rightarrow> u64 \<Rightarrow> u64 \<Rightarrow> ptr \<Rightarrow> u64 \<Rightarrow> u64 \<Rightarrow> 'a kernel_state_scheme \<Rightarrow> 'a kernel_state_scheme option" where
  "kernel_main D calloc E stub idt entry kernel_start kernel_end memory_map map_size desc_size s = do {
     let s = s\<lparr>g_memory_map := memory_map, g_memory_map_size := map_size, g_descriptor_size := desc_size\<rparr>;
     s \<leftarrow> print_banner D s;
     s \<leftarrow> print_calls D [Print ''[*] Kernel loaded at: '', Hex kernel_start, Print '' - '', Hex kernel_end, Println ''''] s;
     s \<leftarrow> print_memory_map D s;
     s \<leftarrow> kernel_early_init D s;
     s \<leftarrow> kernel_main_init D calloc E stub idt entry s;
     s \<leftarrow> print_calls D [Println '''', Println ''[+] CellKernel booted successfully!'', Println ''[*] Starting initial cell...''] s;
     kernel_idle D s
   }"

end
