(* ===== verification/CK_List_Head.thy ===== *)
theory CK_List_Head
  imports CK_Sched
begin

text \<open>
  The interface of the list primitives and the spin lock that the scheduler calls, and an
  implementation of it: circular doubly linked lists, and a lock that is a flag. \<open>Q h\<close> is the
  list of threads behind the head \<open>h\<close>, \<open>None\<close> for a head that was not initialised. The laws say
  nothing about adding a thread that is on a list already or deleting one that is on none.
\<close>

section \<open>The interface\<close>

type_synonym queues = "lnode \<Rightarrow> ptr list option"

definition on_list :: "ptr \<Rightarrow> queues \<Rightarrow> bool" where
  "on_list t Q \<longleftrightarrow> (\<exists>h xs. Q h = Some xs \<and> t \<in> set xs)"

definition queues_ok :: "queues \<Rightarrow> bool" where
  "queues_ok Q \<longleftrightarrow> (\<forall>h xs. Q h = Some xs \<longrightarrow> distinct xs) \<and>
     (\<forall>h h' xs ys. Q h = Some xs \<longrightarrow> Q h' = Some ys \<longrightarrow> h \<noteq> h' \<longrightarrow> set xs \<inter> set ys = {})"

locale sched_api =
  fixes E :: sched_env and repr :: "links \<Rightarrow> queues \<Rightarrow> bool"
  assumes lists_ok: "repr l Q \<Longrightarrow> queues_ok Q"
    and list_init: "repr l Q \<Longrightarrow> Q (Head c p) = None \<or> Q (Head c p) = Some [] \<Longrightarrow>
      repr (e_list_init E (Head c p) l) (Q(Head c p \<mapsto> []))"
    and list_add_tail: "repr l Q \<Longrightarrow> Q h = Some xs \<Longrightarrow> \<not> on_list t Q \<Longrightarrow>
      repr (e_list_add_tail E (Run t) h l) (Q(h \<mapsto> xs @ [t]))"
    and list_del: "repr l Q \<Longrightarrow> Q h = Some xs \<Longrightarrow> t \<in> set xs \<Longrightarrow>
      repr (e_list_del E (Run t) l) (Q(h \<mapsto> remove1 t xs))"
    and list_empty: "repr l Q \<Longrightarrow> Q h = Some xs \<Longrightarrow> e_list_empty E h l \<longleftrightarrow> xs = []"
    and list_first_entry: "repr l Q \<Longrightarrow> Q h = Some (x # xs) \<Longrightarrow> e_list_first_entry E h l = x"
    and lock_unlock: "\<exists>k. e_lock E (e_unlocked E) = Some k \<and> e_unlock E k = e_unlocked E"

section \<open>Circular doubly linked lists\<close>

definition set_next :: "lnode \<Rightarrow> lnode \<Rightarrow> links \<Rightarrow> links" where
  "set_next n v l = l(n := (v, snd (l n)))"

definition set_prev :: "lnode \<Rightarrow> lnode \<Rightarrow> links \<Rightarrow> links" where
  "set_prev n v l = l(n := (fst (l n), v))"

lemma set_next_simps [simp]:
  "fst (set_next n v l m) = (if m = n then v else fst (l m))" "snd (set_next n v l m) = snd (l m)"
  by (auto simp: set_next_def)

lemma set_prev_simps [simp]:
  "snd (set_prev n v l m) = (if m = n then v else snd (l m))" "fst (set_prev n v l m) = fst (l m)"
  by (auto simp: set_prev_def)

definition ll_init :: "lnode \<Rightarrow> links \<Rightarrow> links" where
  "ll_init h l = set_prev h h (set_next h h l)"

definition ll_add :: "lnode \<Rightarrow> lnode \<Rightarrow> lnode \<Rightarrow> links \<Rightarrow> links" where
  "ll_add n prev nxt l = set_next prev n (set_prev n prev (set_next n nxt (set_prev nxt n l)))"

definition ll_add_tail :: "lnode \<Rightarrow> lnode \<Rightarrow> links \<Rightarrow> links" where
  "ll_add_tail n h l = ll_add n (snd (l h)) h l"

definition ll_del :: "lnode \<Rightarrow> links \<Rightarrow> links" where
  "ll_del n l = set_next (snd (l n)) (fst (l n)) (set_prev (fst (l n)) (snd (l n)) l)"

fun thread_of :: "lnode \<Rightarrow> ptr" where
  "thread_of (Run t) = t"
| "thread_of (Head c p) = 0"

definition linked_env :: "u64 \<Rightarrow> u64 \<Rightarrow> u64 \<Rightarrow> sched_env" where
  "linked_env thread_sz idle cpus =
     \<lparr>e_unlocked = 0, e_lock = (\<lambda>k. if k = 0 then Some 1 else None), e_unlock = (\<lambda>_. 0),
      e_list_init = ll_init, e_list_add_tail = ll_add_tail, e_list_del = ll_del,
      e_list_empty = (\<lambda>h l. fst (l h) = h), e_list_first_entry = (\<lambda>h l. thread_of (fst (l h))),
      e_thread_size = thread_sz, e_idle_loop = idle, e_cpu_count = cpus\<rparr>"

text \<open>The nodes \<open>xs\<close> lie between \<open>a\<close> and \<open>b\<close>.\<close>

fun seg :: "links \<Rightarrow> lnode \<Rightarrow> lnode list \<Rightarrow> lnode \<Rightarrow> bool" where
  "seg l a [] b \<longleftrightarrow> fst (l a) = b \<and> snd (l b) = a"
| "seg l a (x # xs) b \<longleftrightarrow> fst (l a) = x \<and> snd (l x) = a \<and> seg l x xs b"

lemma seg_cong:
  assumes "\<And>x. x \<in> set (a # xs) \<Longrightarrow> fst (l' x) = fst (l x)" "\<And>x. x \<in> set (xs @ [b]) \<Longrightarrow> snd (l' x) = snd (l x)"
  shows "seg l' a xs b = seg l a xs b"
  using assms by (induction xs arbitrary: a) auto

lemma seg_append: "seg l a (xs @ y # ys) b \<longleftrightarrow> seg l a xs y \<and> seg l y ys b"
  by (induction xs arbitrary: a) auto

lemma seg_ends: "seg l a xs b \<Longrightarrow> snd (l b) = last (a # xs)"
  by (induction xs arbitrary: a) auto

lemma seg_add_tail:
  assumes "seg l h xs h" "distinct (h # xs)" "n \<notin> set (h # xs)"
  shows "seg (ll_add_tail n h l) h (xs @ [n]) h"
proof (cases xs rule: rev_cases)
  case Nil
  then show ?thesis using assms by (auto simp: ll_add_tail_def ll_add_def)
next
  case (snoc ys p)
  have p: "snd (l h) = p" "fst (l p) = h" "seg l h ys p" using assms(1) by (auto simp: snoc seg_append)
  let ?l = "ll_add_tail n h l"
  have "seg ?l h ys p" using p assms(2,3) snoc by (subst seg_cong [of _ _ _ l]) (auto simp: ll_add_tail_def ll_add_def)
  moreover have "fst (?l p) = n" "snd (?l n) = p" "fst (?l n) = h" "snd (?l h) = n"
    using p assms(2,3) snoc by (auto simp: ll_add_tail_def ll_add_def)
  ultimately show ?thesis by (simp add: snoc seg_append)
qed

lemma seg_del:
  assumes "seg l a (ys @ t # zs) b" "distinct (ys @ t # zs)" "a \<notin> set (ys @ t # zs)" "b \<notin> set (ys @ t # zs)"
  shows "seg (ll_del t l) a (ys @ zs) b"
  using assms
proof (induction ys arbitrary: a)
  case Nil
  show ?case
  proof (cases zs)
    case Nil
    then show ?thesis using Nil.prems by (auto simp: ll_del_def)
  next
    case (Cons z zs')
    have "seg (ll_del t l) z zs' b = seg l z zs' b"
      using Nil.prems Cons by (intro seg_cong) (auto simp: ll_del_def)
    then show ?thesis using Nil.prems Cons by (auto simp: ll_del_def)
  qed
next
  case (Cons y ys)
  have s: "seg l y (ys @ t # zs) b" "fst (l a) = y" "snd (l y) = a" using Cons.prems(1) by auto
  have "seg (ll_del t l) y (ys @ zs) b" using Cons.IH [OF s(1)] Cons.prems by auto
  moreover have "snd (l t) \<in> set (y # ys)" using s(1) seg_append [of l y ys t zs b] seg_ends [of l y ys t] by (auto split: if_splits)
  moreover have "fst (l t) \<in> set (zs @ [b])" using s(1) seg_append [of l y ys t zs b] by (cases zs) auto
  ultimately show ?case using s Cons.prems by (auto simp: ll_del_def)
qed

text \<open>Links that represent a family of lists.\<close>

definition linked :: "links \<Rightarrow> queues \<Rightarrow> bool" where
  "linked l Q \<longleftrightarrow> queues_ok Q \<and> (\<forall>h xs. Q h = Some xs \<longrightarrow> (\<exists>c p. h = Head c p) \<and> seg l h (map Run xs) h)"

lemma inj_Run: "inj_on Run A" by (simp add: inj_on_def)

lemma linked_other:
  assumes "linked l Q" "Q h = Some xs" "\<And>x. x \<in> insert h (Run ` set xs) \<Longrightarrow> l' x = l x"
  shows "seg l' h (map Run xs) h"
  using assms by (subst seg_cong [of _ _ _ l]) (auto simp: linked_def)

lemma linked_init:
  assumes "linked l Q" "Q (Head c p) = None \<or> Q (Head c p) = Some []"
  shows "linked (ll_init (Head c p) l) (Q(Head c p \<mapsto> []))"
proof -
  have q: "queues_ok (Q(Head c p \<mapsto> []))" using assms by (auto simp: linked_def queues_ok_def)
  have "seg (ll_init (Head c p) l) h (map Run xs) h" if "Q h = Some xs" "h \<noteq> Head c p" for h xs
    by (rule linked_other [OF assms(1) that(1)]) (use that in \<open>auto simp: ll_init_def set_next_def set_prev_def\<close>)
  then show ?thesis using assms(1) q by (auto simp: linked_def ll_init_def)
qed

lemma linked_last:
  assumes "linked l Q" "Q h = Some xs"
  shows "snd (l h) \<in> insert h (Run ` set xs)"
proof -
  have "seg l h (map Run xs) h" using assms by (auto simp: linked_def)
  from seg_ends [OF this] have e: "snd (l h) = last (h # map Run xs)" .
  have "last (h # map Run xs) \<in> set (h # map Run xs)" by (rule last_in_set) simp
  then show ?thesis by (simp add: e)
qed

lemma linked_update:
  assumes "linked l Q" "Q h = Some xs" "queues_ok (Q(h \<mapsto> ys))" "seg l' h (map Run ys) h"
    and "\<And>x. x \<notin> insert h (Run ` (set xs \<union> N)) \<Longrightarrow> l' x = l x" "\<And>t. t \<in> N \<Longrightarrow> \<not> on_list t Q"
  shows "linked l' (Q(h \<mapsto> ys))"
proof -
  have "seg l' h' (map Run zs) h'" if q: "Q h' = Some zs" "h' \<noteq> h" for h' zs
  proof (rule linked_other [OF assms(1) q(1)])
    fix x assume x: "x \<in> insert h' (Run ` set zs)"
    have hd: "\<exists>c p. h' = Head c p" "\<exists>c p. h = Head c p" using assms(1,2) q(1) by (auto simp: linked_def)
    have "set xs \<inter> set zs = {}" using assms(1,2) q by (auto simp: linked_def queues_ok_def)
    moreover have "N \<inter> set zs = {}" using assms(6) q(1) by (auto simp: on_list_def)
    ultimately show "l' x = l x" using x hd q(2) by (intro assms(5)) auto
  qed
  then show ?thesis using assms(1-4) by (auto simp: linked_def)
qed

lemma linked_add_tail:
  assumes "linked l Q" "Q h = Some xs" "\<not> on_list t Q"
  shows "linked (ll_add_tail (Run t) h l) (Q(h \<mapsto> xs @ [t]))"
proof (rule linked_update [OF assms(1,2), where N = "{t}"])
  have q: "queues_ok Q" "\<exists>c p. h = Head c p" "seg l h (map Run xs) h" using assms(1,2) by (auto simp: linked_def)
  have n: "t \<notin> set ys" if "Q h' = Some ys" for h' ys using assms(3) that by (auto simp: on_list_def)
  show "queues_ok (Q(h \<mapsto> xs @ [t]))" using q(1) n assms(2) by (auto simp: queues_ok_def)
  have "distinct (map Run xs)" using q(1) assms(2) by (auto simp: queues_ok_def distinct_map inj_Run)
  then have "seg (ll_add_tail (Run t) h l) h (map Run xs @ [Run t]) h"
    using q(2,3) n [OF assms(2)] by (intro seg_add_tail) auto
  then show "seg (ll_add_tail (Run t) h l) h (map Run (xs @ [t])) h" by simp
  show "ll_add_tail (Run t) h l x = l x" if "x \<notin> insert h (Run ` (set xs \<union> {t}))" for x
    using that linked_last [OF assms(1,2)] by (auto simp: ll_add_tail_def ll_add_def set_next_def set_prev_def)
qed (use assms(3) in auto)

lemma queues_ok_subset:
  assumes "queues_ok Q" "Q h = Some xs" "set ys \<subseteq> set xs" "distinct ys"
  shows "queues_ok (Q(h \<mapsto> ys))"
proof -
  have "set ys \<inter> set zs = {}" if "Q h' = Some zs" "h' \<noteq> h" for h' zs
    using assms(1-3) that unfolding queues_ok_def by blast
  then have o: "set ys \<inter> set zs = {}" "set zs \<inter> set ys = {}" if "Q h' = Some zs" "h' \<noteq> h" for h' zs
    using that by (blast, blast)
  have "distinct zs" if "(Q(h \<mapsto> ys)) h' = Some zs" for h' zs
    using that assms(1,4) by (cases "h' = h") (auto simp: queues_ok_def)
  moreover have "set us \<inter> set vs = {}" if "(Q(h \<mapsto> ys)) a = Some us" "(Q(h \<mapsto> ys)) b = Some vs" "a \<noteq> b" for a b us vs
  proof (cases "a = h \<or> b = h")
    case True
    then show ?thesis using that o [of a us] o [of b vs] by auto
  next
    case False
    then have "Q a = Some us" "Q b = Some vs" using that by auto
    then show ?thesis using assms(1) that(3) unfolding queues_ok_def by blast
  qed
  ultimately show ?thesis unfolding queues_ok_def by blast
qed

lemma linked_del:
  assumes "linked l Q" "Q h = Some xs" "t \<in> set xs"
  shows "linked (ll_del (Run t) l) (Q(h \<mapsto> remove1 t xs))"
proof (rule linked_update [OF assms(1,2), where N = "{}"])
  have q: "queues_ok Q" "\<exists>c p. h = Head c p" "seg l h (map Run xs) h" "distinct xs"
    using assms(1,2) by (auto simp: linked_def queues_ok_def)
  obtain ys zs where s: "xs = ys @ t # zs" "t \<notin> set ys" using split_list_first [OF assms(3)] by blast
  have r: "remove1 t xs = ys @ zs" using s by (simp add: remove1_append)
  show "queues_ok (Q(h \<mapsto> remove1 t xs))"
    by (rule queues_ok_subset [OF q(1) assms(2) set_remove1_subset]) (use q(4) in simp)
  have d: "distinct (map Run ys @ Run t # map Run zs)" using q(4) s(1) by (auto simp: distinct_map inj_Run)
  have sg: "seg l h (map Run ys @ Run t # map Run zs) h" using q(3) s(1) by simp
  show "seg (ll_del (Run t) l) h (map Run (remove1 t xs)) h"
    using seg_del [OF sg d] q(2) by (auto simp: r)
  have sp: "seg l h (map Run ys) (Run t)" "seg l (Run t) (map Run zs) h" using sg by (simp_all add: seg_append)
  have "snd (l (Run t)) \<in> set (h # map Run ys)" unfolding seg_ends [OF sp(1)] by (rule last_in_set) simp
  moreover have "fst (l (Run t)) \<in> set (map Run zs @ [h])" using sp(2) by (cases zs) auto
  ultimately have "snd (l (Run t)) \<in> insert h (Run ` set xs)" "fst (l (Run t)) \<in> insert h (Run ` set xs)"
    using s(1) by auto
  then show "ll_del (Run t) l x = l x" if "x \<notin> insert h (Run ` (set xs \<union> {}))" for x
    using that by (auto simp: ll_del_def set_next_def set_prev_def)
qed simp

interpretation linked_lists: sched_api "linked_env sz idle cpus" linked
proof
  fix l Q h xs x c p t
  show "linked l Q \<Longrightarrow> queues_ok Q" by (simp add: linked_def)
  show "linked l Q \<Longrightarrow> Q (Head c p) = None \<or> Q (Head c p) = Some [] \<Longrightarrow>
      linked (e_list_init (linked_env sz idle cpus) (Head c p) l) (Q(Head c p \<mapsto> []))"
    using linked_init by (simp add: linked_env_def)
  show "linked l Q \<Longrightarrow> Q h = Some xs \<Longrightarrow> \<not> on_list t Q \<Longrightarrow>
      linked (e_list_add_tail (linked_env sz idle cpus) (Run t) h l) (Q(h \<mapsto> xs @ [t]))"
    using linked_add_tail by (simp add: linked_env_def)
  show "linked l Q \<Longrightarrow> Q h = Some xs \<Longrightarrow> t \<in> set xs \<Longrightarrow>
      linked (e_list_del (linked_env sz idle cpus) (Run t) l) (Q(h \<mapsto> remove1 t xs))"
    using linked_del by (simp add: linked_env_def)
  show "linked l Q \<Longrightarrow> Q h = Some xs \<Longrightarrow> e_list_empty (linked_env sz idle cpus) h l \<longleftrightarrow> xs = []"
  proof -
    assume "linked l Q" "Q h = Some xs"
    then have "\<exists>c p. h = Head c p" "seg l h (map Run xs) h" unfolding linked_def by blast+
    then show ?thesis by (cases xs) (auto simp: linked_env_def)
  qed
  show "linked l Q \<Longrightarrow> Q h = Some (x # xs) \<Longrightarrow> e_list_first_entry (linked_env sz idle cpus) h l = x"
  proof -
    assume "linked l Q" "Q h = Some (x # xs)"
    then have "seg l h (map Run (x # xs)) h" unfolding linked_def by blast
    then show ?thesis by (simp add: linked_env_def)
  qed
  show "\<exists>k. e_lock (linked_env sz idle cpus) (e_unlocked (linked_env sz idle cpus)) = Some k \<and>
      e_unlock (linked_env sz idle cpus) k = e_unlocked (linked_env sz idle cpus)"
    by (simp add: linked_env_def)
qed

end
