(* ===== verification/CK_Sched_Inv.thy ===== *)
theory CK_Sched_Inv
  imports CK_List_Head
begin

text \<open>
  The run queue of the boot processor as five lists of threads, one per priority, and what each
  scheduler operation does to them. The lemmas hold for every implementation of the list interface.
\<close>

unbundle bit_operations_syntax

section \<open>The invariant\<close>

definition queued :: "(nat \<Rightarrow> ptr list) \<Rightarrow> ptr set" where
  "queued q = (\<Union>p < 5. set (q p))"

definition sched_inv :: "sched_env \<Rightarrow> (links \<Rightarrow> queues \<Rightarrow> bool) \<Rightarrow> (nat \<Rightarrow> ptr list) \<Rightarrow> 'a sched_state_scheme \<Rightarrow> bool" where
  "sched_inv E repr q s \<longleftrightarrow> length (g_runqueues s) = 256 \<and> rq_lock (get_rq 0 s) = e_unlocked E \<and>
     (\<exists>Q. repr (run_links s) Q \<and> (\<forall>p < 5. Q (Head 0 p) = Some (q p)) \<and>
        (\<forall>h xs. Q h = Some xs \<longrightarrow> (\<exists>p < 5. h = Head 0 p) \<or> xs = [])) \<and>
     (\<forall>p < 64. bit (rq_bitmap (get_rq 0 s)) p \<longleftrightarrow> p < 5 \<and> q p \<noteq> []) \<and>
     nr_running (get_rq 0 s) = of_nat (\<Sum>p < 5. length (q p)) \<and>
     (\<forall>p < 5. \<forall>t \<in> set (q p). t \<noteq> 0 \<and> priority_value (t_priority (threads s t)) = p)"

lemma get_set_rq [simp]:
  "cpu < length (g_runqueues s) \<Longrightarrow> get_rq cpu (set_rq cpu rq s) = rq"
  "length (g_runqueues (set_rq cpu rq s)) = length (g_runqueues s)"
  "run_links (set_rq cpu rq s) = run_links s" "threads (set_rq cpu rq s) = threads s"
  "sched_events (set_rq cpu rq s) = sched_events s" "set_rq cpu r (set_rq cpu rq s) = set_rq cpu r s"
  by (simp_all add: get_rq_def set_rq_def)

lemma get_rq_links [simp]: "get_rq cpu (s\<lparr>run_links := l\<rparr>) = get_rq cpu s"
  by (simp add: get_rq_def)

lemma set_rq_links: "set_rq cpu rq (s\<lparr>run_links := l\<rparr>) = (set_rq cpu rq s)\<lparr>run_links := l\<rparr>"
  by (simp add: set_rq_def)

lemma lock_id: "rq_lock x = k \<Longrightarrow> x\<lparr>rq_lock := k\<rparr> = x"
  by (cases x) auto

section \<open>The bitmap\<close>

lemma bit_set_priority:
  assumes "p < 64" "i < 64"
  shows "bit ((x :: u64) OR 2 ^ p) i \<longleftrightarrow> bit x i \<or> i = p"
    "bit (x AND NOT (2 ^ p)) i \<longleftrightarrow> bit x i \<and> i \<noteq> p"
  using assms by (auto simp: bit_simps)

lemma clz_from_bound:
  assumes "m < n" "n \<le> 64" "bit x m" "\<And>i. m < i \<Longrightarrow> i < n \<Longrightarrow> \<not> bit x i"
  shows "clz_from n x = 63 - m"
  using assms by (induction n) (auto simp: less_Suc_eq)

lemma highest_priority:
  assumes "m < 5" "bit x m" "\<And>i. m < i \<Longrightarrow> i < 64 \<Longrightarrow> \<not> bit x i"
  shows "builtin_clzll x XOR 63 = m"
proof -
  have "builtin_clzll x = 63 - m" unfolding builtin_clzll_def by (rule clz_from_bound) (use assms in auto)
  moreover have "m \<in> {0, 1, 2, 3, 4}" using assms(1) by auto
  ultimately show ?thesis by auto
qed

lemma bitmap_zero:
  assumes "\<forall>p < 64. bit (x :: u64) p \<longleftrightarrow> p < 5 \<and> q p \<noteq> []"
  shows "x = 0 \<longleftrightarrow> (\<forall>p < 5. q p = [])"
proof
  assume "x = 0"
  then show "\<forall>p < 5. q p = []" using assms by auto
next
  assume "\<forall>p < 5. q p = []"
  then show "x = 0" using assms by (intro bit_word_eqI) auto
qed

section \<open>Operations\<close>

text \<open>The reference for the choice: the first thread of the highest priority, or the idle thread.\<close>

fun first_from :: "nat \<Rightarrow> (nat \<Rightarrow> ptr list) \<Rightarrow> ptr \<Rightarrow> ptr" where
  "first_from 0 q idle = idle"
| "first_from (Suc p) q idle = (case q p of [] \<Rightarrow> first_from p q idle | t # ts \<Rightarrow> t)"

lemma first_from_none: "(\<forall>p < n. q p = []) \<Longrightarrow> first_from n q idle = idle"
  by (induction n) auto

lemma first_from_top:
  assumes "m < n" "q m \<noteq> []" "\<And>i. m < i \<Longrightarrow> i < n \<Longrightarrow> q i = []"
  shows "first_from n q idle = hd (q m)"
  using assms by (induction n) (auto simp: less_Suc_eq split: list.split)

lemma sum_update:
  assumes "p < (5 :: nat)"
  shows "(\<Sum>i < 5. length ((q(p := xs)) i)) + length (q p) = (\<Sum>i < 5. length (q i)) + length xs"
proof -
  have "(\<Sum>i < 5. f i) = f p + (\<Sum>i \<in> {..<5} - {p}. f i)" for f :: "nat \<Rightarrow> nat"
    using assms by (intro sum.remove) auto
  moreover have "(\<Sum>i \<in> {..<5} - {p}. length ((q(p := xs)) i)) = (\<Sum>i \<in> {..<5} - {p}. length (q i))"
    by (rule sum.cong) auto
  ultimately show ?thesis by (simp del: lessThan_Suc)
qed

lemma priorities_update:
  assumes "sched_inv E repr q s" "t \<noteq> 0" "priority_value (t_priority (threads s t)) = p" "set xs \<subseteq> insert t (set (q p))"
  shows "\<forall>i < 5. \<forall>u \<in> set ((q(p := xs)) i). u \<noteq> 0 \<and> priority_value (t_priority (threads s u)) = i"
proof (intro allI impI ballI)
  fix i u assume i: "i < 5" "u \<in> set ((q(p := xs)) i)"
  have old: "\<forall>i < 5. \<forall>u \<in> set (q i). u \<noteq> 0 \<and> priority_value (t_priority (threads s u)) = i"
    using assms(1) by (simp add: sched_inv_def)
  show "u \<noteq> 0 \<and> priority_value (t_priority (threads s u)) = i"
  proof (cases "i = p \<and> u = t")
    case False
    then have "u \<in> set (q i)" using i(2) assms(4) by (auto split: if_splits)
    then show ?thesis using old i(1) by blast
  qed (use assms in simp)
qed

context sched_api
begin

lemma lock_run:
  assumes "length (g_runqueues s) = 256" "rq_lock (get_rq 0 s) = e_unlocked E"
  shows "\<exists>k. lock_rq E 0 s = Some (set_rq 0 ((get_rq 0 s)\<lparr>rq_lock := k\<rparr>) s) \<and> e_unlock E k = e_unlocked E"
  using lock_unlock assms by (auto simp: lock_rq_def)

lemma on_list_queued:
  assumes "\<forall>p < 5. Q (Head 0 p) = Some (q p)" "\<forall>h xs. Q h = Some xs \<longrightarrow> (\<exists>p < 5. h = Head 0 p) \<or> xs = []"
  shows "on_list t Q \<longleftrightarrow> t \<in> queued q"
proof
  assume "on_list t Q"
  then obtain h xs where "Q h = Some xs" "t \<in> set xs" by (auto simp: on_list_def)
  then obtain p where "p < 5" "h = Head 0 p" using assms(2) by force
  then show "t \<in> queued q" using assms(1) \<open>Q h = Some xs\<close> \<open>t \<in> set xs\<close> by (auto simp: queued_def)
next
  assume "t \<in> queued q"
  then show "on_list t Q" using assms(1) by (auto simp: queued_def on_list_def)
qed

lemma enqueue_run:
  assumes inv: "sched_inv E repr q s" and t: "t \<noteq> 0" "t_state (threads s t) = THREAD_STATE_READY" "t \<notin> queued q"
    and p: "p = priority_value (t_priority (threads s t))"
  shows "\<exists>s'. sched_enqueue E t s = Some s' \<and> sched_inv E repr (q(p := q p @ [t])) s' \<and> threads s' = threads s \<and>
    rq_current (get_rq 0 s') = rq_current (get_rq 0 s) \<and> rq_idle_thread (get_rq 0 s') = rq_idle_thread (get_rq 0 s) \<and>
    sched_events s' = sched_events s"
proof -
  have p5: "p < 5" by (simp add: p)
  define rq where "rq = get_rq 0 s"
  obtain Q where Q: "repr (run_links s) Q" "\<forall>p < 5. Q (Head 0 p) = Some (q p)"
      "\<forall>h xs. Q h = Some xs \<longrightarrow> (\<exists>p < 5. h = Head 0 p) \<or> xs = []"
    using inv by (auto simp: sched_inv_def)
  have len: "length (g_runqueues s) = 256" "rq_lock rq = e_unlocked E" using inv by (auto simp: sched_inv_def rq_def)
  obtain k where k: "lock_rq E 0 s = Some (set_rq 0 (rq\<lparr>rq_lock := k\<rparr>) s)" "e_unlock E k = e_unlocked E"
    using lock_run len by (auto simp: rq_def)
  define rq' where "rq' = rq\<lparr>rq_bitmap := rq_bitmap rq OR 2 ^ p, nr_running := nr_running rq + 1\<rparr>"
  define l where "l = e_list_add_tail E (Run t) (Head 0 p) (run_links s)"
  have r: "sched_enqueue E t s = Some ((set_rq 0 rq' s)\<lparr>run_links := l\<rparr>)"
    using t k len by (simp add: sched_enqueue_def queue_of_thread_def p [symmetric] unlock_rq_def Let_def rq'_def l_def set_rq_links lock_id)
  have "repr l (Q(Head 0 p \<mapsto> q p @ [t]))"
    unfolding l_def using Q p5 t(3) on_list_queued [OF Q(2,3)] by (intro list_add_tail) auto
  then have rp: "\<exists>Q'. repr l Q' \<and> (\<forall>i < 5. Q' (Head 0 i) = Some ((q(p := q p @ [t])) i)) \<and>
      (\<forall>h xs. Q' h = Some xs \<longrightarrow> (\<exists>p < 5. h = Head 0 p) \<or> xs = [])"
    using Q p5 by (intro exI [of _ "Q(Head 0 p \<mapsto> q p @ [t])"]) auto
  have bits: "\<forall>i < 64. bit (rq_bitmap rq') i \<longleftrightarrow> i < 5 \<and> (q(p := q p @ [t])) i \<noteq> []"
    using inv p5 by (auto simp: sched_inv_def rq'_def rq_def bit_set_priority)
  have sm: "nr_running rq' = of_nat (\<Sum>i < 5. length ((q(p := q p @ [t])) i))"
    using inv sum_update [OF p5, of q "q p @ [t]"] by (simp add: sched_inv_def rq'_def rq_def del: of_nat_sum)
  have pr: "\<forall>i < 5. \<forall>u \<in> set ((q(p := q p @ [t])) i). u \<noteq> 0 \<and> priority_value (t_priority (threads s u)) = i"
    by (rule priorities_update [OF inv t(1) p [symmetric]]) simp
  have "sched_inv E repr (q(p := q p @ [t])) ((set_rq 0 rq' s)\<lparr>run_links := l\<rparr>)"
    using rp len bits sm pr unfolding sched_inv_def by (simp add: rq'_def del: fun_upd_apply of_nat_sum)
  then show ?thesis using r len by (simp add: rq'_def rq_def)
qed

lemma dequeue_run:
  assumes inv: "sched_inv E repr q s" and p: "p = priority_value (t_priority (threads s t))" and t: "t \<in> set (q p)"
  shows "\<exists>s'. sched_dequeue E t s = Some s' \<and> sched_inv E repr (q(p := remove1 t (q p))) s' \<and> threads s' = threads s \<and>
    rq_current (get_rq 0 s') = rq_current (get_rq 0 s) \<and> rq_idle_thread (get_rq 0 s') = rq_idle_thread (get_rq 0 s) \<and>
    sched_events s' = sched_events s"
proof -
  have p5: "p < 5" by (simp add: p)
  define rq where "rq = get_rq 0 s"
  obtain Q where Q: "repr (run_links s) Q" "\<forall>p < 5. Q (Head 0 p) = Some (q p)"
      "\<forall>h xs. Q h = Some xs \<longrightarrow> (\<exists>p < 5. h = Head 0 p) \<or> xs = []"
    using inv by (auto simp: sched_inv_def)
  have len: "length (g_runqueues s) = 256" "rq_lock rq = e_unlocked E" and t0: "t \<noteq> 0"
    using inv t p5 by (auto simp: sched_inv_def rq_def)
  obtain k where k: "lock_rq E 0 s = Some (set_rq 0 (rq\<lparr>rq_lock := k\<rparr>) s)" "e_unlock E k = e_unlocked E"
    using lock_run len by (auto simp: rq_def)
  define l where "l = e_list_del E (Run t) (run_links s)"
  let ?xs = "remove1 t (q p)" and ?Q = "Q(Head 0 p \<mapsto> remove1 t (q p))"
  have rl: "repr l ?Q" unfolding l_def using Q p5 t by (intro list_del) auto
  then have em: "e_list_empty E (Head 0 p) l \<longleftrightarrow> ?xs = []" by (rule list_empty) simp
  define rq' where "rq' = rq\<lparr>rq_bitmap := (if ?xs = [] then rq_bitmap rq AND NOT (2 ^ p) else rq_bitmap rq),
    nr_running := nr_running rq - 1\<rparr>"
  have r: "sched_dequeue E t s = Some ((set_rq 0 rq' s)\<lparr>run_links := l\<rparr>)"
    using t0 k len em by (simp add: sched_dequeue_def queue_of_thread_def p [symmetric] unlock_rq_def Let_def rq'_def
      l_def [symmetric] set_rq_links lock_id)
  have rp: "\<exists>Q'. repr l Q' \<and> (\<forall>i < 5. Q' (Head 0 i) = Some ((q(p := ?xs)) i)) \<and>
      (\<forall>h xs. Q' h = Some xs \<longrightarrow> (\<exists>p < 5. h = Head 0 p) \<or> xs = [])"
    using Q p5 rl by (intro exI [of _ ?Q]) auto
  have "Suc (\<Sum>i < 5. length ((q(p := ?xs)) i)) = (\<Sum>i < 5. length (q i))"
  proof -
    have "length (q p) = Suc (length ?xs)" using length_remove1 [of t "q p"] length_pos_if_in_set [OF t] t by simp
    then show ?thesis using sum_update [OF p5, of q ?xs] by linarith
  qed
  then have "of_nat (\<Sum>i < 5. length (q i)) = (of_nat (\<Sum>i < 5. length ((q(p := ?xs)) i)) + 1 :: u64)"
    by (metis of_nat_Suc add.commute)
  then have sm: "nr_running rq' = of_nat (\<Sum>i < 5. length ((q(p := ?xs)) i))"
    using inv by (simp add: sched_inv_def rq'_def rq_def del: of_nat_sum fun_upd_apply)
  have bits: "\<forall>i < 64. bit (rq_bitmap rq') i \<longleftrightarrow> i < 5 \<and> (q(p := ?xs)) i \<noteq> []"
    using inv p5 t by (auto simp: sched_inv_def rq'_def rq_def bit_set_priority)
  have pr: "\<forall>i < 5. \<forall>u \<in> set ((q(p := ?xs)) i). u \<noteq> 0 \<and> priority_value (t_priority (threads s u)) = i"
    using priorities_update [OF inv t0 p [symmetric]] set_remove1_subset [of t "q p"] by blast
  have "sched_inv E repr (q(p := ?xs)) ((set_rq 0 rq' s)\<lparr>run_links := l\<rparr>)"
    using rp len bits sm pr unfolding sched_inv_def by (simp add: rq'_def del: fun_upd_apply of_nat_sum)
  then show ?thesis using r len by (simp add: rq'_def rq_def)
qed

lemma next_thread_run:
  assumes inv: "sched_inv E repr q s"
  shows "get_next_thread E 0 s = first_from 5 q (rq_idle_thread (get_rq 0 s))"
proof -
  have b: "\<forall>p < 64. bit (rq_bitmap (get_rq 0 s)) p \<longleftrightarrow> p < 5 \<and> q p \<noteq> []" using inv by (simp add: sched_inv_def)
  show ?thesis
  proof (cases "\<forall>p < 5. q p = []")
    case True
    then show ?thesis using bitmap_zero [OF b] by (simp add: get_next_thread_def Let_def first_from_none)
  next
    case False
    define m where "m = Max {p. p < 5 \<and> q p \<noteq> []}"
    have fin: "finite {p. p < 5 \<and> q p \<noteq> []}" "{p. p < 5 \<and> q p \<noteq> []} \<noteq> {}" using False by auto
    have m: "m < 5" "q m \<noteq> []" using Max_in [OF fin] by (auto simp: m_def)
    have top: "q i = []" if "m < i" "i < 5" for i
    proof (rule ccontr)
      assume "q i \<noteq> []"
      then have "i \<le> m" unfolding m_def using that by (intro Max_ge [OF fin(1)]) simp
      then show False using that by simp
    qed
    have "builtin_clzll (rq_bitmap (get_rq 0 s)) XOR 63 = m" by (rule highest_priority) (use m b top in auto)
    moreover have "rq_bitmap (get_rq 0 s) \<noteq> 0" using bitmap_zero [OF b] False by auto
    moreover have "e_list_first_entry E (Head 0 m) (run_links s) = hd (q m)"
      using inv m by (auto simp: sched_inv_def neq_Nil_conv intro: list_first_entry)
    moreover have "first_from 5 q idle = hd (q m)" for idle by (rule first_from_top) (use m top in auto)
    ultimately show ?thesis by (simp add: get_next_thread_def Let_def)
  qed
qed

lemma inv_rq:
  assumes "sched_inv E repr q s" "rq_lock rq = e_unlocked E" "rq_bitmap rq = rq_bitmap (get_rq 0 s)"
    "nr_running rq = nr_running (get_rq 0 s)"
  shows "sched_inv E repr q (set_rq 0 rq s)"
  using assms by (simp add: sched_inv_def)

lemma schedule_run:
  assumes inv: "sched_inv E repr q s" and n: "n = first_from 5 q (rq_idle_thread (get_rq 0 s))" and c: "c = rq_current (get_rq 0 s)"
  shows "\<exists>s'. schedule E s = Some s' \<and> sched_inv E repr q s' \<and> rq_current (get_rq 0 s') = n \<and> threads s' = threads s \<and>
    rq_idle_thread (get_rq 0 s') = rq_idle_thread (get_rq 0 s) \<and>
    nr_switches (get_rq 0 s') = nr_switches (get_rq 0 s) + (if c = n then 0 else 1) \<and>
    sched_events s' = sched_events s @ (if c = n then [] else [Switch_to c n])"
proof -
  define rq where "rq = get_rq 0 s"
  have len: "length (g_runqueues s) = 256" "rq_lock rq = e_unlocked E" using inv by (auto simp: sched_inv_def rq_def)
  obtain k where k: "lock_rq E 0 s = Some (set_rq 0 (rq\<lparr>rq_lock := k\<rparr>) s)" "e_unlock E k = e_unlocked E"
    using lock_run len by (auto simp: rq_def)
  have nx: "get_next_thread E 0 (set_rq 0 (rq\<lparr>rq_lock := k\<rparr>) s) = n"
  proof -
    have "get_next_thread E 0 (set_rq 0 (rq\<lparr>rq_lock := k\<rparr>) s) = get_next_thread E 0 s"
      using len by (simp add: get_next_thread_def rq_def Let_def)
    then show ?thesis using next_thread_run [OF inv] n by simp
  qed
  define s' where "s' = (if c = n then s
    else (set_rq 0 (rq\<lparr>rq_current := n, nr_switches := nr_switches rq + 1\<rparr>) s)\<lparr>sched_events := sched_events s @ [Switch_to c n]\<rparr>)"
  have sr: "set_rq 0 rq s = s" by (simp add: set_rq_def rq_def get_rq_def)
  have r: "schedule E s = Some s'"
    using k nx len sr by (auto simp: schedule_def Let_def s'_def unlock_rq_def lock_id c rq_def [symmetric])
  have "sched_inv E repr q s'" using inv inv_rq [OF inv, of "rq\<lparr>rq_current := n, nr_switches := nr_switches rq + 1\<rparr>"] len
    by (auto simp: s'_def rq_def sched_inv_def get_rq_def)
  then show ?thesis using r len c by (auto simp: s'_def rq_def get_rq_def set_rq_def)
qed

end

end
