(* ===== verification/CK_Sched_Init.thy ===== *)
theory CK_Sched_Init
  imports CK_Sched_Inv CK_Ipc_Create
begin

text \<open>
  Initialisation of the scheduler: allocation changes nothing that belongs to the scheduler, and
  after \<open>scheduler_init\<close> the run queues are empty and consistent.
\<close>

section \<open>Allocation leaves the rest of the kernel alone\<close>

definition calloc_more :: "(u64 \<Rightarrow> u64 \<Rightarrow> 'a slab_state_scheme \<Rightarrow> ptr \<times> 'a slab_state_scheme) \<Rightarrow> bool" where
  "calloc_more calloc \<longleftrightarrow> (\<forall>n sz s. slab_state.more (snd (calloc n sz s)) = slab_state.more s)"

lemma set_cache_more [simp]: "slab_state.more (set_cache i c s) = slab_state.more s"
  by (simp add: set_cache_def)

lemma alloc_pages_more: "slab_state.more (snd (alloc_pages k z s)) = slab_state.more s"
proof -
  obtain p s' where a: "alloc_pages k z s = (p, s')" by fastforce
  show ?thesis using arg_cong [OF alloc_pages_fields [OF a], of slab_state.more] a by simp
qed

lemma slab_init_more:
  assumes "calloc_more calloc"
  shows "slab_state.more (slab_init calloc slab cache m s) = slab_state.more s"
  using assms by (simp add: slab_init_def Let_def split_beta calloc_more_def)

lemma pick_slab_more:
  assumes "calloc_more calloc"
  shows "slab_state.more (snd (pick_slab calloc i s)) = slab_state.more s"
  using slab_init_more [OF assms] alloc_pages_more [of 0 0 s]
  by (simp add: pick_slab_def Let_def split_beta alloc_page_def)

lemma take_object_more: "slab_state.more (snd (take_object i slab s)) = slab_state.more s"
  by (simp add: take_object_def Let_def split_beta)

lemma kmem_cache_alloc_more:
  assumes "calloc_more calloc"
  shows "slab_state.more (snd (kmem_cache_alloc calloc (Some i) s)) = slab_state.more s"
  using pick_slab_more [OF assms, of i s]
  by (auto simp: kmem_cache_alloc_def split_beta take_object_more split: prod.split option.split)

lemma kmalloc_small:
  assumes "calloc_more calloc" "sz \<le> MAX_OBJECT_SIZE"
  shows "\<exists>p s'. kmalloc calloc sz s = Some (p, s') \<and> slab_state.more s' = slab_state.more s"
proof (cases "find_cache sz (take (unat (g_cache_count s)) (g_caches s)) 0")
  case None
  then show ?thesis using assms(2) by (simp add: kmalloc_def not_less [symmetric])
next
  case (Some i)
  then show ?thesis using kmem_cache_alloc_more [OF assms(1), of i s]
    by (intro exI [of _ "fst (kmem_cache_alloc calloc (Some i) s)"] exI [of _ "snd (kmem_cache_alloc calloc (Some i) s)"])
      (simp add: kmalloc_def)
qed

lemma more_fields:
  fixes s :: "'a sched_state_scheme"
  assumes "slab_state.more s' = slab_state.more s"
  shows "g_runqueues s' = g_runqueues s" "run_links s' = run_links s" "threads s' = threads s" "g_cpu_count s' = g_cpu_count s"
    "sched_events s' = sched_events s"
  using assms by (cases s; cases s'; simp)+

section \<open>Initialisation\<close>

definition all_empty :: "queues \<Rightarrow> bool" where
  "all_empty Q \<longleftrightarrow> (\<forall>h xs. Q h = Some xs \<longrightarrow> xs = [])"

definition rq_blank :: "sched_env \<Rightarrow> runqueue_t \<Rightarrow> bool" where
  "rq_blank E rq \<longleftrightarrow> rq_lock rq = e_unlocked E \<and> rq_bitmap rq = 0 \<and> nr_running rq = 0"

text \<open>\<open>k\<close> run queues are initialised.\<close>

definition rqs_ready :: "sched_env \<Rightarrow> (links \<Rightarrow> queues \<Rightarrow> bool) \<Rightarrow> nat \<Rightarrow> 'a sched_state_scheme \<Rightarrow> bool" where
  "rqs_ready E repr k s \<longleftrightarrow> length (g_runqueues s) = 256 \<and> (\<forall>c < k. rq_blank E (get_rq c s)) \<and>
     (\<exists>Q. repr (run_links s) Q \<and> all_empty Q \<and> (\<forall>c < k. \<forall>p < 5. Q (Head c p) = Some []))"

lemma rqs_ready_inv:
  assumes "rqs_ready E repr k s" "0 < k"
  shows "sched_inv E repr (\<lambda>_. []) s"
  using assms by (auto simp: rqs_ready_def sched_inv_def rq_blank_def all_empty_def)

lemma get_set_rq_other: "c \<noteq> i \<Longrightarrow> get_rq c (set_rq i rq s) = get_rq c s"
  by (simp add: get_rq_def set_rq_def)

lemma init_runqueues_cpus: "g_cpu_count (init_runqueues E i m u) = g_cpu_count u"
  by (induction m arbitrary: i u) (simp_all add: init_runqueue_def set_rq_def)

context sched_api
begin

lemma init_queues_run:
  assumes "repr l Q" "all_empty Q"
  shows "\<exists>Q'. repr (init_queues E cpu i n l) Q' \<and> all_empty Q' \<and>
    (\<forall>p. i \<le> p \<longrightarrow> p < i + n \<longrightarrow> Q' (Head cpu p) = Some []) \<and> (\<forall>h. Q h = Some [] \<longrightarrow> Q' h = Some [])"
  using assms
proof (induction n arbitrary: i l Q)
  case 0
  then show ?case by auto
next
  case (Suc n)
  have "Q (Head cpu i) = None \<or> Q (Head cpu i) = Some []" using Suc.prems(2) by (cases "Q (Head cpu i)") (auto simp: all_empty_def)
  from list_init [OF Suc.prems(1) this]
  have r: "repr (e_list_init E (Head cpu i) l) (Q(Head cpu i \<mapsto> []))" .
  have "all_empty (Q(Head cpu i \<mapsto> []))" using Suc.prems(2) by (simp add: all_empty_def)
  from Suc.IH [OF r this, of "Suc i"] obtain Q' where Q': "repr (init_queues E cpu i (Suc n) l) Q'" "all_empty Q'"
      "\<And>p. Suc i \<le> p \<Longrightarrow> p < Suc i + n \<Longrightarrow> Q' (Head cpu p) = Some []"
      "\<And>h. (Q(Head cpu i \<mapsto> [])) h = Some [] \<Longrightarrow> Q' h = Some []" by auto
  have "Q' (Head cpu p) = Some []" if "i \<le> p" "p < i + Suc n" for p using Q'(3,4) that by (cases "p = i") auto
  then show ?case using Q' by (intro exI [of _ Q']) auto
qed

lemma init_runqueue_ready:
  assumes "rqs_ready E repr k s" "k < 256"
  shows "rqs_ready E repr (Suc k) (init_runqueue E k s)"
proof -
  obtain Q where Q: "repr (run_links s) Q" "all_empty Q" "\<forall>c < k. \<forall>p < 5. Q (Head c p) = Some []"
    using assms(1) by (auto simp: rqs_ready_def)
  obtain Q' where "repr (init_queues E k 0 5 (run_links s)) Q'" "all_empty Q'" "\<forall>p < 5. Q' (Head k p) = Some []"
      "\<forall>h. Q h = Some [] \<longrightarrow> Q' h = Some []"
    using init_queues_run [OF Q(1,2), of k 0 5] by auto
  then show ?thesis using assms Q(3) unfolding rqs_ready_def
    by (auto simp: init_runqueue_def NR_PRIORITY_LEVELS_def less_Suc_eq rq_blank_def get_set_rq_other)
qed

lemma init_runqueues_ready:
  assumes "rqs_ready E repr k s" "k + n \<le> 256"
  shows "rqs_ready E repr (k + n) (init_runqueues E k n s)"
  using assms
proof (induction n arbitrary: k s)
  case (Suc n)
  show ?case using Suc.IH [OF init_runqueue_ready [OF Suc.prems(1)]] Suc.prems(2) by simp
qed simp

lemma create_idle_ready:
  assumes "rqs_ready E repr k s" "calloc_more calloc" "e_thread_size E \<le> MAX_OBJECT_SIZE" "i + n \<le> k" "k \<le> 256"
  shows "\<exists>s'. create_idle calloc E i n s = Some s' \<and> rqs_ready E repr k s' \<and> g_cpu_count s' = g_cpu_count s"
  using assms(1,4)
proof (induction n arbitrary: i s)
  case (Suc n)
  define stack s1 where "stack = fst (alloc_page 0 s)" and "s1 = snd (alloc_page 0 s)"
  have m1: "slab_state.more s1 = slab_state.more s" using alloc_pages_more [of 0 0 s] by (simp add: s1_def alloc_page_def)
  obtain p s2 where k: "kmalloc calloc (e_thread_size E) s1 = Some (p, s2)" "slab_state.more s2 = slab_state.more s1"
    using kmalloc_small [OF assms(2,3)] by blast
  note f = more_fields [OF k(2)] more_fields [OF m1]
  obtain idle s3 where c: "sched_create_thread calloc E CELL_ID_KERNEL (e_idle_loop E) stack PAGE_SIZE PRIORITY_IDLE s1 = Some (idle, s3)"
    "g_runqueues s3 = g_runqueues s" "run_links s3 = run_links s" "g_cpu_count s3 = g_cpu_count s"
    using k(1) f by (cases "p = 0") (auto simp: sched_create_thread_def atomic_inc_def Let_def set_thread_def)
  define s4 where "s4 = (if idle \<noteq> 0 then set_rq i ((get_rq i s3)\<lparr>rq_idle_thread := idle, rq_current := idle\<rparr>) s3 else s3)"
  have r3: "rqs_ready E repr k s3" using Suc.prems(1) c by (simp add: rqs_ready_def get_rq_def)
  have "rq_blank E (get_rq d s4)" if "d < k" for d
    using r3 that Suc.prems(2) assms(5) by (cases "d = i") (auto simp: s4_def rqs_ready_def rq_blank_def get_set_rq_other)
  then have "rqs_ready E repr k s4" using r3 by (auto simp: s4_def rqs_ready_def)
  from Suc.IH [OF this, of "Suc i"] Suc.prems(2)
  obtain s' where "create_idle calloc E (Suc i) n s4 = Some s'" "rqs_ready E repr k s'" "g_cpu_count s' = g_cpu_count s4" by auto
  moreover have "create_idle calloc E i (Suc n) s = create_idle calloc E (Suc i) n s4"
    using c(1) by (simp add: stack_def s1_def s4_def split_beta)
  moreover have "g_cpu_count s4 = g_cpu_count s" using c(4) by (simp add: s4_def set_rq_def)
  ultimately show ?case by auto
qed simp

lemma scheduler_init_run:
  assumes "calloc_more calloc" "e_thread_size E \<le> MAX_OBJECT_SIZE" "0 < e_cpu_count E"
    and "length (g_runqueues s) = 256" "repr (run_links s) Map.empty"
  shows "\<exists>s'. scheduler_init calloc E s = Some s' \<and> sched_inv E repr (\<lambda>_. []) s' \<and> g_cpu_count s' = min (e_cpu_count E) 256"
proof -
  define n where "n = unat (min (e_cpu_count E) 256)"
  define s2 where "s2 = s\<lparr>g_cpu_count := min (e_cpu_count E) 256\<rparr>"
  have n: "0 < n" "n \<le> 256" using assms(3) unfolding n_def by (simp_all add: min_def word_le_nat_alt word_less_nat_alt)
  have "rqs_ready E repr 0 s2" using assms(4,5) by (auto simp: rqs_ready_def s2_def all_empty_def intro!: exI [of _ Map.empty])
  from init_runqueues_ready [OF this, of n] have r: "rqs_ready E repr n (init_runqueues E 0 n s2)" using n by simp
  obtain s' where s': "create_idle calloc E 0 n (init_runqueues E 0 n s2) = Some s'" "rqs_ready E repr n s'"
      "g_cpu_count s' = min (e_cpu_count E) 256"
    using create_idle_ready [OF r assms(1,2), of 0 n] n by (auto simp: s2_def init_runqueues_cpus)
  have "scheduler_init calloc E s = create_idle calloc E 0 n (init_runqueues E 0 n s2)"
    by (auto simp: scheduler_init_def Let_def n_def s2_def MAX_CPUS_def min_def)
  then show ?thesis using s' rqs_ready_inv n(1) by auto
qed

end

end
