(* ===== verification/CK_Sched_Props.thy ===== *)
theory CK_Sched_Props
  imports CK_Sched_Init CK_Ipc_Props
begin

text \<open>
  The properties of the scheduler. The hypothesis \<open>sched_api E repr\<close> collects what is assumed of
  the external list and lock primitives; the witnesses use circular doubly linked lists.
\<close>

unbundle bit_operations_syntax

section \<open>A state for the witnesses\<close>

definition demo_env :: sched_env where
  "demo_env = linked_env 64 0x100000 1"

definition rq_zero :: runqueue_t where
  "rq_zero = \<lparr>rq_lock = 0, rq_current = 0, rq_idle_thread = 0, nr_running = 0, nr_switches = 0, rq_bitmap = 0\<rparr>"

definition demo_sched :: sched_state where
  "demo_sched =
     \<lparr>g_zones = replicate 3 zone_zero, g_total_pages = 0, g_free_pages = 0, mem = (\<lambda>_. 0),
      g_kernel_pgd = 0, g_paging_enabled = 0, tlb = (\<lambda>_. None), cr0 = 0, cr3 = 0, cr4 = 0, msr_efer = 0,
      g_caches = [], g_cache_count = 0, slabs = (\<lambda>_. demo_header),
      g_channels = replicate 1024 0, g_channel_counter = 0, ipc_channels = (\<lambda>_. demo_channel),
      ipc_nodes = (\<lambda>_. node_zero), g_runqueues = replicate 256 rq_zero, g_cpu_count = 0,
      g_thread_counter = 0, threads = (\<lambda>_. thread_zero\<lparr>t_state := THREAD_STATE_BLOCKED, t_priority := PRIORITY_NORMAL\<rparr>),
      run_links = (\<lambda>n. (n, n)), sched_events = []\<rparr>"

lemma demo_api: "sched_api demo_env linked"
  unfolding demo_env_def by (rule linked_lists.sched_api_axioms)

lemma demo_calloc: "calloc_more calloc_none"
  by (simp add: calloc_more_def calloc_none_def)

lemma demo_sched_links: "linked (run_links demo_sched) Map.empty" "length (g_runqueues demo_sched) = 256"
  "e_thread_size demo_env \<le> MAX_OBJECT_SIZE" "0 < e_cpu_count demo_env"
  by (simp_all add: linked_def queues_ok_def demo_sched_def demo_env_def linked_env_def MAX_OBJECT_SIZE_def PAGE_SIZE_def)

lemma demo_init:
  obtains s :: sched_state where "sched_inv demo_env linked (\<lambda>_. []) s" "threads s = threads demo_sched"
proof -
  obtain s :: sched_state where s: "sched_inv demo_env linked (\<lambda>_. []) s"
    using sched_api.scheduler_init_run [OF demo_api demo_calloc demo_sched_links(3,4,2,1)] by blast
  have "sched_inv demo_env linked (\<lambda>_. []) (s\<lparr>threads := threads demo_sched\<rparr>)" using s by (simp add: sched_inv_def get_rq_def)
  then show ?thesis using that by simp
qed

text \<open>Initialising the scheduler returns with at most 256 processors counted and the run queue of the boot processor empty and
  consistent, whether or not the idle threads could be allocated.\<close>

theorem scheduler_init_correct:
  assumes "sched_api E repr" and "calloc_more calloc" and "e_thread_size E \<le> MAX_OBJECT_SIZE" and "0 < e_cpu_count E"
    and "length (g_runqueues s) = 256" and "repr (run_links s) Map.empty"
  shows "\<exists>s'. scheduler_init calloc E s = Some s' \<and> sched_inv E repr (\<lambda>_. []) s' \<and> g_cpu_count s' = min (e_cpu_count E) 256"
  by (rule sched_api.scheduler_init_run [OF assms])

theorem scheduler_init_correct_witness:
  "\<exists>s'. scheduler_init calloc_none demo_env demo_sched = Some s' \<and> sched_inv demo_env linked (\<lambda>_. []) s'"
  using scheduler_init_correct [OF demo_api demo_calloc demo_sched_links(3,4,2,1)] by blast

section \<open>Choosing the next thread\<close>

text \<open>C6: The constant-time choice over the bitmap is the reference choice: \<open>schedule\<close> makes the first thread of the highest
  non-empty priority current, or the idle thread when none is queued. It counts and performs a switch exactly when that thread is
  not running already, leaves the queues alone, and releases the lock.\<close>

theorem schedule_highest:
  assumes "sched_api E repr" and "sched_inv E repr q s"
    and "n = first_from 5 q (rq_idle_thread (get_rq 0 s))" and "c = rq_current (get_rq 0 s)"
  shows "\<exists>s'. schedule E s = Some s' \<and> sched_inv E repr q s' \<and> rq_current (get_rq 0 s') = n \<and> threads s' = threads s \<and>
    rq_idle_thread (get_rq 0 s') = rq_idle_thread (get_rq 0 s) \<and>
    nr_switches (get_rq 0 s') = nr_switches (get_rq 0 s) + (if c = n then 0 else 1) \<and>
    sched_events s' = sched_events s @ (if c = n then [] else [Switch_to c n])"
  by (rule sched_api.schedule_run [OF assms])

theorem schedule_highest_witness:
  "\<exists>s s' :: sched_state. schedule demo_env s = Some s' \<and> sched_inv demo_env linked (\<lambda>_. []) s' \<and>
     rq_current (get_rq 0 s') = rq_idle_thread (get_rq 0 s)"
proof -
  obtain s :: sched_state where s: "sched_inv demo_env linked (\<lambda>_. []) s" using demo_init by blast
  from schedule_highest [OF demo_api s refl refl] show ?thesis by (auto simp: first_from_none)
qed

section \<open>Blocking and waking\<close>

lemma set_thread_state_inv:
  assumes "sched_inv E repr q s"
  shows "sched_inv E repr q (set_thread t ((threads s t)\<lparr>t_state := x\<rparr>) s)"
  using assms by (simp add: sched_inv_def set_thread_def get_rq_def)

text \<open>C33: Blocking a queued thread marks it, takes it out of the queue of its priority, keeps every other thread queued in order,
  and makes the best remaining thread current.\<close>

theorem sched_block_correct:
  assumes "sched_api E repr" and "sched_inv E repr q s" and "p = priority_value (t_priority (threads s t))" and "t \<in> set (q p)"
  shows "\<exists>s'. sched_block E t s = Some s' \<and> sched_inv E repr (q(p := remove1 t (q p))) s' \<and>
    threads s' = (threads s)(t := (threads s t)\<lparr>t_state := THREAD_STATE_BLOCKED\<rparr>) \<and>
    rq_current (get_rq 0 s') = first_from 5 (q(p := remove1 t (q p))) (rq_idle_thread (get_rq 0 s))"
proof -
  let ?s = "set_thread t ((threads s t)\<lparr>t_state := THREAD_STATE_BLOCKED\<rparr>) s"
  have i: "sched_inv E repr q ?s" by (rule set_thread_state_inv [OF assms(2)])
  have p: "p = priority_value (t_priority (threads ?s t))" using assms(3) by (simp add: set_thread_def)
  obtain s1 where d: "sched_dequeue E t ?s = Some s1" "sched_inv E repr (q(p := remove1 t (q p))) s1" "threads s1 = threads ?s"
      "rq_idle_thread (get_rq 0 s1) = rq_idle_thread (get_rq 0 ?s)"
    using sched_api.dequeue_run [OF assms(1) i p assms(4)] by blast
  obtain s2 where e: "schedule E s1 = Some s2" "sched_inv E repr (q(p := remove1 t (q p))) s2" "threads s2 = threads s1"
      "rq_current (get_rq 0 s2) = first_from 5 (q(p := remove1 t (q p))) (rq_idle_thread (get_rq 0 s1))"
    using sched_api.schedule_run [OF assms(1) d(2) refl refl] by blast
  have "p < 5" by (simp add: assms(3))
  then have "t \<noteq> 0" using assms(2,4) unfolding sched_inv_def by blast
  then show ?thesis using d e by (simp add: sched_block_def set_thread_def get_rq_def)
qed

text \<open>Waking a blocked thread makes it ready and puts it behind the queued threads of its priority; a thread that is not
  blocked is left alone.\<close>

theorem sched_wakeup_correct:
  assumes "sched_api E repr" and "sched_inv E repr q s" and "t \<noteq> 0" and "t \<notin> queued q"
    and "p = priority_value (t_priority (threads s t))"
  shows "if t_state (threads s t) = THREAD_STATE_BLOCKED
    then \<exists>s'. sched_wakeup E t s = Some s' \<and> sched_inv E repr (q(p := q p @ [t])) s' \<and>
      threads s' = (threads s)(t := (threads s t)\<lparr>t_state := THREAD_STATE_READY\<rparr>) \<and>
      rq_current (get_rq 0 s') = rq_current (get_rq 0 s)
    else sched_wakeup E t s = Some s"
proof -
  let ?s = "set_thread t ((threads s t)\<lparr>t_state := THREAD_STATE_READY\<rparr>) s"
  have i: "sched_inv E repr q ?s" by (rule set_thread_state_inv [OF assms(2)])
  have p: "p = priority_value (t_priority (threads ?s t))" "t_state (threads ?s t) = THREAD_STATE_READY"
    using assms(5) by (simp_all add: set_thread_def)
  obtain s1 where d: "sched_enqueue E t ?s = Some s1" "sched_inv E repr (q(p := q p @ [t])) s1" "threads s1 = threads ?s"
      "rq_current (get_rq 0 s1) = rq_current (get_rq 0 ?s)"
    using sched_api.enqueue_run [OF assms(1) i assms(3) p(2) assms(4) p(1)] by blast
  then show ?thesis using assms(3) by (simp add: sched_wakeup_def set_thread_def get_rq_def)
qed

theorem sched_wakeup_correct_witness:
  "\<exists>s s' :: sched_state. sched_wakeup demo_env 0x800000 s = Some s' \<and> sched_inv demo_env linked ((\<lambda>_. [])(2 := [0x800000])) s'"
proof -
  obtain s :: sched_state where s: "sched_inv demo_env linked (\<lambda>_. []) s" "threads s = threads demo_sched"
    using demo_init by blast
  have t: "2 = priority_value (t_priority (threads s 0x800000))" "t_state (threads s 0x800000) = THREAD_STATE_BLOCKED"
    by (simp_all add: s demo_sched_def)
  have "0x800000 \<notin> queued (\<lambda>_. [])" "(0x800000 :: ptr) \<noteq> 0" by (simp_all add: queued_def)
  from sched_wakeup_correct [OF demo_api s(1) this(2,1) t(1)] t(2) obtain s' where
      "sched_wakeup demo_env 0x800000 s = Some s'" "sched_inv demo_env linked ((\<lambda>_. [])(2 := [] @ [0x800000])) s'"
    by (simp only: simp_thms if_True) blast
  then show ?thesis by auto
qed

lemma demo_queued:
  obtains u :: sched_state where "sched_inv demo_env linked ((\<lambda>_. [])(2 := [0x800000])) u"
    "priority_value (t_priority (threads u 0x800000)) = 2" "t_time_slice (threads u 0x800000) = 0"
proof -
  obtain s :: sched_state where s: "sched_inv demo_env linked (\<lambda>_. []) s" "threads s = threads demo_sched"
    using demo_init by blast
  define u where "u = set_thread 0x800000 ((threads s 0x800000)\<lparr>t_state := THREAD_STATE_READY\<rparr>) s"
  have i: "sched_inv demo_env linked (\<lambda>_. []) u" unfolding u_def by (rule set_thread_state_inv [OF s(1)])
  have t: "2 = priority_value (t_priority (threads u 0x800000))" "t_state (threads u 0x800000) = THREAD_STATE_READY"
    "t_time_slice (threads u 0x800000) = 0"
    by (simp_all add: u_def set_thread_def s demo_sched_def thread_zero_def)
  have "0x800000 \<notin> queued (\<lambda>_. [])" "(0x800000 :: ptr) \<noteq> 0" by (simp_all add: queued_def)
  from sched_api.enqueue_run [OF demo_api i this(2) t(2) this(1) t(1)]
  obtain u' :: sched_state where "sched_inv demo_env linked ((\<lambda>_. [])(2 := [] @ [0x800000])) u'" "threads u' = threads u" by blast
  then show ?thesis using that t by simp
qed

theorem sched_block_correct_witness:
  "\<exists>s s' :: sched_state. sched_block demo_env 0x800000 s = Some s' \<and> sched_inv demo_env linked (\<lambda>_. []) s'"
proof -
  define q where "q = (\<lambda>_ :: nat. [])(2 := [0x800000 :: ptr])"
  obtain u :: sched_state where u: "sched_inv demo_env linked q u" "priority_value (t_priority (threads u 0x800000)) = 2"
    using demo_queued unfolding q_def by blast
  have q: "0x800000 \<in> set (q 2)" "q(2 := remove1 0x800000 (q 2)) = (\<lambda>_. [])" by (auto simp: q_def)
  from sched_block_correct [OF demo_api u(1) u(2) [symmetric] q(1)] show ?thesis unfolding q(2) by blast
qed

section \<open>The timer\<close>

text \<open>\<open>schedule\<close> leaves the thread it picks in its queue, so the thread whose slice ends is still linked.\<close>

lemma schedule_unlocked:
  assumes "sched_api E repr" "length (g_runqueues s) = 256" "rq_lock (get_rq 0 s) = e_unlocked E"
  shows "\<exists>s'. schedule E s = Some s' \<and> run_links s' = run_links s \<and> nr_running (get_rq 0 s') = nr_running (get_rq 0 s)"
proof -
  obtain k where "lock_rq E 0 s = Some (set_rq 0 ((get_rq 0 s)\<lparr>rq_lock := k\<rparr>) s)"
    using sched_api.lock_run [OF assms] by blast
  then show ?thesis using assms(2) by (auto simp: schedule_def Let_def unlock_rq_def set_rq_def get_rq_def)
qed

lemma linked_first_last:
  assumes "seg l h (map Run (t # ts)) h"
  shows "fst (l h) = Run t" "snd (l h) = last (Run t # map Run ts)"
  using seg_ends [OF assms] assms by simp_all

lemma relink_first:
  assumes s: "seg l (Head c p) (map Run (t # ts)) (Head c p)" and d: "distinct (t # ts)"
  shows "fst (ll_add_tail (Run t) (Head c p) l (Head c p)) = Run t"
    "fst (ll_add_tail (Run t) (Head c p) l (Run t)) = (if ts = [] then Run t else Head c p)"
proof -
  have "last (Run t # map Run ts) = Run t \<longleftrightarrow> ts = []"
  proof (cases ts rule: rev_cases)
    case (snoc us u)
    then show ?thesis using d by auto
  qed simp
  then show "fst (ll_add_tail (Run t) (Head c p) l (Head c p)) = Run t"
    "fst (ll_add_tail (Run t) (Head c p) l (Run t)) = (if ts = [] then Run t else Head c p)"
    using linked_first_last [OF s] by (cases ts rule: rev_cases; simp add: ll_add_tail_def ll_add_def)+
qed

text \<open>C34: When the time slice of the running thread ends, the tick links the thread again although it is still first in its queue.
  On circular doubly linked lists the queue is broken: a thread that was alone is its own successor, so that a walk over the queue
  never ends, and otherwise the head of the queue follows it, so that all other threads of the priority are lost; the thread is
  counted twice.\<close>

theorem sched_tick_relinks:
  assumes "E = linked_env sz idle cpus" and "sched_inv E linked q s" and "rq_current (get_rq 0 s) = t"
    and "p = priority_value (t_priority (threads s t))" and "q p = t # ts"
    and "t \<noteq> rq_idle_thread (get_rq 0 s)" and "t_time_slice (threads s t) \<le> 1"
  shows "\<exists>s'. sched_tick E s = Some s' \<and> fst (run_links s' (Head 0 p)) = Run t \<and>
    fst (run_links s' (Run t)) = (if ts = [] then Run t else Head 0 p) \<and>
    nr_running (get_rq 0 s') = nr_running (get_rq 0 s) + 1"
proof -
  have api: "sched_api E linked" unfolding assms(1) by (rule linked_lists.sched_api_axioms)
  have p5: "p < 5" by (simp add: assms(4))
  have "t \<in> set (q p)" by (simp add: assms(5))
  then have t0: "t \<noteq> 0" using assms(2) p5 unfolding sched_inv_def by blast
  have len: "length (g_runqueues s) = 256" "rq_lock (get_rq 0 s) = 0" using assms(1,2) by (auto simp: sched_inv_def linked_env_def)
  obtain Q where Q: "linked (run_links s) Q" "Q (Head 0 p) = Some (t # ts)"
    using assms(2,5) p5 unfolding sched_inv_def by metis
  have sg: "seg (run_links s) (Head 0 p) (map Run (t # ts)) (Head 0 p)" "distinct (t # ts)"
    using Q unfolding linked_def queues_ok_def by blast+
  define th where "th = (threads s t)\<lparr>t_state := THREAD_STATE_READY, t_time_slice := TIME_SLICE_MS\<rparr>"
  define s1 where "s1 = set_thread t th s"
  define s2 where "s2 = (set_rq 0 ((get_rq 0 s)\<lparr>rq_bitmap := rq_bitmap (get_rq 0 s) OR 2 ^ p,
    nr_running := nr_running (get_rq 0 s) + 1\<rparr>) s1)\<lparr>run_links := ll_add_tail (Run t) (Head 0 p) (run_links s)\<rparr>"
  have e: "sched_enqueue E t s1 = Some s2"
    using t0 len assms(1,4) by (simp add: sched_enqueue_def s1_def s2_def th_def set_thread_def lock_rq_def unlock_rq_def
      linked_env_def queue_of_thread_def Let_def get_rq_def set_rq_def lock_id)
  have u: "length (g_runqueues s2) = 256" "rq_lock (get_rq 0 s2) = e_unlocked E" "nr_running (get_rq 0 s2) = nr_running (get_rq 0 s) + 1"
    using len assms(1) by (simp_all add: s2_def s1_def get_rq_def set_rq_def set_thread_def linked_env_def)
  obtain s3 where s3: "schedule E s2 = Some s3" "run_links s3 = run_links s2" "nr_running (get_rq 0 s3) = nr_running (get_rq 0 s2)"
    using schedule_unlocked [OF api u(1,2)] by blast
  have "sched_tick E s = Some s3"
    using t0 assms(3,6,7) e s3(1) by (simp add: sched_tick_def Let_def s1_def th_def set_thread_def)
  then show ?thesis using s3 u(3) relink_first [OF sg] by (simp add: s2_def)
qed

theorem sched_tick_relinks_witness:
  "\<exists>s s' :: sched_state. sched_tick demo_env s = Some s' \<and> fst (run_links s' (Run 0x800000)) = Run 0x800000"
proof -
  define q where "q = (\<lambda>_ :: nat. [])(2 := [0x800000 :: ptr])"
  obtain u :: sched_state where u: "sched_inv demo_env linked q u" "priority_value (t_priority (threads u 0x800000)) = 2"
      "t_time_slice (threads u 0x800000) = 0"
    using demo_queued unfolding q_def by blast
  define s where "s = set_rq 0 ((get_rq 0 u)\<lparr>rq_current := 0x800000, rq_idle_thread := 0x900000\<rparr>) u"
  have l: "length (g_runqueues u) = 256" "rq_lock (get_rq 0 u) = e_unlocked demo_env" using u(1) by (auto simp: sched_inv_def)
  have i: "sched_inv demo_env linked q s" unfolding s_def by (rule sched_api.inv_rq [OF demo_api u(1)]) (simp_all add: l)
  have "rq_current (get_rq 0 s) = 0x800000" "2 = priority_value (t_priority (threads s 0x800000))" "q 2 = 0x800000 # []"
    "0x800000 \<noteq> rq_idle_thread (get_rq 0 s)" "t_time_slice (threads s 0x800000) \<le> 1"
    using l u(2,3) by (simp_all add: s_def q_def)
  from sched_tick_relinks [OF demo_env_def i this] show ?thesis by auto
qed

end
