(* ===== verification/CK_Bss.thy ===== *)
theory CK_Bss
  imports CK_Main CK_Sched_Props
begin

text \<open>
  The state of the kernel when the loader enters it: all global variables are zero. It is the state
  of the witnesses of the components above the scheduler. Also the device that is always ready.
\<close>

unbundle bit_operations_syntax

definition fs_zero :: vfs_filesystem_t where
  "fs_zero = \<lparr>fs_name = [], fs_magic = 0, fs_mount = 0, fs_umount = 0, fs_statfs = 0, fs_fops = 0, fs_next = 0\<rparr>"

definition inode_zero :: vfs_inode_t where
  "inode_zero =
     \<lparr>i_ino = 0, i_mode = 0, i_uid = 0, i_gid = 0, i_size = 0, i_atime = 0, i_mtime = 0, i_ctime = 0, i_nlink = 0,
      i_type = 0, i_private_data = 0, i_fops = 0, i_refcount = 0\<rparr>"

definition fops_zero :: file_operations_t where
  "fops_zero =
     \<lparr>f_open = 0, f_close = 0, f_read = 0, f_write = 0, f_seek = 0, f_stat = 0, f_readdir = 0, f_mkdir = 0, f_unlink = 0\<rparr>"

definition dump_zero :: crash_dump_t where
  "dump_zero =
     \<lparr>cd_magic = 0, cd_version = 0, cd_timestamp = 0, cd_panic_cpu = 0, cd_cr0 = 0, cd_cr2 = 0, cd_cr3 = 0, cd_cr4 = 0,
      cd_rax = 0, cd_rbx = 0, cd_rcx = 0, cd_rdx = 0, cd_rsi = 0, cd_rdi = 0, cd_rbp = 0, cd_rsp = 0,
      cd_r8 = 0, cd_r9 = 0, cd_r10 = 0, cd_r11 = 0, cd_r12 = 0, cd_r13 = 0, cd_r14 = 0, cd_r15 = 0,
      cd_rip = 0, cd_cs = 0, cd_rflags = 0, cd_error_code = 0, cd_message = []\<rparr>"

definition bss :: "memory \<Rightarrow> kernel_state" where
  "bss m =
     \<lparr>g_zones = replicate 3 zone_zero, g_total_pages = 0, g_free_pages = 0, mem = m,
      g_kernel_pgd = 0, g_paging_enabled = 0, tlb = (\<lambda>_. None), cr0 = 0, cr3 = 0, cr4 = 0, msr_efer = 0,
      g_caches = [], g_cache_count = 0, slabs = (\<lambda>_. demo_header),
      g_channels = replicate 1024 0, g_channel_counter = 0, ipc_channels = (\<lambda>_. channel_zero), ipc_nodes = (\<lambda>_. node_zero),
      g_runqueues = replicate 256 rq_zero, g_cpu_count = 0, g_thread_counter = 0, threads = (\<lambda>_. thread_zero),
      run_links = (\<lambda>n. (n, n)), sched_events = [], serial_polls = 0, serial_out = [],
      g_filesystems = 0, g_mount_points = replicate 64 mount_zero, g_open_files = replicate 4096 file_zero, g_next_fd = 0,
      filesystems = (\<lambda>_. fs_zero), inodes = (\<lambda>_. inode_zero), file_ops = (\<lambda>_. fops_zero),
      g_syscall_table = replicate 512 None, g_syscall_names = replicate 512 None, msrs = (\<lambda>_. 0),
      g_idt = replicate 256 idt_zero, g_idt_ptr = \<lparr>idt_limit = 0, idt_base = 0\<rparr>, g_isr_handlers = replicate 32 0,
      idtr = None, port_writes = [], interrupt_flag = False, cpu_halted = False,
      g_crash_dump = dump_zero, g_in_panic = 0, g_memory_map = 0, g_memory_map_size = 0, g_descriptor_size = 0\<rparr>"

definition ready_uart :: uart where
  "ready_uart = (\<lambda>_. 0x20)"

lemma ready_uart_live: "uart_live ready_uart"
  by (auto simp: uart_live_def ready_uart_def)

text \<open>Printing changes the console only.\<close>

lemma outputs_fields:
  assumes "outputs cs s s'"
  shows "serial_state.more s' = serial_state.more s" "sched_state.truncate s' = sched_state.truncate s"
    "serial_out s' = serial_out s @ cs"
  using assms by (auto simp: outputs_def sched_state.truncate_def)

end
