(* ===== verification/CK_Vfs_Props.thy ===== *)
theory CK_Vfs_Props
  imports CK_Bss
begin

text \<open>
  The properties of the VFS: the registered filesystems are a list, mounting and unmounting are
  inverse, and how file descriptors are given out.
\<close>

unbundle bit_operations_syntax

section \<open>Filesystems\<close>

fun fs_path :: "(ptr \<Rightarrow> vfs_filesystem_t) \<Rightarrow> ptr \<Rightarrow> ptr list \<Rightarrow> bool" where
  "fs_path h p [] \<longleftrightarrow> p = 0"
| "fs_path h p (q # qs) \<longleftrightarrow> p = q \<and> q \<noteq> 0 \<and> fs_path h (fs_next (h q)) qs"

definition fs_list :: "'a vfs_state_scheme \<Rightarrow> ptr list \<Rightarrow> bool" where
  "fs_list s ps \<longleftrightarrow> fs_path (filesystems s) (g_filesystems s) ps \<and> distinct ps"

abbreviation named :: "'a vfs_state_scheme \<Rightarrow> string \<Rightarrow> ptr \<Rightarrow> bool" where
  "named s name p \<equiv> strncmp_eq 32 (fs_name (filesystems s p)) name"

lemma fs_path_cong: "fs_path h p qs \<Longrightarrow> (\<And>q. q \<in> set qs \<Longrightarrow> fs_next (h' q) = fs_next (h q)) \<Longrightarrow> fs_path h' p qs"
  by (induction qs arbitrary: p) auto


lemma fs_path_nonzero: "fs_path h p qs \<Longrightarrow> q \<in> set qs \<Longrightarrow> q \<noteq> 0"
  by (induction qs arbitrary: p) auto

lemma first_named: "find P ps = Some p \<Longrightarrow> \<exists>xs ys. ps = xs @ p # ys \<and> (\<forall>x \<in> set xs. \<not> P x) \<and> P p"
proof (induction ps)
  case (Cons a ps)
  show ?case
  proof (cases "P a")
    case True
    then show ?thesis using Cons.prems by (intro exI [of _ "[]"] exI [of _ ps]) simp
  next
    case False
    then obtain xs ys where "ps = xs @ p # ys" "\<forall>x \<in> set xs. \<not> P x" "P p" using Cons by auto
    then show ?thesis using False by (intro exI [of _ "a # xs"] exI [of _ ys]) simp
  qed
qed simp

lemma walk_none:
  "fs_path h cur ps \<Longrightarrow> \<forall>p \<in> set ps. \<not> strncmp_eq 32 (fs_name (h p)) name \<Longrightarrow>
   walk_filesystems h name prev cur = Some (0, last (prev # ps))"
proof (induction ps arbitrary: prev cur)
  case Nil
  then show ?case by (subst walk_filesystems.simps) simp
next
  case (Cons p ps)
  then show ?case by (subst walk_filesystems.simps) simp
qed

lemma walk_first:
  "fs_path h cur (xs @ p # ys) \<Longrightarrow> \<forall>x \<in> set xs. \<not> strncmp_eq 32 (fs_name (h x)) name \<Longrightarrow>
   strncmp_eq 32 (fs_name (h p)) name \<Longrightarrow> walk_filesystems h name prev cur = Some (p, last (prev # xs))"
proof (induction xs arbitrary: prev cur)
  case Nil
  then show ?case by (subst walk_filesystems.simps) simp
next
  case (Cons x xs)
  then show ?case by (subst walk_filesystems.simps) simp
qed

lemma find_filesystem_list:
  assumes "fs_list s ps"
  shows "find_filesystem name s = Some (case find (named s name) ps of Some p \<Rightarrow> p | None \<Rightarrow> 0)"
proof -
  have p: "fs_path (filesystems s) (g_filesystems s) ps" using assms by (simp add: fs_list_def)
  show ?thesis
  proof (cases "find (named s name) ps")
    case None
    then have n: "\<forall>p \<in> set ps. \<not> named s name p" by (simp add: find_None_iff)
    show ?thesis using walk_none [OF p n] None by (simp add: find_filesystem_def)
  next
    case (Some q)
    from first_named [OF Some] obtain xs ys where "ps = xs @ q # ys" "\<forall>x \<in> set xs. \<not> named s name x" "named s name q" by blast
    then show ?thesis using walk_first [of _ _ xs q ys] p Some by (simp add: find_filesystem_def)
  qed
qed

lemma fs_path_skip:
  assumes "fs_path h p (xs @ q # ys)" "distinct (xs @ q # ys)" "xs \<noteq> []"
  shows "fs_path (h(last xs := (h (last xs))\<lparr>fs_next := fs_next (h q)\<rparr>)) p (xs @ ys)"
  using assms
proof (induction xs arbitrary: p)
  case (Cons x xs)
  show ?case
  proof (cases "xs = []")
    case True
    have "fs_path h (fs_next (h q)) ys" using Cons.prems(1) True by simp
    then have "fs_path (h(x := (h x)\<lparr>fs_next := fs_next (h q)\<rparr>)) (fs_next (h q)) ys"
      using Cons.prems(2) by (elim fs_path_cong) auto
    then show ?thesis using Cons.prems(1) True by (simp add: fun_upd_def)
  next
    case False
    then have "x \<noteq> last xs" using Cons.prems(2) by (metis Un_iff distinct.simps(2) last_in_set set_append append_Cons)
    then show ?thesis using Cons False by simp
  qed
qed simp

lemma vfs_unregister_list:
  assumes "fs_list s ps"
  shows "case find (named s name) ps of
     None \<Rightarrow> vfs_unregister_filesystem name s = Some (CK_ERROR_NOT_FOUND, s)
   | Some p \<Rightarrow> \<exists>s'. vfs_unregister_filesystem name s = Some (CK_SUCCESS, s') \<and> fs_list s' (remove1 p ps)"
proof -
  have p: "fs_path (filesystems s) (g_filesystems s) ps" "distinct ps" using assms by (auto simp: fs_list_def)
  show ?thesis
  proof (cases "find (named s name) ps")
    case None
    then have n: "\<forall>p \<in> set ps. \<not> named s name p" by (simp add: find_None_iff)
    show ?thesis using walk_none [OF p(1) n] None by (simp add: vfs_unregister_filesystem_def)
  next
    case (Some q)
    then obtain xs ys where q: "ps = xs @ q # ys" "\<forall>x \<in> set xs. \<not> named s name x" "named s name q" using first_named [OF Some] by blast
    then have w: "walk_filesystems (filesystems s) name 0 (g_filesystems s) = Some (q, last (0 # xs))"
      using walk_first [of "filesystems s" "g_filesystems s" xs q ys] p(1) by simp
    have nz: "q \<noteq> 0" "xs \<noteq> [] \<Longrightarrow> last xs \<noteq> 0" using fs_path_nonzero [OF p(1)] q(1) last_in_set [of xs] by auto
    have r: "remove1 q ps = xs @ ys" using p(2) q(1) by (simp add: remove1_append)
    show ?thesis
    proof (cases "xs = []")
      case True
      then show ?thesis using w q nz(1) r p Some by (simp add: vfs_unregister_filesystem_def fs_list_def)
    next
      case False
      from fs_path_skip [of _ _ xs q ys] p q(1) False
      have "fs_path ((filesystems s)(last xs := (filesystems s (last xs))\<lparr>fs_next := fs_next (filesystems s q)\<rparr>)) (g_filesystems s) (xs @ ys)"
        by blast
      then show ?thesis using w q nz False r p(2) Some
        by (simp add: vfs_unregister_filesystem_def fs_list_def set_fs_def)
    qed
  qed
qed

lemma vfs_register_list:
  assumes "fs_list s ps" "uart_live D" "fs \<noteq> 0" "fs \<notin> set ps" "cstr (fs_name (filesystems s fs)) \<noteq> []"
  shows "\<exists>s'. vfs_register_filesystem D fs s = Some (CK_SUCCESS, s') \<and> fs_list s' (fs # ps) \<and>
    (\<forall>p. fs_name (filesystems s' p) = fs_name (filesystems s p))"
proof -
  define s2 where "s2 = (set_fs fs ((filesystems s fs)\<lparr>fs_next := g_filesystems s\<rparr>) s)\<lparr>g_filesystems := fs\<rparr>"
  obtain s3 where 3: "serial_print D ''[-] Registered filesystem: '' s2 = Some s3" "\<exists>cs. outputs cs s2 s3"
    using serial_print_run [OF assms(2)] by blast
  obtain s4 where 4: "serial_println D (fs_name (filesystems s3 fs)) s3 = Some s4" "\<exists>cs. outputs cs s3 s4"
    using serial_println_run [OF assms(2)] by blast
  have "g_filesystems s4 = g_filesystems s2" "filesystems s4 = filesystems s2" using 3(2) 4(2) by (auto simp: outputs_def)
  moreover have "fs_path ((filesystems s)(fs := (filesystems s fs)\<lparr>fs_next := g_filesystems s\<rparr>)) (g_filesystems s) ps"
    using assms(1,4) unfolding fs_list_def by (elim conjE fs_path_cong) auto
  ultimately have "fs_list s4 (fs # ps)" "\<forall>p. fs_name (filesystems s4 p) = fs_name (filesystems s p)"
    using assms(1,3,4) by (auto simp: fs_list_def s2_def set_fs_def)
  then show ?thesis using 3(1) 4(1) assms(3,5) by (simp add: vfs_register_filesystem_def Let_def s2_def)
qed

text \<open>C11: The registered filesystems are a list: registering puts a new filesystem in front, looking up a name gives the first of
  the list with that name in its first 32 characters, and unregistering removes exactly that one, or reports that there is none.\<close>

theorem vfs_filesystems_list:
  assumes "fs_list s ps" and "uart_live D"
  shows "find_filesystem name s = Some (case find (named s name) ps of Some p \<Rightarrow> p | None \<Rightarrow> 0) \<and>
    (case find (named s name) ps of
       None \<Rightarrow> vfs_unregister_filesystem name s = Some (CK_ERROR_NOT_FOUND, s)
     | Some p \<Rightarrow> \<exists>s'. vfs_unregister_filesystem name s = Some (CK_SUCCESS, s') \<and> fs_list s' (remove1 p ps)) \<and>
    (fs \<noteq> 0 \<longrightarrow> fs \<notin> set ps \<longrightarrow> cstr (fs_name (filesystems s fs)) \<noteq> [] \<longrightarrow>
       (\<exists>s'. vfs_register_filesystem D fs s = Some (CK_SUCCESS, s') \<and> fs_list s' (fs # ps)))"
  using find_filesystem_list [OF assms(1)] vfs_unregister_list [OF assms(1)] vfs_register_list [OF assms] by blast

theorem vfs_filesystems_list_witness:
  "\<exists>s'. vfs_register_filesystem ready_uart 0x5000 ((bss (\<lambda>_. 0))\<lparr>filesystems := (\<lambda>_. fs_zero\<lparr>fs_name := ''ext4''\<rparr>)\<rparr>) = Some (CK_SUCCESS, s') \<and>
     fs_list s' [0x5000]"
proof -
  have "fs_list ((bss (\<lambda>_. 0))\<lparr>filesystems := (\<lambda>_. fs_zero\<lparr>fs_name := ''ext4''\<rparr>)\<rparr>) []" by (simp add: fs_list_def bss_def)
  from vfs_filesystems_list [OF this ready_uart_live, where fs = "0x5000"] show ?thesis
    by (simp add: fs_zero_def cstr_def NUL_def)
qed

text \<open>Registering a filesystem that is in front already makes it its own successor.\<close>

lemma walk_never_ends:
  assumes "fs_next (h p) = p" "p \<noteq> 0" "\<not> strncmp_eq 32 (fs_name (h p)) name"
  shows "walk_filesystems h name prev p = None"
proof -
  define P where "P = (\<lambda>h' name' (q :: ptr) c (r :: ptr \<times> ptr). \<not> (h' = h \<and> name' = name \<and> c = p))"
  have "P h name q p r" if "walk_filesystems h name q p = Some r" for q r
    using _ that by (rule walk_filesystems.raw_induct) (auto simp: P_def assms split: if_splits, blast)
  then show ?thesis by (cases "walk_filesystems h name prev p") (auto simp: P_def)
qed

text \<open>Registering a filesystem a second time while it is in front of the list makes the list circular: looking up, mounting or
  unregistering any other name then never ends.\<close>

theorem vfs_register_twice_loops:
  assumes "uart_live D" and "fs_list s (fs # ps)" and "cstr (fs_name (filesystems s fs)) \<noteq> []"
    and "\<not> named s name fs"
  shows "\<exists>s'. vfs_register_filesystem D fs s = Some (CK_SUCCESS, s') \<and> find_filesystem name s' = None \<and>
    vfs_unregister_filesystem name s' = None \<and> vfs_mount D X source target name flags s' = None"
proof -
  define s2 where "s2 = (set_fs fs ((filesystems s fs)\<lparr>fs_next := g_filesystems s\<rparr>) s)\<lparr>g_filesystems := fs\<rparr>"
  obtain s3 where 3: "serial_print D ''[-] Registered filesystem: '' s2 = Some s3" "\<exists>cs. outputs cs s2 s3"
    using serial_print_run [OF assms(1)] by blast
  obtain s4 where 4: "serial_println D (fs_name (filesystems s3 fs)) s3 = Some s4" "\<exists>cs. outputs cs s3 s4"
    using serial_println_run [OF assms(1)] by blast
  have g: "g_filesystems s = fs" "fs \<noteq> 0" using assms(2) by (auto simp: fs_list_def)
  have f: "g_filesystems s4 = fs" "filesystems s4 = (filesystems s)(fs := (filesystems s fs)\<lparr>fs_next := fs\<rparr>)"
    using 3(2) 4(2) g by (auto simp: outputs_def s2_def set_fs_def)
  have "walk_filesystems (filesystems s4) name 0 fs = None"
    using g(2) assms(4) unfolding f by (intro walk_never_ends) auto
  then have "find_filesystem name s4 = None" "vfs_unregister_filesystem name s4 = None"
    by (simp_all add: find_filesystem_def vfs_unregister_filesystem_def f(1))
  moreover have "vfs_register_filesystem D fs s = Some (CK_SUCCESS, s4)"
    using 3(1) 4(1) g(2) assms(3) by (simp add: vfs_register_filesystem_def Let_def s2_def)
  ultimately show ?thesis by (simp add: vfs_mount_def)
qed

theorem vfs_register_twice_loops_witness:
  "\<exists>s'. vfs_register_filesystem ready_uart 0x5000
      ((bss (\<lambda>_. 0))\<lparr>filesystems := (\<lambda>_. fs_zero\<lparr>fs_name := ''ext4''\<rparr>), g_filesystems := 0x5000\<rparr>) = Some (CK_SUCCESS, s') \<and>
    find_filesystem ''tmpfs'' s' = None"
proof -
  let ?s = "(bss (\<lambda>_. 0))\<lparr>filesystems := (\<lambda>_. fs_zero\<lparr>fs_name := ''ext4''\<rparr>), g_filesystems := 0x5000\<rparr>"
  have "fs_list ?s [0x5000]" by (simp add: fs_list_def fs_zero_def)
  moreover have "cstr (fs_name (filesystems ?s 0x5000)) \<noteq> []" "\<not> named ?s ''tmpfs'' 0x5000"
    by (simp_all add: strncmp_eq_def cstr_def NUL_def)
  ultimately show ?thesis using vfs_register_twice_loops [OF ready_uart_live] by blast
qed

section \<open>Mount points\<close>

text \<open>What the functions of a filesystem are assumed to do: whatever they return, of the mount table they write at most
  \<open>root_inode\<close> and \<open>private_data\<close> of the mount point they are given.\<close>

definition fs_local :: "'a vfs_state_scheme vfs_ext \<Rightarrow> bool" where
  "fs_local X \<longleftrightarrow>
     (\<forall>p i src fl s. \<exists>r q. g_mount_points (snd (x_mount X p i src fl s)) =
        (g_mount_points s)[i := (g_mount_points s ! i)\<lparr>m_root_inode := r, m_private_data := q\<rparr>]) \<and>
     (\<forall>p i s. \<exists>r q. g_mount_points (snd (x_umount X p i s)) =
        (g_mount_points s)[i := (g_mount_points s ! i)\<lparr>m_root_inode := r, m_private_data := q\<rparr>])"

text \<open>\<open>kept\<close>: the mount tables agree except for these two fields of slot \<open>i\<close>.\<close>

definition kept :: "nat \<Rightarrow> mount_point_t list \<Rightarrow> mount_point_t list \<Rightarrow> bool" where
  "kept i ms ms' \<longleftrightarrow> (\<exists>r q. ms' = ms[i := (ms ! i)\<lparr>m_root_inode := r, m_private_data := q\<rparr>])"

lemma kept_refl: "kept i ms ms"
  unfolding kept_def by (rule exI [of _ "m_root_inode (ms ! i)"], rule exI [of _ "m_private_data (ms ! i)"]) simp

lemma call_kept:
  assumes "fs_local X"
  shows "kept i (g_mount_points s) (g_mount_points (snd (call_mount X fs i src fl s)))"
    "kept i (g_mount_points s) (g_mount_points (snd (call_umount X fs i s)))"
  using assms kept_refl by (auto simp: fs_local_def call_mount_def call_umount_def kept_def)

lemma find_slot_free: "find_slot ms < length ms \<Longrightarrow> cstr (m_path (ms ! find_slot ms)) = []"
  by (induction ms) auto

lemma find_slot_again: "find_slot ms < length ms \<Longrightarrow> cstr (m_path m) = [] \<Longrightarrow> find_slot (ms[find_slot ms := m]) = find_slot ms"
  by (induction ms) auto

lemma find_mount_free:
  "i < length ms \<Longrightarrow> cstr (m_path (ms ! i)) = [] \<Longrightarrow> cstr (m_path m) = [] \<Longrightarrow> find_mount t (ms[i := m]) = find_mount t ms"
proof (induction ms arbitrary: i)
  case (Cons n ms)
  then show ?case by (cases i) auto
qed simp

lemma find_mount_new:
  assumes "find_mount target ms = length ms" "i < length ms" "cstr (m_path m) \<noteq> []" "strncmp_eq 256 (m_path m) target"
  shows "find_mount target (ms[i := m]) = i"
  using assms
proof (induction ms arbitrary: i)
  case (Cons n ms)
  then show ?case by (cases i) (auto split: if_splits)
qed simp

lemma vfs_mount_run:
  assumes D: "uart_live D" and X: "fs_local X" and fs: "find_filesystem fstype s = Some fs" "fs \<noteq> 0"
    and i: "i = find_slot (g_mount_points s)" "i < 64"
    and s1: "s1 = set_mount i ((g_mount_points s ! i)\<lparr>m_path := take 255 (cstr target), m_fs := fs, m_flags := flags\<rparr>) s"
    and c: "call_mount X fs i source flags s1 = (ret, s2)"
  shows "\<exists>s'. vfs_mount D X source target fstype flags s = Some (ret, s') \<and>
    g_mount_points s' = (if ret = CK_SUCCESS then g_mount_points s2 else (g_mount_points s2)[i := (g_mount_points s2 ! i)\<lparr>m_path := []\<rparr>])"
proof (cases "ret = CK_SUCCESS")
  case True
  obtain s3 where 3: "serial_print D ''[+] Mounted '' s2 = Some s3" "\<exists>cs. outputs cs s2 s3" using serial_print_run [OF D] by blast
  obtain s4 where 4: "serial_print D fstype s3 = Some s4" "\<exists>cs. outputs cs s3 s4" using serial_print_run [OF D] by blast
  obtain s5 where 5: "serial_print D '' on '' s4 = Some s5" "\<exists>cs. outputs cs s4 s5" using serial_print_run [OF D] by blast
  obtain s6 where 6: "serial_println D target s5 = Some s6" "\<exists>cs. outputs cs s5 s6" using serial_println_run [OF D] by blast
  have "g_mount_points s6 = g_mount_points s2" using 3(2) 4(2) 5(2) 6(2) by (auto simp: outputs_def)
  then show ?thesis
    using fs i c s1 True 3(1) 4(1) 5(1) 6(1) by (simp add: vfs_mount_def MAX_MOUNT_POINTS_def Let_def)
next
  case False
  then show ?thesis using fs i c s1 by (simp add: vfs_mount_def MAX_MOUNT_POINTS_def Let_def set_mount_def)
qed

lemma vfs_umount_run:
  assumes D: "uart_live D" and i: "i = find_mount target (g_mount_points s)" "i < 64"
    and c: "call_umount X (m_fs (g_mount_points s ! i)) i s = (ret, s1)"
  shows "\<exists>s'. vfs_umount D X target s = Some (ret, s') \<and>
    g_mount_points s' = (if ret = CK_SUCCESS then (g_mount_points s1)[i := (g_mount_points s1 ! i)\<lparr>m_path := []\<rparr>] else g_mount_points s1)"
proof (cases "ret = CK_SUCCESS")
  case True
  define s2 where "s2 = set_mount i ((g_mount_points s1 ! i)\<lparr>m_path := []\<rparr>) s1"
  obtain s3 where 3: "serial_print D ''[+] Unmounted '' s2 = Some s3" "\<exists>cs. outputs cs s2 s3" using serial_print_run [OF D] by blast
  obtain s4 where 4: "serial_println D target s3 = Some s4" "\<exists>cs. outputs cs s3 s4" using serial_println_run [OF D] by blast
  have "g_mount_points s4 = g_mount_points s2" using 3(2) 4(2) by (auto simp: outputs_def)
  then show ?thesis
    using i c True 3(1) 4(1) by (simp add: vfs_umount_def MAX_MOUNT_POINTS_def Let_def s2_def set_mount_def)
next
  case False
  then show ?thesis using i c by (simp add: vfs_umount_def MAX_MOUNT_POINTS_def Let_def)
qed

lemma mount_effect:
  assumes "uart_live D" "fs_local X" "find_filesystem fstype s = Some fs" "fs \<noteq> 0" "i = find_slot (g_mount_points s)" "i < 64"
    and "length (g_mount_points s) = 64" "length (cstr target) \<le> 255"
    and m: "m = (g_mount_points s ! i)\<lparr>m_path := cstr target, m_fs := fs, m_flags := flags\<rparr>"
  shows "\<exists>ret s1 m1. vfs_mount D X source target fstype flags s = Some (ret, s1) \<and>
    ret = fst (call_mount X fs i source flags (set_mount i m s)) \<and> g_mount_points s1 = (g_mount_points s)[i := m1] \<and>
    m_fs m1 = fs \<and> m_flags m1 = flags \<and> m_path m1 = (if ret = CK_SUCCESS then cstr target else [])"
proof -
  let ?ms = "g_mount_points s"
  obtain ret t where c: "call_mount X fs i source flags (set_mount i m s) = (ret, t)" by fastforce
  obtain m0 where t: "g_mount_points t = ?ms[i := m0]" and m0: "m_fs m0 = fs" "m_flags m0 = flags" "m_path m0 = cstr target"
    using call_kept(1) [OF assms(2), of i "set_mount i m s" fs source flags] c assms(6,7) m by (auto simp: kept_def set_mount_def)
  have e: "set_mount i m s = set_mount i ((?ms ! i)\<lparr>m_path := take 255 (cstr target), m_fs := fs, m_flags := flags\<rparr>) s"
    using assms(8) m by simp
  obtain s1 where "vfs_mount D X source target fstype flags s = Some (ret, s1)"
    "g_mount_points s1 = (if ret = CK_SUCCESS then ?ms[i := m0] else ?ms[i := m0\<lparr>m_path := []\<rparr>])"
    using vfs_mount_run [OF assms(1-6) e c] t assms(6,7) by auto
  then show ?thesis using c m0
    by (intro exI [of _ ret] exI [of _ s1] exI [of _ "if ret = CK_SUCCESS then m0 else m0\<lparr>m_path := []\<rparr>"]) simp
qed

lemma umount_effect:
  assumes "uart_live D" "fs_local X" "i = find_mount target (g_mount_points s)" "i < 64" "length (g_mount_points s) = 64"
    and m: "g_mount_points s ! i = m"
  shows "\<exists>ret s1 m1. vfs_umount D X target s = Some (ret, s1) \<and> ret = fst (call_umount X (m_fs m) i s) \<and>
    g_mount_points s1 = (g_mount_points s)[i := m1] \<and>
    m_fs m1 = m_fs m \<and> m_flags m1 = m_flags m \<and> m_path m1 = (if ret = CK_SUCCESS then [] else m_path m)"
proof -
  obtain ret t where c: "call_umount X (m_fs m) i s = (ret, t)" by fastforce
  obtain m0 where t: "g_mount_points t = (g_mount_points s)[i := m0]" and m0: "m_fs m0 = m_fs m" "m_flags m0 = m_flags m" "m_path m0 = m_path m"
    using call_kept(2) [OF assms(2), of i s "m_fs m"] c m by (auto simp: kept_def)
  obtain s1 where "vfs_umount D X target s = Some (ret, s1)"
    "g_mount_points s1 = (if ret = CK_SUCCESS then (g_mount_points s)[i := m0\<lparr>m_path := []\<rparr>] else (g_mount_points s)[i := m0])"
    using vfs_umount_run [OF assms(1,3,4), of X ret t] c m t assms(4,5) by auto
  then show ?thesis using c m0
    by (intro exI [of _ ret] exI [of _ s1] exI [of _ "if ret = CK_SUCCESS then m0\<lparr>m_path := []\<rparr> else m0"]) simp
qed

text \<open>C30: Mounting on a path of 1 to 255 characters that is not mounted yet, while a slot is free, changes the first free slot
  only and returns what the filesystem's own function returns. If that is an error, the slot is free again. Otherwise the
  slot names the path, the filesystem and the flags, and unmounting the path finds it. When the filesystem
  refuses to unmount, it stays mounted. Otherwise the slot is free again, though it keeps the filesystem and the
  flags, and every search for a path or for a free slot has the result it had before the mount.\<close>

theorem vfs_mount_umount:
  fixes s :: "'a vfs_state_scheme" and target :: string
  assumes "uart_live D" and "fs_local X" and "find_filesystem fstype s = Some fs" and "fs \<noteq> 0"
    and "length (g_mount_points s) = 64" and "i = find_slot (g_mount_points s)" and "i < 64"
    and "cstr target \<noteq> []" and "length (cstr target) \<le> 255" and "find_mount target (g_mount_points s) = 64"
    and "m = (g_mount_points s ! i)\<lparr>m_path := cstr target, m_fs := fs, m_flags := flags\<rparr>"
  shows "\<exists>ret s1 m1. vfs_mount D X source target fstype flags s = Some (ret, s1) \<and>
    ret = fst (call_mount X fs i source flags (set_mount i m s)) \<and>
    g_mount_points s1 = (g_mount_points s)[i := m1] \<and> m_fs m1 = fs \<and> m_flags m1 = flags \<and>
    (if ret \<noteq> CK_SUCCESS then m_path m1 = []
     else m_path m1 = cstr target \<and> find_mount target (g_mount_points s1) = i \<and>
       (\<exists>ret2 s2 m2. vfs_umount D X target s1 = Some (ret2, s2) \<and> ret2 = fst (call_umount X fs i s1) \<and>
          g_mount_points s2 = (g_mount_points s)[i := m2] \<and> m_fs m2 = fs \<and> m_flags m2 = flags \<and>
          (if ret2 \<noteq> CK_SUCCESS then m_path m2 = cstr target \<and> find_mount target (g_mount_points s2) = i
           else m_path m2 = [] \<and> find_slot (g_mount_points s2) = find_slot (g_mount_points s) \<and>
             (\<forall>t. find_mount t (g_mount_points s2) = find_mount t (g_mount_points s)))))"
proof -
  let ?ms = "g_mount_points s"
  have cs: "cstr (cstr target) = cstr target" by (simp add: cstr_def takeWhile_idem)
  have new: "find_mount target (?ms[i := m']) = i" if "m_path m' = cstr target" for m'
    using find_mount_new [of target ?ms i m'] assms(5,7,8,10) that cs by (simp add: strncmp_eq_def)
  have old: "find_mount t (?ms[i := m']) = find_mount t ?ms" "find_slot (?ms[i := m']) = find_slot ?ms" if "m_path m' = []" for t m'
    using that find_slot_free [of ?ms] find_mount_free [of i ?ms m' t] find_slot_again [of ?ms m'] assms(5-7) by (simp_all add: cstr_def)
  obtain ret s1 m1 where s1: "vfs_mount D X source target fstype flags s = Some (ret, s1)"
    "ret = fst (call_mount X fs i source flags (set_mount i m s))" "g_mount_points s1 = ?ms[i := m1]" "m_fs m1 = fs" "m_flags m1 = flags"
    "m_path m1 = (if ret = CK_SUCCESS then cstr target else [])"
    using mount_effect [OF assms(1-4,6,7,5,9,11)] by blast
  show ?thesis
  proof (cases "ret = CK_SUCCESS")
    case False
    then show ?thesis using s1 by auto
  next
    case True
    have f: "find_mount target (g_mount_points s1) = i" using new s1(3,6) True by simp
    have m1: "g_mount_points s1 ! i = m1" "length (g_mount_points s1) = 64" using s1(3) assms(5,7) by simp_all
    obtain ret2 s2 m2 where s2: "vfs_umount D X target s1 = Some (ret2, s2)" "ret2 = fst (call_umount X fs i s1)"
      "g_mount_points s2 = (g_mount_points s1)[i := m2]" "m_fs m2 = fs" "m_flags m2 = flags"
      "m_path m2 = (if ret2 = CK_SUCCESS then [] else cstr target)"
      using umount_effect [OF assms(1,2) f [symmetric] assms(7)] m1 s1(4-6) True by auto
    have e: "g_mount_points s2 = ?ms[i := m2]" using s2(3) s1(3) by simp
    have rest: "if ret2 \<noteq> CK_SUCCESS then m_path m2 = cstr target \<and> find_mount target (g_mount_points s2) = i
        else m_path m2 = [] \<and> find_slot (g_mount_points s2) = find_slot ?ms \<and> (\<forall>t. find_mount t (g_mount_points s2) = find_mount t ?ms)"
      using s2(6) new [of m2] old [of m2] unfolding e by simp
    have "\<exists>ret2 s2 m2. vfs_umount D X target s1 = Some (ret2, s2) \<and> ret2 = fst (call_umount X fs i s1) \<and>
        g_mount_points s2 = ?ms[i := m2] \<and> m_fs m2 = fs \<and> m_flags m2 = flags \<and>
        (if ret2 \<noteq> CK_SUCCESS then m_path m2 = cstr target \<and> find_mount target (g_mount_points s2) = i
         else m_path m2 = [] \<and> find_slot (g_mount_points s2) = find_slot ?ms \<and> (\<forall>t. find_mount t (g_mount_points s2) = find_mount t ?ms))"
      by (intro exI [of _ ret2] exI [of _ s2] exI [of _ m2] conjI s2(1,2) e s2(4,5) rest)
    then show ?thesis
      by (intro exI [of _ ret] exI [of _ s1] exI [of _ m1] conjI s1(1-5)) (use True s1(6) f in \<open>simp only: simp_thms if_True if_False\<close>)
  qed
qed

definition quiet_ext :: "'a vfs_state_scheme vfs_ext" where
  "quiet_ext = \<lparr>x_mount = (\<lambda>_ _ _ _ s. (CK_SUCCESS, s)), x_umount = (\<lambda>_ _ s. (CK_SUCCESS, s)), x_close = (\<lambda>_ _ s. (CK_SUCCESS, s)),
     x_read = (\<lambda>_ _ _ _ _ s. (0, s)), x_write = (\<lambda>_ _ _ _ _ s. (0, s))\<rparr>"

theorem vfs_mount_umount_witness:
  "\<exists>s1 s2. vfs_mount ready_uart quiet_ext ''sda1'' ''/mnt'' ''ext4'' 0
      ((bss (\<lambda>_. 0))\<lparr>filesystems := (\<lambda>_. fs_zero\<lparr>fs_name := ''ext4''\<rparr>), g_filesystems := 0x5000\<rparr>) = Some (CK_SUCCESS, s1) \<and>
    m_fs (g_mount_points s1 ! 0) = 0x5000 \<and> vfs_umount ready_uart quiet_ext ''/mnt'' s1 = Some (CK_SUCCESS, s2)"
proof -
  let ?s = "(bss (\<lambda>_. 0))\<lparr>filesystems := (\<lambda>_. fs_zero\<lparr>fs_name := ''ext4''\<rparr>), g_filesystems := 0x5000\<rparr>"
  have "fs_local (quiet_ext :: kernel_state vfs_ext)" using kept_refl by (simp add: fs_local_def quiet_ext_def kept_def)
  moreover have "fs_list ?s [0x5000]" by (simp add: fs_list_def fs_zero_def)
  then have "find_filesystem ''ext4'' ?s = Some 0x5000" by (simp add: find_filesystem_list strncmp_eq_def)
  moreover have "length (g_mount_points ?s) = 64" "0 = find_slot (g_mount_points ?s)" "find_mount ''/mnt'' (g_mount_points ?s) = 64"
    by (simp_all add: bss_def mount_zero_def cstr_def numeral_eq_Suc)
  ultimately show ?thesis
    using vfs_mount_umount [OF ready_uart_live, of quiet_ext "''ext4''" ?s "0x5000" 0 "''/mnt''" _ 0 "''sda1''"]
    by (auto simp: cstr_def NUL_def call_mount_def call_umount_def quiet_ext_def)
qed

section \<open>Open files\<close>

datatype vfs_op = Open string int int | Close int | Read int ptr u64 | Write int ptr u64

fun vfs_step :: "'a vfs_state_scheme vfs_ext \<Rightarrow> vfs_op \<Rightarrow> 'a vfs_state_scheme \<Rightarrow> int \<times> 'a vfs_state_scheme" where
  "vfs_step X (Open path flags mode) s = vfs_open path flags mode s"
| "vfs_step X (Close fd) s = vfs_close X fd s"
| "vfs_step X (Read fd buf n) s = vfs_read X fd buf n s"
| "vfs_step X (Write fd buf n) s = vfs_write X fd buf n s"

fun vfs_run :: "'a vfs_state_scheme vfs_ext \<Rightarrow> vfs_op list \<Rightarrow> 'a vfs_state_scheme \<Rightarrow> int list \<times> 'a vfs_state_scheme" where
  "vfs_run X [] s = ([], s)"
| "vfs_run X (op # ops) s =
     (case vfs_step X op s of (a, s1) \<Rightarrow> case vfs_run X ops s1 of (as, s2) \<Rightarrow> (a # as, s2))"

text \<open>The table is complete, no file has an inode, and the counter is a descriptor.\<close>

definition files_inv :: "'a vfs_state_scheme \<Rightarrow> bool" where
  "files_inv s \<longleftrightarrow> length (g_open_files s) = 4096 \<and> (\<forall>f \<in> set (g_open_files s). v_inode f = 0) \<and> unat (g_next_fd s) \<le> 4095"

fun answers :: "nat \<Rightarrow> vfs_op list \<Rightarrow> int list" where
  "answers n [] = []"
| "answers n (Open path flags mode # ops) =
     (if n < 4095 then int (Suc n) # answers (Suc n) ops else CK_ERROR_NO_MEMORY # answers n ops)"
| "answers n (Close fd # ops) = (if 0 \<le> fd \<and> fd < 4096 then CK_SUCCESS else CK_ERROR_INVALID_ARG) # answers n ops"
| "answers n (Read fd buf k # ops) = (if 0 \<le> fd \<and> fd < 4096 then CK_ERROR_NOT_SUPPORTED else CK_ERROR_INVALID_ARG) # answers n ops"
| "answers n (Write fd buf k # ops) = (if 0 \<le> fd \<and> fd < 4096 then CK_ERROR_NOT_SUPPORTED else CK_ERROR_INVALID_ARG) # answers n ops"

lemma files_inv_set_file:
  assumes "files_inv s" "v_inode f = 0"
  shows "files_inv (set_file i f s)"
  using assms set_update_subset_insert [of "g_open_files s" i f] by (auto simp: files_inv_def set_file_def)

lemma files_inv_inode:
  assumes "files_inv s" "0 \<le> fd" "fd < 4096"
  shows "v_inode (g_open_files s ! nat fd) = 0"
  using assms by (auto simp: files_inv_def)

lemma alloc_fd_run:
  assumes "files_inv s" "n = unat (g_next_fd s)"
  shows "alloc_fd s = (if n < 4095 then (int (Suc n), s\<lparr>g_next_fd := g_next_fd s + 1\<rparr>) else (CK_ERROR_NO_MEMORY, s))"
    "n < 4095 \<Longrightarrow> unat (g_next_fd s + 1) = Suc n"
proof -
  have n: "n \<le> 4095" using assms by (simp add: files_inv_def)
  have u: "unat (g_next_fd s + 1) = Suc n" using n assms(2) by (simp add: unat_add_small)
  then show "unat (g_next_fd s + 1) = Suc n" .
  have "(ucast (g_next_fd s + 1) :: u32) = word_of_nat (Suc n)"
    by (simp only: word_unat_eq_iff unsigned_ucast_eq unsigned_of_nat u) simp
  then have "sint (ucast (g_next_fd s + 1) :: u32) = int (Suc n)" using n sint_u32_nat [of "Suc n"] by simp
  then show "alloc_fd s = (if n < 4095 then (int (Suc n), s\<lparr>g_next_fd := g_next_fd s + 1\<rparr>) else (CK_ERROR_NO_MEMORY, s))"
    using n by (auto simp: alloc_fd_def atomic_inc_def atomic_dec_def Let_def MAX_OPEN_FILES_def)
qed

lemma vfs_step_answers:
  assumes "files_inv s" "n = unat (g_next_fd s)"
  shows "\<exists>a s'. vfs_step X op s = (a, s') \<and> files_inv s' \<and> answers n (op # ops) = a # answers (unat (g_next_fd s')) ops"
proof (cases op)
  case (Open path flags mode)
  have i: "files_inv (s\<lparr>g_next_fd := g_next_fd s + 1\<rparr>)" if "n < 4095"
    using assms(1) alloc_fd_run(2) [OF assms that] that by (simp add: files_inv_def)
  show ?thesis
  proof (cases "n < 4095")
    case True
    have "v_inode (g_open_files s ! Suc n) = 0"
      using files_inv_inode [OF assms(1), of "int (Suc n)"] True by (simp only: nat_int)
    moreover have "nat (1 + int n) = Suc n" by simp
    ultimately show ?thesis using files_inv_set_file [OF i [OF True]] True alloc_fd_run [OF assms] Open
      by (simp add: vfs_open_def set_file_def)
  next
    case False
    then show ?thesis using alloc_fd_run(1) [OF assms] assms Open by (simp add: vfs_open_def CK_ERROR_NO_MEMORY_def)
  qed
next
  case (Close fd)
  show ?thesis
  proof (cases "0 \<le> fd \<and> fd < 4096")
    case True
    then have z: "v_inode (g_open_files s ! nat fd) = 0" using files_inv_inode [OF assms(1)] by blast
    have "files_inv (free_fd fd t)" "g_next_fd (free_fd fd t) = g_next_fd t" if "files_inv t" for t :: "'a vfs_state_scheme"
      using files_inv_set_file [OF that] by (simp_all add: free_fd_def that set_file_def)
    then show ?thesis using True z files_inv_set_file [OF assms(1)] assms Close
      by (auto simp: vfs_close_def Let_def MAX_OPEN_FILES_def set_file_def)
  qed (use assms Close in \<open>auto simp: vfs_close_def MAX_OPEN_FILES_def\<close>)
next
  case (Read fd buf k)
  then show ?thesis using assms files_inv_inode [OF assms(1)] by (auto simp: vfs_read_def MAX_OPEN_FILES_def Let_def)
next
  case (Write fd buf k)
  then show ?thesis using assms files_inv_inode [OF assms(1)] by (auto simp: vfs_write_def MAX_OPEN_FILES_def Let_def)
qed

lemma vfs_run_answers:
  assumes "files_inv s"
  shows "fst (vfs_run X ops s) = answers (unat (g_next_fd s)) ops \<and> files_inv (snd (vfs_run X ops s))"
  using assms
proof (induction ops arbitrary: s)
  case (Cons op ops)
  obtain a s' where "vfs_step X op s = (a, s')" "files_inv s'"
      "answers (unat (g_next_fd s)) (op # ops) = a # answers (unat (g_next_fd s')) ops"
    using vfs_step_answers [OF Cons.prems refl] by blast
  then show ?case using Cons.IH [of s'] by (simp add: split_beta)
qed simp

text \<open>The descriptors given out.\<close>

definition opened :: "vfs_op list \<Rightarrow> int list \<Rightarrow> int list" where
  "opened ops as = map snd (filter (\<lambda>(op, a). (\<exists>path flags mode. op = Open path flags mode) \<and> 0 \<le> a) (zip ops as))"

lemma opened_answers: "n \<le> 4095 \<Longrightarrow> \<exists>k. opened ops (answers n ops) = map int [Suc n..<Suc (n + k)] \<and> n + k \<le> 4095"
proof (induction ops arbitrary: n)
  case (Cons op ops)
  show ?case
  proof (cases "n < 4095 \<and> (\<exists>path flags mode. op = Open path flags mode)")
    case True
    then obtain k where "opened ops (answers (Suc n) ops) = map int [Suc (Suc n)..<Suc (Suc n + k)]" "Suc n + k \<le> 4095"
      using Cons.IH [of "Suc n"] by auto
    then show ?thesis using True by (intro exI [of _ "Suc k"]) (auto simp: opened_def upt_conv_Cons)
  next
    case False
    then have "opened (op # ops) (answers n (op # ops)) = opened ops (answers n ops)"
      by (cases op) (auto simp: opened_def CK_ERROR_NO_MEMORY_def)
    then show ?thesis using Cons by simp
  qed
qed (auto simp: opened_def intro: exI [of _ 0])

text \<open>C29: Over every sequence of calls, the descriptors given out are consecutive numbers up to 4095, each given out at most once,
  and never again after it was closed; every read and write in range answers \<open>CK_ERROR_NOT_SUPPORTED\<close>, because no file ever has an
  inode; the table stays intact.\<close>

theorem vfs_descriptors:
  assumes "files_inv s" and "n = unat (g_next_fd s)" and "vfs_run X ops s = (as, s')"
  shows "as = answers n ops \<and> files_inv s' \<and> (\<exists>k. opened ops as = map int [Suc n..<Suc (n + k)] \<and> n + k \<le> 4095)"
  using vfs_run_answers [OF assms(1), of X ops] opened_answers [of n ops] assms by (auto simp: files_inv_def)

theorem vfs_descriptors_witness:
  "\<exists>s'. vfs_run quiet_ext [Open ''/a'' 0 0, Close 1, Open ''/b'' 0 0, Read 2 0x1000 8] (bss (\<lambda>_. 0)) =
     ([1, CK_SUCCESS, 2, CK_ERROR_NOT_SUPPORTED], s')"
proof -
  have i: "files_inv (bss (\<lambda>_. 0))" by (auto simp: files_inv_def bss_def file_zero_def)
  obtain as s' where r: "vfs_run quiet_ext [Open ''/a'' 0 0, Close 1, Open ''/b'' 0 0, Read 2 0x1000 8] (bss (\<lambda>_. 0)) = (as, s')" by fastforce
  from vfs_descriptors [OF i refl r] show ?thesis unfolding r by (simp add: bss_def)
qed

end
