(* ===== verification/CK_Core_Props.thy ===== *)
theory CK_Core_Props
  imports CK_Bss
begin

text \<open>
  The properties of console, system calls, interrupts and panic.
\<close>

unbundle bit_operations_syntax

section \<open>Console\<close>

text \<open>When the device is ready again and again, printing a number ends; it appends sixteen hexadecimal digits, most significant
  first, whose value is the number, and changes nothing else.\<close>

theorem serial_print_hex_correct:
  assumes "uart_live D"
  shows "\<exists>s' digits. serial_print_hex D v s = Some s' \<and> outputs (map char_reg digits) s s' \<and>
    length digits = 16 \<and> hex_number digits = unat v"
proof -
  obtain s' where "serial_print_hex D v s = Some s'" "outputs (map char_reg (hex_digits 16 v)) s s'"
    using serial_print_hex_run [OF assms] by blast
  moreover have "hex_number (hex_digits 16 v) = unat v" using u64_unat_less [of v] by (simp add: hex_number_digits)
  ultimately show ?thesis by (intro exI [of _ s'] exI [of _ "hex_digits 16 v"]) simp
qed

theorem serial_print_hex_correct_witness:
  "\<exists>s' digits. serial_print_hex ready_uart 0x2A (bss (\<lambda>_. 0)) = Some s' \<and> serial_out s' = map char_reg digits \<and> hex_number digits = 42"
  using serial_print_hex_correct [OF ready_uart_live, of "0x2A" "bss (\<lambda>_. 0)"] by (auto simp: outputs_def bss_def)

section \<open>System calls\<close>

lemma halves: "push_bit 32 (ucast (hi32 v)) OR ucast (lo32 v) = v"
proof -
  have "(0xFFFFFFFF :: u64) = mask 32" by (simp add: mask_eq_exp_minus_1)
  then have "lo32 v = ucast (v AND mask 32)" by (simp add: lo32_def)
  then show ?thesis by (intro bit_word_eqI) (auto simp: hi32_def bit_simps)
qed

text \<open>A system call registered under a number is the one dispatched for that number, with the arguments in order; every other
  number keeps its handler; a number outside the table is refused.\<close>

theorem register_syscall_dispatch:
  assumes "length (g_syscall_table s) = 512" and "register_syscall nr (Some h) name s = (r, s')"
  shows "if nr < MAX_SYSCALLS
    then r = CK_SUCCESS \<and> length (g_syscall_table s') = 512 \<and>
      syscall_dispatch ext nr a1 a2 a3 a4 a5 a6 s' = call_handler ext h a1 a2 a3 a4 a5 a6 s' \<and>
      (\<forall>m. m \<noteq> nr \<longrightarrow> m < MAX_SYSCALLS \<longrightarrow> g_syscall_table s' ! unat m = g_syscall_table s ! unat m)
    else r = CK_ERROR_INVALID_ARG \<and> s' = s \<and> syscall_dispatch ext nr a1 a2 a3 a4 a5 a6 s' = (CK_ERROR_NOT_SUPPORTED, s')"
proof -
  have "unat nr < 512" if "nr < MAX_SYSCALLS" using that by (simp add: MAX_SYSCALLS_def word_less_nat_alt)
  then show ?thesis using assms
    by (auto simp: register_syscall_def syscall_dispatch_def not_le nth_list_update word_unat_eq_iff split: if_splits)
qed

theorem register_syscall_dispatch_witness:
  "\<exists>s'. register_syscall 7 (Some Sys_getpid) None (bss (\<lambda>_. 0)) = (CK_SUCCESS, s') \<and>
     syscall_dispatch (\<lambda>_ _ _ _ _ _ _ s. (0, s)) 7 0 0 0 0 0 0 s' = (1, s')"
proof -
  obtain r s' where r: "register_syscall 7 (Some Sys_getpid) None (bss (\<lambda>_. 0)) = (r, s')" by fastforce
  have "length (g_syscall_table (bss (\<lambda>_. 0))) = 512" by (simp add: bss_def)
  from register_syscall_dispatch [OF this r] show ?thesis unfolding r by (simp add: MAX_SYSCALLS_def sys_getpid_def)
qed

definition boot_table :: "syscall_handler_t option list" where
  "boot_table = (replicate 512 None)[0 := Some Sys_read, 1 := Some Sys_write, 60 := Some Sys_exit, 39 := Some Sys_getpid,
     300 := Some Sys_cell_create, 303 := Some Sys_ipc_send, 304 := Some Sys_ipc_recv]"

lemma initial_table:
  assumes "g_syscall_table s = replicate 512 None"
  shows "g_syscall_table (register_all initial_syscalls s) = boot_table"
  using assms by (simp add: initial_syscalls_def register_syscall_def MAX_SYSCALLS_def word_le_nat_alt boot_table_def)

lemma register_all_frame: "\<exists>tb nm. register_all rs s = s\<lparr>g_syscall_table := tb, g_syscall_names := nm\<rparr>"
proof (induction rs arbitrary: s)
  case Nil
  show ?case by (intro exI [of _ "g_syscall_table s"] exI [of _ "g_syscall_names s"]) simp
next
  case (Cons r rs)
  obtain n h name where r: "r = (n, h, name)" by (cases r)
  obtain tb nm where "register_all rs (snd (register_syscall (nr_value n) (Some h) (Some name) s)) =
      (snd (register_syscall (nr_value n) (Some h) (Some name) s))\<lparr>g_syscall_table := tb, g_syscall_names := nm\<rparr>"
    using Cons.IH by blast
  then show ?case using r by (intro exI [of _ tb] exI [of _ nm]) (simp add: register_syscall_def)
qed

lemma syscall_init_run:
  assumes "uart_live D"
  shows "\<exists>k out nm ms. syscall_init D entry s = Some (s\<lparr>msr_efer := msr_efer s OR 1, serial_polls := k, serial_out := out,
      g_syscall_table := boot_table, g_syscall_names := nm, msrs := ms\<rparr>) \<and> ms 0xC0000082 = entry"
proof -
  obtain s1 where 1: "serial_println D ''[*] Initializing syscall interface...'' s = Some s1" "\<exists>cs. outputs cs s s1"
    using serial_println_run [OF assms] by blast
  define s2 where "s2 = s1\<lparr>g_syscall_table := replicate 512 None, g_syscall_names := replicate 512 None\<rparr>"
  define s3 where "s3 = register_all initial_syscalls s2"
  define s6 where "s6 = wrmsr 0xC0000102 0 0 (wrmsr 0xC0000084 0x00200200 0 (wrmsr 0xC0000082 (lo32 entry) (hi32 entry) s3))"
  define s7 where "s7 = wrmsr 0xC0000080 (lo32 (msr_efer s6 OR 1)) (hi32 (msr_efer s6 OR 1)) s6"
  obtain s8 where 8: "serial_println D ''[+] Syscall interface initialized'' s7 = Some s8" "\<exists>cs. outputs cs s7 s8"
    using serial_println_run [OF assms] by blast
  have "g_syscall_table s3 = boot_table" unfolding s3_def by (rule initial_table) (simp add: s2_def)
  moreover obtain tb nm where "s3 = s2\<lparr>g_syscall_table := tb, g_syscall_names := nm\<rparr>" unfolding s3_def using register_all_frame by blast
  ultimately have 3: "s3 = s1\<lparr>g_syscall_table := boot_table, g_syscall_names := nm\<rparr>" by (simp add: s2_def)
  have m: "s7 = s3\<lparr>msr_efer := msr_efer s3 OR 1, msrs := msrs s7\<rparr>" "msrs s7 0xC0000082 = entry"
    by (simp_all add: s7_def s6_def wrmsr_def Let_def halves)
  obtain k1 o1 where k1: "s1 = s\<lparr>serial_polls := k1, serial_out := o1\<rparr>" using 1(2) by (auto simp: outputs_def)
  obtain k8 o8 where "s8 = s7\<lparr>serial_polls := k8, serial_out := o8\<rparr>" using 8(2) by (auto simp: outputs_def)
  then have "s8 = s\<lparr>msr_efer := msr_efer s OR 1, serial_polls := k8, serial_out := o8, g_syscall_table := boot_table,
      g_syscall_names := nm, msrs := msrs s7\<rparr>" by (subst (asm) m(1)) (simp add: 3 k1)
  moreover have "syscall_init D entry s = Some s8"
    using 1(1) 8(1) by (simp add: syscall_init_def Let_def s7_def s6_def s3_def s2_def MAX_SYSCALLS_def)
  ultimately show ?thesis using m(2) by blast
qed

lemma boot_dispatch:
  assumes "g_syscall_table s = boot_table"
  shows "syscall_dispatch ext nr a1 a2 a3 a4 a5 a6 s =
    (if nr = nr_value SYS_EXIT then 0 else if nr = nr_value SYS_GETPID then 1 else CK_ERROR_NOT_SUPPORTED, s)"
  by (auto simp: syscall_dispatch_def MAX_SYSCALLS_def assms boot_table_def nth_list_update word_unat_eq_iff
      sys_read_def sys_write_def sys_exit_def sys_getpid_def sys_cell_create_def sys_ipc_send_def sys_ipc_recv_def
      not_le word_less_nat_alt word_le_nat_alt)

text \<open>C27: After initialisation, every system call number and every argument is answered without a change of the state: \<open>exit\<close> with 0,
  \<open>getpid\<close> with 1, all others with \<open>CK_ERROR_NOT_SUPPORTED\<close>. The entry address is in \<open>LSTAR\<close>, and of \<open>EFER\<close> only the enable bit is
  set.\<close>

theorem syscall_init_dispatch:
  assumes "uart_live D"
  shows "\<exists>s'. syscall_init D entry s = Some s' \<and> msrs s' 0xC0000082 = entry \<and> msr_efer s' = msr_efer s OR 1 \<and>
    (\<forall>ext nr a1 a2 a3 a4 a5 a6. syscall_dispatch ext nr a1 a2 a3 a4 a5 a6 s' =
       (if nr = nr_value SYS_EXIT then 0 else if nr = nr_value SYS_GETPID then 1 else CK_ERROR_NOT_SUPPORTED, s'))"
  using syscall_init_run [OF assms, of entry s] by (auto simp: boot_dispatch)

theorem syscall_init_dispatch_witness:
  "\<exists>s'. syscall_init ready_uart 0x100000 (bss (\<lambda>_. 0)) = Some s' \<and> msrs s' 0xC0000082 = 0x100000 \<and> msr_efer s' = 1"
  using syscall_init_dispatch [OF ready_uart_live, of "0x100000" "bss (\<lambda>_. 0)"] by (auto simp: bss_def)

section \<open>Interrupt descriptor table\<close>

definition gate_offset :: "idt_entry_t \<Rightarrow> u64" where
  "gate_offset e = ucast (offset_low e) OR push_bit 16 (ucast (offset_mid e)) OR push_bit 32 (ucast (offset_high e))"

definition gate_for :: "u64 \<Rightarrow> idt_entry_t" where
  "gate_for handler =
     \<lparr>offset_low = ucast (handler AND 0xFFFF), selector = 0x08, ist = 0, type_attr = 0x8E,
      offset_mid = ucast (drop_bit 16 handler AND 0xFFFF), offset_high = ucast (drop_bit 32 handler AND 0xFFFFFFFF), idt_reserved = 0\<rparr>"

lemma gate_offset_for: "gate_offset (gate_for handler) = handler"
proof -
  have "(0xFFFF :: u64) = mask 16" "(0xFFFFFFFF :: u64) = mask 32" by (simp_all add: mask_eq_exp_minus_1)
  then have g: "gate_offset (gate_for handler) =
      ucast (ucast (handler AND mask 16) :: u16) OR push_bit 16 (ucast (ucast (drop_bit 16 handler AND mask 16) :: u16)) OR
      push_bit 32 (ucast (ucast (drop_bit 32 handler AND mask 32) :: u32))"
    by (simp add: gate_offset_def gate_for_def)
  show ?thesis unfolding g
  proof (rule bit_word_eqI)
    fix n assume "n < LENGTH(64)"
    then show "bit (ucast (ucast (handler AND mask 16) :: u16) OR push_bit 16 (ucast (ucast (drop_bit 16 handler AND mask 16) :: u16)) OR
        push_bit 32 (ucast (ucast (drop_bit 32 handler AND mask 32) :: u32)) :: u64) n = bit handler n"
      by (cases "n < 16"; cases "n < 32") (auto simp: bit_simps)
  qed
qed

text \<open>The handler of a vector: later gates replace earlier ones.\<close>

definition gate_of :: "(u8 \<times> string) list \<Rightarrow> nat \<Rightarrow> string option" where
  "gate_of gs = map_of (rev (map (\<lambda>(n, h). (unat n, h)) gs))"

lemma gate_of_simps [simp]:
  "gate_of [] i = None"
  "gate_of ((n, h) # gs) i = (case gate_of gs i of Some k \<Rightarrow> Some k | None \<Rightarrow> if unat n = i then Some h else None)"
  by (auto simp: gate_of_def map_add_def split: option.split)

lemma set_gates_nth:
  assumes "length (g_idt s) = 256" "i < 256"
  shows "g_idt (set_gates stub gs s) ! i = (case gate_of gs i of Some h \<Rightarrow> gate_for (stub h) | None \<Rightarrow> g_idt s ! i)"
    "length (g_idt (set_gates stub gs s)) = 256" "set_gates stub gs s = s\<lparr>g_idt := g_idt (set_gates stub gs s)\<rparr>"
  using assms(1)
proof (induction stub gs s rule: set_gates.induct)
  case (2 stub n h gs s)
  {
    case 1
    show ?case using 2 1 assms(2) by (simp add: idt_set_gate_def gate_for_def nth_list_update split: option.split)
  next
    case 2
    then show ?case using "2.IH"(2) by (simp add: idt_set_gate_def)
  next
    case 3
    then show ?case using "2.IH"(3) by (simp add: idt_set_gate_def)
  }
qed simp_all

lemma idt_init_nth:
  assumes "i < 256"
  shows "g_idt (idt_init stub idt s) ! i = (case gate_of (exception_gates @ irq_gates) i of Some h \<Rightarrow> gate_for (stub h) | None \<Rightarrow> idt_zero)"
    "idt_init stub idt s = s\<lparr>g_idt := g_idt (idt_init stub idt s), g_idt_ptr := \<lparr>idt_limit = 4095, idt_base = idt\<rparr>,
       idtr := Some \<lparr>idt_limit = 4095, idt_base = idt\<rparr>\<rparr>"
proof -
  define s1 where "s1 = s\<lparr>g_idt_ptr := \<lparr>idt_limit = 4095, idt_base = idt\<rparr>, g_idt := replicate 256 idt_zero\<rparr>"
  define s2 where "s2 = set_gates stub exception_gates s1"
  have app: "gate_of (gs @ hs) i = (case gate_of hs i of Some h \<Rightarrow> Some h | None \<Rightarrow> gate_of gs i)" for gs hs
    by (induction gs) (auto split: option.split)
  have l: "length (g_idt s1) = 256" "length (g_idt s2) = 256" using set_gates_nth(2) [of s1 i] assms by (simp_all add: s1_def s2_def)
  have z: "g_idt s1 ! i = idt_zero" using assms by (simp add: s1_def)
  have i: "idt_init stub idt s = (set_gates stub irq_gates s2)\<lparr>idtr := Some (g_idt_ptr (set_gates stub irq_gates s2))\<rparr>"
    by (simp add: idt_init_def Let_def s2_def s1_def IDT_ENTRIES_def)
  show "g_idt (idt_init stub idt s) ! i = (case gate_of (exception_gates @ irq_gates) i of Some h \<Rightarrow> gate_for (stub h) | None \<Rightarrow> idt_zero)"
    using set_gates_nth(1) [OF l(1) assms, of stub exception_gates, folded s2_def] set_gates_nth(1) [OF l(2) assms, of stub irq_gates] z
    by (simp add: i app split: option.split)
  define t where "t = set_gates stub irq_gates s2"
  have "s2 = s1\<lparr>g_idt := g_idt s2\<rparr>" using set_gates_nth(3) [OF l(1) assms, of stub exception_gates] by (simp only: s2_def)
  then have "s2\<lparr>g_idt := g_idt t\<rparr> = s1\<lparr>g_idt := g_idt s2\<rparr>\<lparr>g_idt := g_idt t\<rparr>" by (rule arg_cong)
  then have "s2\<lparr>g_idt := g_idt t\<rparr> = s1\<lparr>g_idt := g_idt t\<rparr>" by simp
  moreover have "t = s2\<lparr>g_idt := g_idt t\<rparr>" using set_gates_nth(3) [OF l(2) assms, of stub irq_gates] by (simp only: t_def)
  ultimately have e: "t = s1\<lparr>g_idt := g_idt t\<rparr>" by (rule trans [rotated])
  have "g_idt_ptr t = \<lparr>idt_limit = 4095, idt_base = idt\<rparr>" by (subst e) (simp add: s1_def)
  then have "idt_init stub idt s = t\<lparr>idtr := Some \<lparr>idt_limit = 4095, idt_base = idt\<rparr>\<rparr>" by (simp add: i t_def)
  moreover have "t\<lparr>idtr := x\<rparr> = s\<lparr>g_idt := g_idt (t\<lparr>idtr := x\<rparr>), g_idt_ptr := \<lparr>idt_limit = 4095, idt_base = idt\<rparr>, idtr := x\<rparr>" for x
    by (subst e) (simp add: s1_def)
  ultimately show "idt_init stub idt s = s\<lparr>g_idt := g_idt (idt_init stub idt s), g_idt_ptr := \<lparr>idt_limit = 4095, idt_base = idt\<rparr>,
       idtr := Some \<lparr>idt_limit = 4095, idt_base = idt\<rparr>\<rparr>" by simp
qed

lemma gate_of_iff:
  assumes "distinct (map fst gs)"
  shows "gate_of gs i = Some h \<longleftrightarrow> (\<exists>n. (n, h) \<in> set gs \<and> i = unat n)"
proof -
  have "distinct (map (\<lambda>x. unat (fst x)) gs)"
    using assms by (simp add: distinct_map inj_on_def word_unat_eq_iff)
  then have "distinct (map fst (rev (map (\<lambda>(n, h). (unat n, h)) gs)))"
    by (simp add: rev_map [symmetric] split_def comp_def)
  then show ?thesis unfolding gate_of_def by (subst map_of_eq_Some_iff) auto
qed

lemma gates_distinct: "distinct (map fst (exception_gates @ irq_gates))"
  by (simp add: exception_gates_def irq_gates_def)

lemma idt_init_absent:
  assumes "i < 256" "i \<notin> unat ` fst ` set (exception_gates @ irq_gates)"
  shows "type_attr (g_idt (idt_init stub idt s) ! i) = 0"
proof (cases "gate_of (exception_gates @ irq_gates) i")
  case None
  then show ?thesis using idt_init_nth(1) [OF assms(1), of stub idt s] by (simp add: idt_zero_def)
next
  case (Some h)
  then show ?thesis using gate_of_iff [OF gates_distinct, of i h] assms(2) by force
qed

lemma idt_init_listed:
  assumes "(n, h) \<in> set (exception_gates @ irq_gates)"
  shows "g_idt (idt_init stub idt s) ! unat n = gate_for (stub h)"
proof -
  have b: "unat n < 256" using unsigned_less [of n, where 'a = nat] by simp
  show ?thesis using idt_init_nth(1) [OF b, of stub idt s] gate_of_iff [OF gates_distinct, of "unat n" h] assms by auto
qed

text \<open>C25: After initialisation, the gate of every listed vector holds, in its three parts, the address of the listed stub, with the
  kernel code selector and a present ring-0 interrupt gate; all other entries are not present; the table is loaded with the right
  limit. The lists put the stubs from the x87 error on one vector too low: vector 16, the x87 error, runs the stub of alignment
  checks.\<close>

theorem idt_init_gates:
  assumes "s' = idt_init stub idt s"
  shows "(\<forall>(n, h) \<in> set (exception_gates @ irq_gates). gate_offset (g_idt s' ! unat n) = stub h \<and>
      selector (g_idt s' ! unat n) = 0x08 \<and> type_attr (g_idt s' ! unat n) = 0x8E) \<and>
    (\<forall>i < 256. i \<notin> unat ` fst ` set (exception_gates @ irq_gates) \<longrightarrow> type_attr (g_idt s' ! i) = 0) \<and>
    idtr s' = Some \<lparr>idt_limit = 4095, idt_base = idt\<rparr> \<and> gate_offset (g_idt s' ! 16) = stub ''exception_alignment_check''"
proof -
  have g: "g_idt s' ! unat n = gate_for (stub h)" if "(n, h) \<in> set (exception_gates @ irq_gates)" for n h
    using idt_init_listed [OF that] assms by simp
  have "type_attr (g_idt s' ! i) = 0" if "i < 256" "i \<notin> unat ` fst ` set (exception_gates @ irq_gates)" for i
    using idt_init_absent [OF that] assms by simp
  moreover have "gate_offset (g_idt s' ! unat (16 :: u8)) = stub ''exception_alignment_check''"
    using g [of 16 "''exception_alignment_check''"] by (simp add: exception_gates_def gate_offset_for)
  moreover have "idtr s' = Some \<lparr>idt_limit = 4095, idt_base = idt\<rparr>" 
    using arg_cong [OF idt_init_nth(2) [of 0 stub idt s], of idtr] assms by simp
  moreover have "gate_offset (g_idt s' ! unat n) = stub h \<and> selector (g_idt s' ! unat n) = 0x08 \<and> type_attr (g_idt s' ! unat n) = 0x8E"
    if "(n, h) \<in> set (exception_gates @ irq_gates)" for n h
    unfolding g [OF that] by (simp add: gate_offset_for) (simp add: gate_for_def)
  ultimately show ?thesis by auto
qed

theorem idt_init_gates_witness:
  "gate_offset (g_idt (idt_init (\<lambda>h. of_nat (length h)) 0x8000 (bss (\<lambda>_. 0))) ! 16) = 25"
  using idt_init_gates [OF refl, of "\<lambda>h. of_nat (length h)" "0x8000" "bss (\<lambda>_. 0)"] by simp

section \<open>Interrupt requests\<close>

text \<open>A hardware interrupt is acknowledged at the second controller exactly when it comes from there, then at the first, and only
  then runs the handler registered for it; without a handler nothing else happens.\<close>

theorem irq_handler_dispatch:
  assumes "length (g_isr_handlers s) = 32" and "n < 32" and "fr_vector frame = 32 + of_nat n"
    and "t = s\<lparr>g_isr_handlers := (g_isr_handlers s)[n := h],
           port_writes := port_writes s @ (if 8 \<le> n then [(0xA0, 0x20)] else []) @ [(0x20, 0x20)]\<rparr>"
  shows "irq_handler ext frame (register_isr (of_nat n) h s) = (if h = 0 then t else ext h frame t)"
proof -
  have n: "unat (of_nat n :: u8) = n" "unat (of_nat n :: u64) = n" using assms(2) by (simp_all add: unsigned_of_nat take_bit_nat_eq_self_iff)
  have "(of_nat n :: u64) \<ge> 8 \<longleftrightarrow> 8 \<le> n" "(of_nat n :: u64) < 32 \<longleftrightarrow> n < 32" by (simp_all add: word_le_nat_alt word_less_nat_alt n(2))
  then show ?thesis using assms n by (simp add: irq_handler_def register_isr_def outb_def Let_def ISR_ENTRIES_def)
qed

theorem irq_handler_dispatch_witness:
  "irq_handler (\<lambda>h frame s. s) \<lparr>fr_r15 = 0, fr_r14 = 0, fr_r13 = 0, fr_r12 = 0, fr_r11 = 0, fr_r10 = 0, fr_r9 = 0, fr_r8 = 0, fr_rdi = 0,
     fr_rsi = 0, fr_rbp = 0, fr_rbx = 0, fr_rdx = 0, fr_rcx = 0, fr_rax = 0, fr_vector = 40, fr_error_code = 0, fr_rip = 0, fr_cs = 0,
     fr_rflags = 0, fr_rsp = 0, fr_ss = 0\<rparr> (register_isr 8 0x1234 (bss (\<lambda>_. 0))) =
   (bss (\<lambda>_. 0))\<lparr>g_isr_handlers := (replicate 32 0)[8 := 0x1234], port_writes := [(0xA0, 0x20), (0x20, 0x20)]\<rparr>"
  using irq_handler_dispatch [OF _ _ _ refl, of "bss (\<lambda>_. 0)" 8] by (simp add: bss_def)

section \<open>Interrupt controllers\<close>

text \<open>The 8259 interrupt controller as its data sheet has it: a command with bit 4 starts the initialisation and clears the mask,
  the next three bytes of data are the vector base, the cascade and the mode, and later data is the mask.\<close>

record pic =
  pic_wait :: nat
  pic_base :: u8
  pic_mask :: u8

fun pic_data :: "u8 \<Rightarrow> pic \<Rightarrow> pic" where
  "pic_data v p =
     (if pic_wait p = 1 then p\<lparr>pic_base := v AND 0xF8, pic_wait := 2\<rparr>
      else if pic_wait p = 2 then p\<lparr>pic_wait := 3\<rparr>
      else if pic_wait p = 3 then p\<lparr>pic_wait := 0\<rparr>
      else p\<lparr>pic_mask := v\<rparr>)"

definition pic_command :: "u8 \<Rightarrow> pic \<Rightarrow> pic" where
  "pic_command v p = (if bit v 4 then p\<lparr>pic_wait := 1, pic_mask := 0\<rparr> else p)"

fun pics_write :: "(u16 \<times> u8) \<Rightarrow> pic \<times> pic \<Rightarrow> pic \<times> pic" where
  "pics_write (port, v) (m, l) =
     (if port = 0x20 then (pic_command v m, l) else if port = 0x21 then (pic_data v m, l)
      else if port = 0xA0 then (m, pic_command v l) else if port = 0xA1 then (m, pic_data v l) else (m, l))"

lemma outb_all_writes: "outb_all ws s = s\<lparr>port_writes := port_writes s @ ws\<rparr>"
  by (induction ws s rule: outb_all.induct) (simp_all add: outb_def)

lemma remap_effect:
  assumes "pic_wait l = 0"
  shows "fold pics_write remap_writes (m, l) = (m\<lparr>pic_wait := 0, pic_base := 0x20, pic_mask := 0\<rparr>, l\<lparr>pic_mask := 0\<rparr>)"
proof -
  have b: "bit (0x11 :: u8) 4" by simp
  then show ?thesis using assms by (simp add: remap_writes_def pic_command_def)
qed

text \<open>C26: The first controller is moved to vectors 32 to 39, but the second one is never put into initialisation: it keeps its vector
  base, and all its requests are enabled. When that base is above 47, as the firmware leaves it, no gate is present for any of
  them.\<close>

theorem interrupt_controller_init_slave:
  assumes "uart_live D" and "pic_wait l = 0" and "48 \<le> unat (pic_base l)" and "unat (pic_base l) + 8 \<le> 256"
  shows "\<exists>s' ws m'. interrupt_controller_init D stub idt s = Some s' \<and> port_writes s' = port_writes s @ ws \<and>
    fold pics_write ws (m, l) = (m', l\<lparr>pic_mask := 0\<rparr>) \<and> pic_base m' = 32 \<and> pic_mask m' = 0 \<and>
    (\<forall>k < 8. type_attr (g_idt s' ! (unat (pic_base l) + k)) = 0)"
proof -
  obtain s1 where 1: "serial_println D ''[*] Initializing IDT...'' s = Some s1" "\<exists>cs. outputs cs s s1" using serial_println_run [OF assms(1)] by blast
  define s3 where "s3 = outb_all remap_writes (idt_init stub idt s1)"
  obtain s4 where 4: "serial_println D ''[+] IDT initialized'' s3 = Some s4" "\<exists>cs. outputs cs s3 s4" using serial_println_run [OF assms(1)] by blast
  obtain s5 where 5: "serial_println D ''[*] Enabling timer interrupt...'' s4 = Some s5" "\<exists>cs. outputs cs s4 s5" using serial_println_run [OF assms(1)] by blast
  obtain s6 where 6: "serial_println D ''[+] Timer enabled'' s5 = Some s6" "\<exists>cs. outputs cs s5 s6" using serial_println_run [OF assms(1)] by blast
  have r: "interrupt_controller_init D stub idt s = Some s6" using 1(1) 4(1) 5(1) 6(1) by (simp add: interrupt_controller_init_def Let_def s3_def)
  have p1: "port_writes s1 = port_writes s" using 1(2) by (auto simp: outputs_def)
  have p: "port_writes s3 = port_writes s @ remap_writes"
    using arg_cong [OF idt_init_nth(2) [of 0 stub idt s1], of port_writes] p1 by (simp add: s3_def outb_all_writes)
  have s6: "port_writes s6 = port_writes s3" "g_idt s6 = g_idt (idt_init stub idt s1)"
    using 4(2) 5(2) 6(2) by (auto simp: outputs_def s3_def outb_all_writes)
  have "unat ` fst ` set (exception_gates @ irq_gates) \<subseteq> {..<48}" by (simp add: exception_gates_def irq_gates_def)
  then have "unat (pic_base l) + k \<notin> unat ` fst ` set (exception_gates @ irq_gates)" for k
    using assms(3) by (meson lessThan_iff not_le subsetD trans_le_add1)
  then have "type_attr (g_idt s6 ! (unat (pic_base l) + k)) = 0" if "k < 8" for k
    using idt_init_absent [of "unat (pic_base l) + k" stub idt s1] that assms(3,4) unfolding s6 by auto
  then show ?thesis using r p s6(1) remap_effect [OF assms(2), of m] by auto
qed

theorem interrupt_controller_init_slave_witness:
  "\<exists>s'. interrupt_controller_init ready_uart (\<lambda>h. of_nat (length h)) 0x8000 (bss (\<lambda>_. 0)) = Some s' \<and> type_attr (g_idt s' ! 0x70) = 0"
proof -
  let ?l = "\<lparr>pic_wait = 0, pic_base = 0x70, pic_mask = 0\<rparr>"
  obtain s' where "interrupt_controller_init ready_uart (\<lambda>h. of_nat (length h)) 0x8000 (bss (\<lambda>_. 0)) = Some s'"
      "\<forall>k < 8. type_attr (g_idt s' ! (unat (pic_base ?l) + k)) = 0"
    using interrupt_controller_init_slave [OF ready_uart_live, of ?l "\<lambda>h. of_nat (length h)" "0x8000" "bss (\<lambda>_. 0)"] by auto
  then show ?thesis by (auto dest: spec [of _ 0])
qed

section \<open>Panic\<close>

text \<open>C28: On a console that keeps becoming ready, a panic always ends in a halted processor with interrupts off. The first panic records the message, cut to 255 characters,
  and the registers in the crash dump; a panic during a panic leaves that dump alone and prints one line only.\<close>

theorem kernel_panic_halts:
  assumes "uart_live D"
  shows "\<exists>s' cs. kernel_panic D R msg s = Some s' \<and> cpu_halted s' \<and> \<not> interrupt_flag s' \<and> g_in_panic s' \<noteq> 0 \<and> mem s' = mem s \<and>
    serial_out s' = serial_out s @ printout cs \<and>
    (if g_in_panic s \<noteq> 0 then g_crash_dump s' = g_crash_dump s \<and> cs = [Println ''[!] Recursive panic detected!'']
     else g_crash_dump s' = g_crash_dump (save_crash_dump R msg 0 s) \<and>
       cs = panic_head msg @ register_report (g_crash_dump s') @ hexdump_lines (mem s) (reg_rsp R) 0 256 @ panic_tail)"
proof (cases "g_in_panic s = 0")
  case False
  obtain s2 where "serial_println D ''[!] Recursive panic detected!'' (cpu_cli s) = Some s2"
      "outputs (map char_reg (cstr ''[!] Recursive panic detected!'' @ [CHR 0x0D, CHR 0x0A])) (cpu_cli s) s2"
    using serial_println_run [OF assms] by blast
  then show ?thesis using False
    by (intro exI [of _ "halt_forever s2"] exI [of _ "[Println ''[!] Recursive panic detected!'']"])
      (auto simp: kernel_panic_def outputs_def cpu_cli_def halt_forever_def printout_def)
next
  case True
  define s2 where "s2 = (cpu_cli s)\<lparr>g_in_panic := 1\<rparr>"
  obtain s3 where 3: "print_calls D (panic_head msg) s2 = Some s3" "outputs (printout (panic_head msg)) s2 s3"
    using print_calls_run [OF assms] by blast
  define s4 where "s4 = save_crash_dump R msg 0 s3"
  define r where "r = register_report (g_crash_dump s4)"
  obtain s5 where 5: "print_calls D r s4 = Some s5" "outputs (printout r) s4 s5" using print_calls_run [OF assms] by blast
  define h where "h = hexdump_lines (mem s5) (reg_rsp R) 0 256"
  obtain s6 where 6: "print_calls D h s5 = Some s6" "outputs (printout h) s5 s6" using print_calls_run [OF assms] by blast
  obtain s7 where 7: "print_calls D panic_tail s6 = Some s7" "outputs (printout panic_tail) s6 s7" using print_calls_run [OF assms] by blast
  have d: "g_crash_dump s5 = g_crash_dump s4" "g_crash_dump s4 = g_crash_dump (save_crash_dump R msg 0 s)" "mem s5 = mem s"
    using 3(2) 5(2) by (auto simp: outputs_def s4_def s2_def save_crash_dump_def cpu_cli_def read_cr0_def read_cr3_def read_cr4_def)
  have "cd_rsp (g_crash_dump s5) = reg_rsp R" using d(1,2) by (simp add: save_crash_dump_def cpu_read_rsp_def)
  then have "kernel_panic D R msg s = Some (halt_forever s7)"
    using True 3(1) 5(1) 6(1) 7(1) by (simp add: kernel_panic_def Let_def s2_def s4_def r_def h_def print_hexdump_def cpu_cli_def)
  moreover have "serial_out s7 = serial_out s @ printout (panic_head msg @ r @ h @ panic_tail)"
    using 3(2) 5(2) 6(2) 7(2) by (auto simp: outputs_def s4_def s2_def save_crash_dump_def cpu_cli_def printout_def)
  moreover have "g_crash_dump s7 = g_crash_dump s4" "mem s7 = mem s" "\<not> interrupt_flag s7" "g_in_panic s7 = 1"
    using 3(2) 5(2) 6(2) 7(2) by (auto simp: outputs_def s4_def s2_def save_crash_dump_def cpu_cli_def)
  ultimately show ?thesis using True d unfolding r_def h_def
    by (intro exI [of _ "halt_forever s7"] exI [of _ "panic_head msg @ r @ h @ panic_tail"])
      (simp add: halt_forever_def r_def h_def)
qed

theorem kernel_panic_halts_witness:
  "\<exists>s'. kernel_panic ready_uart \<lparr>reg_gs0 = 0, reg_cr2 = 0, reg_rsp = 0x7000, reg_rip = 0x100000, reg_rflags = 2\<rparr> (Some ''stop'') (bss (\<lambda>_. 0)) = Some s' \<and>
    cpu_halted s' \<and> cd_message (g_crash_dump s') = ''stop''"
proof -
  let ?R = "\<lparr>reg_gs0 = 0, reg_cr2 = 0, reg_rsp = 0x7000, reg_rip = 0x100000, reg_rflags = 2\<rparr>"
  have "g_in_panic (bss (\<lambda>_. 0)) = 0" by (simp add: bss_def)
  then show ?thesis using kernel_panic_halts [OF ready_uart_live, of ?R "Some ''stop''" "bss (\<lambda>_. 0)"]
    by (auto simp: save_crash_dump_def cstr_def NUL_def)
qed

end
