(* ===== verification/CK_Start.thy ===== *)
theory CK_Start
  imports CK_Vfs_Props CK_Core_Props
begin

text \<open>
  The start of the kernel as a sequence of steps that each end: rules for sequences of calls, what
  each initialisation establishes, and that it is kept until the idle loop is entered.
\<close>

unbundle bit_operations_syntax

section \<open>Steps that end\<close>

definition ends :: "'s option \<Rightarrow> ('s \<Rightarrow> bool) \<Rightarrow> bool" where
  "ends m Q \<longleftrightarrow> (\<exists>s. m = Some s \<and> Q s)"

lemma ends_bind: "ends m Q \<Longrightarrow> (\<And>s. Q s \<Longrightarrow> ends (f s) R) \<Longrightarrow> ends (m \<bind> f) R"
  by (auto simp: ends_def)

lemma ends_let: "ends (f x) R \<Longrightarrow> ends (let y = x in f y) R"
  by simp

lemma ends_Some: "Q s \<Longrightarrow> ends (Some s) Q"
  by (simp add: ends_def)

text \<open>A property that does not depend on the console.\<close>

definition console_free :: "('a serial_state_scheme \<Rightarrow> bool) \<Rightarrow> bool" where
  "console_free Q \<longleftrightarrow> (\<forall>s k out. Q s \<longrightarrow> Q (s\<lparr>serial_polls := k, serial_out := out\<rparr>))"

lemma ends_println:
  assumes "uart_live D" "console_free Q" "Q s"
  shows "ends (serial_println D str s) Q"
  using serial_println_run [OF assms(1), of str s] assms(2,3) by (auto simp: ends_def console_free_def outputs_def)

lemma ends_print_calls:
  assumes "uart_live D" "console_free Q" "Q s"
  shows "ends (print_calls D cs s) Q"
  using print_calls_run [OF assms(1), of cs s] assms(2,3) by (auto simp: ends_def console_free_def outputs_def)

section \<open>Without memory\<close>

definition no_memory :: "'a slab_state_scheme \<Rightarrow> bool" where
  "no_memory s \<longleftrightarrow> frame_inv s \<and> free_pfns s = {} \<and> g_cache_count s = 0"

lemma no_memory_cong:
  fixes s :: "'a slab_state_scheme"
  shows "g_zones s' = g_zones s \<Longrightarrow> mem s' = mem s \<Longrightarrow> g_cache_count s' = g_cache_count s \<Longrightarrow> no_memory s' = no_memory s"
  by (simp add: no_memory_def frame_cong [of s' s])

lemma no_memory_alloc: "no_memory s \<Longrightarrow> alloc_pages order z s = (0, s)"
  by (simp add: no_memory_def alloc_pages_empty)

lemma no_memory_kmalloc:
  assumes "no_memory s"
  shows "sz \<le> MAX_OBJECT_SIZE \<Longrightarrow> kmalloc calloc sz s = Some (0, s)"
    "MAX_OBJECT_SIZE < sz \<Longrightarrow> kmalloc calloc sz s = None \<or> kmalloc calloc sz s = Some (0, s)"
  using assms by (auto simp: kmalloc_def no_memory_def alloc_pages_empty)

lemma no_memory_idle:
  assumes "no_memory s" "e_thread_size E \<le> MAX_OBJECT_SIZE"
  shows "create_idle calloc E i n s = Some s"
  by (induction n arbitrary: i)
    (simp_all add: alloc_page_def no_memory_alloc [OF assms(1)] sched_create_thread_def no_memory_kmalloc(1) [OF assms(1,2)])

lemma no_memory_channel:
  assumes "no_memory s"
  shows "\<exists>s'. ipc_channel_create calloc a b now s = Some (0, s') \<and> g_channels s' = g_channels s"
proof -
  define s1 where "s1 = s\<lparr>g_channel_counter := g_channel_counter s + 1\<rparr>"
  have "no_memory s1" using assms no_memory_cong [of s1 s] by (simp add: s1_def)
  moreover from this have "caches_small s1" by (simp add: caches_small_def no_memory_def)
  ultimately have "kmalloc calloc sizeof_ipc_channel_t s1 = Some (0, s1)" by (simp add: kmalloc_large no_memory_alloc)
  then show ?thesis by (auto simp: ipc_channel_create_def Let_def atomic_inc_def s1_def)
qed

lemma init_runqueues_before: "c < i \<Longrightarrow> get_rq c (init_runqueues E i n s) = get_rq c s"
proof (induction n arbitrary: i s)
  case (Suc n)
  have "get_rq c (init_runqueue E i s) = get_rq c s" using Suc.prems by (simp add: init_runqueue_def get_rq_links get_set_rq_other)
  then show ?case using Suc by simp
qed simp

lemma init_runqueues_frame: "\<exists>rqs l. init_runqueues E i n s = s\<lparr>g_runqueues := rqs, run_links := l\<rparr>"
proof (induction n arbitrary: i s)
  case 0
  show ?case by (intro exI [of _ "g_runqueues s"] exI [of _ "run_links s"]) simp
next
  case (Suc n)
  obtain rqs l where "init_runqueues E (Suc i) n (init_runqueue E i s) = (init_runqueue E i s)\<lparr>g_runqueues := rqs, run_links := l\<rparr>"
    using Suc.IH by blast
  then show ?case by (intro exI [of _ rqs] exI [of _ l]) (simp add: init_runqueue_def set_rq_def)
qed

lemma scheduler_init_none:
  assumes "sched_api E repr" "calloc_more calloc" "e_thread_size E \<le> MAX_OBJECT_SIZE" "0 < e_cpu_count E"
    "length (g_runqueues s) = 256" "repr (run_links s) Map.empty" "no_memory s"
  shows "\<exists>rqs l c. scheduler_init calloc E s = Some (s\<lparr>g_cpu_count := c, g_runqueues := rqs, run_links := l\<rparr>) \<and>
    sched_inv E repr (\<lambda>_. []) (s\<lparr>g_cpu_count := c, g_runqueues := rqs, run_links := l\<rparr>) \<and> rq_idle_thread (rqs ! 0) = 0"
proof -
  define c where "c = min (e_cpu_count E) 256"
  define s2 where "s2 = s\<lparr>g_cpu_count := c\<rparr>"
  obtain n where n: "unat c = Suc n"
    using assms(4) by (cases "unat c") (auto simp: c_def min_def word_less_nat_alt split: if_splits)
  obtain rqs l where t: "init_runqueues E 0 (unat c) s2 = s2\<lparr>g_runqueues := rqs, run_links := l\<rparr>" using init_runqueues_frame by blast
  have "no_memory (s2\<lparr>g_runqueues := rqs, run_links := l\<rparr>)" using assms(7) by (subst no_memory_cong) (simp_all add: s2_def)
  then have r: "scheduler_init calloc E s = Some (s2\<lparr>g_runqueues := rqs, run_links := l\<rparr>)"
    unfolding t [symmetric] by (auto simp: scheduler_init_def Let_def s2_def c_def MAX_CPUS_def min_def no_memory_idle [OF _ assms(3)])
  have "get_rq 0 (s2\<lparr>g_runqueues := rqs, run_links := l\<rparr>) = get_rq 0 (init_runqueue E 0 s2)"
    unfolding t [symmetric] n by (simp add: init_runqueues_before)
  then have "rq_idle_thread (rqs ! 0) = 0" using assms(5) by (simp add: get_rq_def init_runqueue_def set_rq_def s2_def)
  then show ?thesis using r sched_api.scheduler_init_run [OF assms(1-6)] unfolding s2_def by auto
qed

section \<open>Phases of the start\<close>

definition gates_set :: "(string \<Rightarrow> u64) \<Rightarrow> 'a intr_state_scheme \<Rightarrow> bool" where
  "gates_set stub s \<longleftrightarrow> (\<forall>(n, h) \<in> set (exception_gates @ irq_gates). gate_offset (g_idt s ! unat n) = stub h)"

text \<open>The memory of the start, and what the phases add: entry, interrupts, scheduler, system calls, channels, files.\<close>

definition base_ok :: "zone_t list \<Rightarrow> memory \<Rightarrow> 'a kernel_state_scheme \<Rightarrow> bool" where
  "base_ok z m s \<longleftrightarrow> g_zones s = z \<and> mem s = m \<and> g_cache_count s = 0 \<and> g_next_fd s = 0"

definition phase0 :: "zone_t list \<Rightarrow> memory \<Rightarrow> (links \<Rightarrow> queues \<Rightarrow> bool) \<Rightarrow> 'a kernel_state_scheme \<Rightarrow> bool" where
  "phase0 z m repr s \<longleftrightarrow> base_ok z m s \<and> length (g_runqueues s) = 256 \<and> repr (run_links s) Map.empty"

definition phase1 ::
  "zone_t list \<Rightarrow> memory \<Rightarrow> (links \<Rightarrow> queues \<Rightarrow> bool) \<Rightarrow> (string \<Rightarrow> u64) \<Rightarrow> 'a kernel_state_scheme \<Rightarrow> bool" where
  "phase1 z m repr stub s \<longleftrightarrow> phase0 z m repr s \<and> gates_set stub s"

definition phase2 ::
  "zone_t list \<Rightarrow> memory \<Rightarrow> sched_env \<Rightarrow> (links \<Rightarrow> queues \<Rightarrow> bool) \<Rightarrow> (string \<Rightarrow> u64) \<Rightarrow> 'a kernel_state_scheme \<Rightarrow> bool" where
  "phase2 z m E repr stub s \<longleftrightarrow> base_ok z m s \<and> gates_set stub s \<and> sched_inv E repr (\<lambda>_. []) s \<and> rq_idle_thread (get_rq 0 s) = 0"

definition phase3 ::
  "zone_t list \<Rightarrow> memory \<Rightarrow> sched_env \<Rightarrow> (links \<Rightarrow> queues \<Rightarrow> bool) \<Rightarrow> (string \<Rightarrow> u64) \<Rightarrow> 'a kernel_state_scheme \<Rightarrow> bool" where
  "phase3 z m E repr stub s \<longleftrightarrow> phase2 z m E repr stub s \<and> g_syscall_table s = boot_table"

definition phase4 ::
  "zone_t list \<Rightarrow> memory \<Rightarrow> sched_env \<Rightarrow> (links \<Rightarrow> queues \<Rightarrow> bool) \<Rightarrow> (string \<Rightarrow> u64) \<Rightarrow> 'a kernel_state_scheme \<Rightarrow> bool" where
  "phase4 z m E repr stub s \<longleftrightarrow> phase3 z m E repr stub s \<and> g_channels s = replicate 1024 0 \<and> g_channel_counter s = 0"

definition phase5 ::
  "zone_t list \<Rightarrow> memory \<Rightarrow> sched_env \<Rightarrow> (links \<Rightarrow> queues \<Rightarrow> bool) \<Rightarrow> (string \<Rightarrow> u64) \<Rightarrow> 'a kernel_state_scheme \<Rightarrow> bool" where
  "phase5 z m E repr stub s \<longleftrightarrow> phase4 z m E repr stub s \<and> files_inv s \<and> m_path (g_mount_points s ! 0) = ''/''"

lemmas phase_defs =
  base_ok_def phase0_def phase1_def phase2_def phase3_def phase4_def phase5_def gates_set_def sched_inv_def get_rq_def files_inv_def

lemma phases_console_free:
  "console_free (phase0 z m repr)" "console_free (phase1 z m repr stub)" "console_free (phase2 z m E repr stub)"
  "console_free (phase3 z m E repr stub)" "console_free (phase4 z m E repr stub)" "console_free (phase5 z m E repr stub)"
  by (simp_all add: console_free_def phase_defs)

lemma intr_phase:
  assumes "uart_live D" "phase0 z m repr s"
  shows "ends (interrupt_controller_init D stub idt s) (phase1 z m repr stub)"
proof -
  have i: "phase1 z m repr stub (outb_all remap_writes (idt_init stub idt t))" if "phase0 z m repr t" for t
  proof -
    have "gates_set stub (idt_init stub idt t)" by (auto simp: gates_set_def idt_init_listed gate_offset_for simp del: set_append)
    moreover have "phase0 z m repr (idt_init stub idt t)" using that
      by (subst idt_init_nth(2) [of 0]) (simp_all add: phase0_def base_ok_def)
    ultimately show ?thesis by (simp add: phase1_def phase0_def base_ok_def gates_set_def outb_all_writes)
  qed
  show ?thesis unfolding interrupt_controller_init_def Let_def
    by (rule ends_bind, rule ends_println [OF assms(1) phases_console_free(1)], rule assms(2),
        rule ends_bind, rule ends_println [OF assms(1) phases_console_free(2)], erule i,
        rule ends_bind, erule ends_println [OF assms(1) phases_console_free(2)], erule ends_println [OF assms(1) phases_console_free(2)])
qed

lemma sched_phase:
  assumes "sched_api E repr" "calloc_more calloc" "e_thread_size E \<le> MAX_OBJECT_SIZE" "0 < e_cpu_count E"
    "no_memory b" "phase1 (g_zones b) (mem b) repr stub s"
  shows "ends (scheduler_init calloc E s) (phase2 (g_zones b) (mem b) E repr stub)"
proof -
  have "no_memory s" using assms(5,6) no_memory_cong [of s b] by (simp add: phase1_def phase0_def base_ok_def no_memory_def)
  moreover have "length (g_runqueues s) = 256" "repr (run_links s) Map.empty" using assms(6) by (auto simp: phase1_def phase0_def)
  ultimately obtain rqs l c where s: "scheduler_init calloc E s = Some (s\<lparr>g_cpu_count := c, g_runqueues := rqs, run_links := l\<rparr>)"
    "sched_inv E repr (\<lambda>_. []) (s\<lparr>g_cpu_count := c, g_runqueues := rqs, run_links := l\<rparr>)" "rq_idle_thread (rqs ! 0) = 0"
    using scheduler_init_none [OF assms(1-4)] by blast
  show ?thesis unfolding s(1) using s(2,3) assms(6)
    by (intro ends_Some) (simp add: phase2_def phase1_def phase0_def base_ok_def gates_set_def get_rq_def)
qed

lemma syscall_phase:
  assumes "uart_live D" "phase2 z m E repr stub s"
  shows "ends (syscall_init D entry s) (phase3 z m E repr stub)"
  using syscall_init_run [OF assms(1), of entry s] assms(2)
  by (auto simp: ends_def phase3_def phase2_def base_ok_def gates_set_def sched_inv_def get_rq_def)

lemma ipc_phase: "phase3 z m E repr stub s \<Longrightarrow> phase4 z m E repr stub (ipc_subsystem_init s)"
  by (simp add: ipc_subsystem_init_def phase4_def phase3_def phase2_def base_ok_def gates_set_def sched_inv_def get_rq_def
      MAX_CHANNELS_def atomic_set_def)

lemma vfs_phase:
  assumes "uart_live D" "phase4 z m E repr stub s"
  shows "ends (vfs_init D s) (phase5 z m E repr stub)"
proof -
  have i: "phase5 z m E repr stub (t\<lparr>g_mount_points := (replicate MAX_MOUNT_POINTS mount_zero)[0 := mount_zero\<lparr>m_path := ''/''\<rparr>],
      g_open_files := replicate (nat MAX_OPEN_FILES) file_zero\<rparr>)" if "phase4 z m E repr stub t" for t
    using that by (auto simp: phase5_def phase4_def phase3_def phase2_def base_ok_def gates_set_def sched_inv_def get_rq_def
        files_inv_def MAX_MOUNT_POINTS_def MAX_OPEN_FILES_def file_zero_def)
  show ?thesis unfolding vfs_init_def Let_def
    by (rule ends_bind, rule ends_println [OF assms(1) phases_console_free(5)], rule assms(2),
        rule ends_println [OF assms(1) phases_console_free(6)], erule i)
qed

lemma println_then:
  assumes "uart_live D" "console_free Q" "Q s" "\<And>s. Q s \<Longrightarrow> ends (f s) R"
  shows "ends (serial_println D str s \<bind> f) R"
  using ends_bind [OF ends_println [OF assms(1-3)] assms(4)] .

lemma kernel_main_init_phases:
  assumes "uart_live D" "sched_api E repr" "calloc_more calloc" "e_thread_size E \<le> MAX_OBJECT_SIZE" "0 < e_cpu_count E"
    "no_memory b" "phase0 (g_zones b) (mem b) repr s"
  shows "ends (kernel_main_init D calloc E stub idt entry s) (phase5 (g_zones b) (mem b) E repr stub)"
proof -
  note print = println_then [OF assms(1)] and free = phases_console_free
  show ?thesis
    unfolding kernel_main_init_def memory_manager_init_def capability_system_init_def cell_subsystem_init_def
      security_subsystem_init_def driver_framework_init_def Let_def
    apply (insert assms(7))
    apply (rule print [OF free(1)], assumption)+
    apply (rule ends_bind, erule intr_phase [OF assms(1)])
    apply (rule print [OF free(2)], assumption)
    apply (rule ends_bind, erule sched_phase [OF assms(2-6)])
    apply (rule print [OF free(3)], assumption)
    apply (rule ends_bind, erule syscall_phase [OF assms(1)])
    apply (rule print [OF free(4)], assumption)+
    apply (rule print [OF free(5)], erule ipc_phase)
    apply (rule print [OF free(5)], assumption)+
    apply (rule ends_bind, erule vfs_phase [OF assms(1)])
    apply (rule print [OF free(6)], assumption)
    apply (erule ends_println [OF assms(1) free(6)])
    done
qed

lemma kernel_main_phases:
  assumes "uart_live D" "sched_api E repr" "calloc_more calloc" "e_thread_size E \<le> MAX_OBJECT_SIZE" "0 < e_cpu_count E"
    "no_memory s" "g_next_fd s = 0" "length (g_runqueues s) = 256" "repr (run_links s) Map.empty" "desc_size \<noteq> 0"
  shows "ends (kernel_main D calloc E stub idt entry ks ke mm sz desc_size s)
    (\<lambda>t. phase5 (g_zones s) (mem s) E repr stub t \<and> interrupt_flag t)"
proof -
  define Q where "Q = (\<lambda>t :: 'a kernel_state_scheme. phase0 (g_zones s) (mem s) repr t \<and> g_descriptor_size t = desc_size)"
  have q: "console_free Q" by (simp add: Q_def console_free_def phase0_def base_ok_def)
  define t where "t = s\<lparr>g_memory_map := mm, g_memory_map_size := sz, g_descriptor_size := desc_size\<rparr>"
  have t: "Q t" using assms(6-9) by (simp add: t_def Q_def phase0_def base_ok_def no_memory_def)
  have m: "ends (print_memory_map D u) Q" if "Q u" for u
    using ends_print_calls [OF assms(1) q that] that assms(10) by (simp add: print_memory_map_def Let_def Q_def)
  have e: "ends (kernel_early_init D u) Q" if "Q u" for u
    unfolding kernel_early_init_def hal_early_init_def
    by (rule println_then [OF assms(1) q that], rule println_then [OF assms(1) q], assumption, erule ends_println [OF assms(1) q])
  have i: "ends (kernel_main_init D calloc E stub idt entry u) (phase5 (g_zones s) (mem s) E repr stub)" if "Q u" for u
    using kernel_main_init_phases [OF assms(1-6)] that by (simp add: Q_def)
  have d: "ends (kernel_idle D u) (\<lambda>t. phase5 (g_zones s) (mem s) E repr stub t \<and> interrupt_flag t)"
    if "phase5 (g_zones s) (mem s) E repr stub u" for u
    unfolding kernel_idle_def
    by (rule println_then [OF assms(1) phases_console_free(6)], rule that, rule ends_Some) (simp add: cpu_sti_def phase_defs)
  show ?thesis unfolding kernel_main_def print_banner_def Let_def t_def [symmetric]
    by (rule ends_bind, rule ends_print_calls [OF assms(1) q t], rule ends_bind, erule ends_print_calls [OF assms(1) q],
        rule ends_bind, erule m, rule ends_bind, erule e, rule ends_bind, erule i,
        rule ends_bind, erule ends_print_calls [OF assms(1) phases_console_free(6)], erule d)
qed

end
