(* ===== verification/CK_Typing.thy ===== *)
theory CK_Typing
  imports CK_Vfs_Props CK_Core_Props
begin

text \<open>
  The typing of the tables of files, system calls and interrupts: each has its declared length and
  each mount path fits its buffer. Every call of these components keeps it. The functions that drivers
  and filesystems register are parameters, which have to keep it as well.
\<close>

unbundle bit_operations_syntax

definition tables_ok :: "'a intr_state_scheme \<Rightarrow> bool" where
  "tables_ok s \<longleftrightarrow> length (g_mount_points s) = 64 \<and> (\<forall>m \<in> set (g_mount_points s). length (m_path m) < 256) \<and>
     length (g_open_files s) = 4096 \<and> length (g_syscall_table s) = 512 \<and> length (g_syscall_names s) = 512 \<and>
     length (g_idt s) = 256 \<and> length (g_isr_handlers s) = 32"

section \<open>Printing\<close>

definition console_only :: "'a serial_state_scheme \<Rightarrow> 'a serial_state_scheme \<Rightarrow> bool" where
  "console_only s s' \<longleftrightarrow> (\<exists>k out. s' = s\<lparr>serial_polls := k, serial_out := out\<rparr>)"

lemma console_only_trans: "console_only s t \<Longrightarrow> console_only t u \<Longrightarrow> console_only s u"
  by (auto simp: console_only_def) blast

lemma console_only_refl: "console_only s s"
  unfolding console_only_def by (rule exI [of _ "serial_polls s"], rule exI [of _ "serial_out s"]) simp

lemma serial_putc_only: "serial_putc D c s = Some s' \<Longrightarrow> console_only s s'"
  by (auto simp: serial_putc_def console_only_def bind_eq_Some_conv)

lemma serial_print_only: "serial_print D str s = Some s' \<Longrightarrow> console_only s s'"
proof (induction str arbitrary: s)
  case (Cons c cs)
  then show ?case
    by (auto simp: serial_print.simps bind_eq_Some_conv console_only_refl split: if_splits
        dest!: serial_putc_only Cons.IH elim: console_only_trans)
qed (simp add: serial_print.simps console_only_refl)

lemma serial_println_only: "serial_println D str s = Some s' \<Longrightarrow> console_only s s'"
  by (auto simp: serial_println_def bind_eq_Some_conv dest!: serial_print_only serial_putc_only
      intro: console_only_trans [OF console_only_trans])

lemma print_one_only: "print_one D c s = Some s' \<Longrightarrow> console_only s s'"
  by (cases c) (auto simp: serial_print_hex_def dest: serial_putc_only serial_print_only serial_println_only)

lemma print_calls_only: "print_calls D cs s = Some s' \<Longrightarrow> console_only s s'"
proof (induction cs arbitrary: s)
  case (Cons c cs)
  then show ?case by (auto simp: print_calls.simps bind_eq_Some_conv dest!: print_one_only Cons.IH elim: console_only_trans)
qed (simp add: print_calls.simps console_only_refl)

lemma console_only_tables: "console_only s s' \<Longrightarrow> tables_ok s' = tables_ok s"
  by (auto simp: console_only_def tables_ok_def)

lemmas printed_tables =
  serial_print_only [THEN console_only_tables] serial_println_only [THEN console_only_tables] print_calls_only [THEN console_only_tables]

section \<open>Files\<close>

text \<open>The registered functions keep the typing.\<close>

definition ext_ok :: "'a intr_state_scheme vfs_ext \<Rightarrow> bool" where
  "ext_ok X \<longleftrightarrow> (\<forall>s. tables_ok s \<longrightarrow>
     (\<forall>f i src fl. tables_ok (snd (x_mount X f i src fl s))) \<and> (\<forall>f i. tables_ok (snd (x_umount X f i s))) \<and>
     (\<forall>f i. tables_ok (snd (x_close X f i s))) \<and> (\<forall>f i b n p. tables_ok (snd (x_read X f i b n p s))) \<and>
     (\<forall>f i b n p. tables_ok (snd (x_write X f i b n p s))))"

lemma tables_set_mount: "tables_ok s \<Longrightarrow> length (m_path m) < 256 \<Longrightarrow> tables_ok (set_mount i m s)"
  using set_update_subset_insert [of "g_mount_points s" i m] by (auto simp: tables_ok_def set_mount_def)

lemma tables_set_file: "tables_ok (set_file i f s) = tables_ok s"
  by (simp add: tables_ok_def set_file_def)

lemma tables_set_fs: "tables_ok (set_fs p f s) = tables_ok s"
  by (simp add: tables_ok_def set_fs_def)

lemma tables_other:
  "tables_ok (s\<lparr>g_filesystems := p\<rparr>) = tables_ok s" "tables_ok (s\<lparr>g_next_fd := n\<rparr>) = tables_ok s"
  by (simp_all add: tables_ok_def)

lemma vfs_register_tables: "vfs_register_filesystem D fs s = Some (r, s') \<Longrightarrow> tables_ok s \<Longrightarrow> tables_ok s'"
  by (auto simp: vfs_register_filesystem_def bind_eq_Some_conv tables_set_fs tables_other Let_def split: if_splits
      dest!: printed_tables)

lemma vfs_unregister_tables: "vfs_unregister_filesystem name s = Some (r, s') \<Longrightarrow> tables_ok s \<Longrightarrow> tables_ok s'"
  by (auto simp: vfs_unregister_filesystem_def bind_eq_Some_conv tables_set_fs tables_other split: if_splits)

lemma tables_path: "tables_ok s \<Longrightarrow> i < 64 \<Longrightarrow> length (m_path (g_mount_points s ! i)) < 256"
  by (simp add: tables_ok_def)

lemma call_mount_tables: "ext_ok X \<Longrightarrow> tables_ok s \<Longrightarrow> call_mount X fs i src fl s = (r, s') \<Longrightarrow> tables_ok s'"
  by (auto simp: call_mount_def ext_ok_def split: if_splits) (metis snd_conv)

lemma call_umount_tables: "ext_ok X \<Longrightarrow> tables_ok s \<Longrightarrow> call_umount X fs i s = (r, s') \<Longrightarrow> tables_ok s'"
  by (auto simp: call_umount_def ext_ok_def split: if_splits) (metis snd_conv)

lemma vfs_mount_tables:
  assumes "ext_ok X" "tables_ok s" "vfs_mount D X source target fstype flags s = Some (r, s')"
  shows "tables_ok s'"
proof -
  define i where "i = find_slot (g_mount_points s)"
  define s1 where "s1 fs = set_mount i ((g_mount_points s ! i)\<lparr>m_path := take 255 (cstr target), m_fs := fs, m_flags := flags\<rparr>) s" for fs
  have 1: "tables_ok (s1 fs)" for fs using assms(2) by (simp add: s1_def tables_set_mount)
  have 2: "tables_ok s2" if "call_mount X fs i source flags (s1 fs) = (ret, s2)" for fs ret s2
    using call_mount_tables [OF assms(1) 1 that] .
  show ?thesis using assms(2,3) 1 2
    unfolding vfs_mount_def i_def [symmetric] s1_def [symmetric] Let_def
    by (auto simp: bind_eq_Some_conv tables_set_mount split: if_splits prod.splits dest!: printed_tables)
qed

lemma vfs_umount_tables:
  assumes "ext_ok X" "tables_ok s" "vfs_umount D X target s = Some (r, s')"
  shows "tables_ok s'"
  using assms call_umount_tables [OF assms(1,2)]
  by (auto simp: vfs_umount_def Let_def bind_eq_Some_conv tables_set_mount split: if_splits prod.splits dest!: printed_tables)

lemma vfs_step_tables:
  assumes "ext_ok X" "tables_ok s"
  shows "tables_ok (snd (vfs_step X op s))"
proof (cases op)
  case (Open path flags mode)
  then show ?thesis using assms(2) by (simp add: vfs_open_def alloc_fd_def tables_set_file tables_other split_beta Let_def)
next
  case (Close fd)
  have "tables_ok t \<Longrightarrow> tables_ok (free_fd fd t)" for t by (simp add: free_fd_def tables_set_file)
  then show ?thesis using assms Close by (auto simp: vfs_close_def Let_def tables_set_file ext_ok_def)
qed (use assms in \<open>simp_all add: vfs_read_def vfs_write_def Let_def ext_ok_def\<close>)

section \<open>System calls and interrupts\<close>

definition handlers_ok :: "'a intr_state_scheme ext_syscall \<Rightarrow> (ptr \<Rightarrow> interrupt_frame_t \<Rightarrow> 'a intr_state_scheme \<Rightarrow> 'a intr_state_scheme) \<Rightarrow> bool" where
  "handlers_ok ext isr \<longleftrightarrow> (\<forall>s. tables_ok s \<longrightarrow>
     (\<forall>p a1 a2 a3 a4 a5 a6. tables_ok (snd (ext p a1 a2 a3 a4 a5 a6 s))) \<and> (\<forall>p frame. tables_ok (isr p frame s)))"

lemma register_syscall_tables: "tables_ok s \<Longrightarrow> tables_ok (snd (register_syscall nr h name s))"
  by (simp add: register_syscall_def tables_ok_def)

lemma syscall_dispatch_tables:
  assumes "handlers_ok ext isr" "tables_ok s"
  shows "tables_ok (snd (syscall_dispatch ext nr a1 a2 a3 a4 a5 a6 s))"
proof -
  have "tables_ok (snd (call_handler ext h a1 a2 a3 a4 a5 a6 s))" for h using assms by (cases h) (simp_all add: handlers_ok_def)
  then show ?thesis using assms(2) by (simp add: syscall_dispatch_def split: option.split)
qed

lemma idt_set_gate_tables: "tables_ok (idt_set_gate n h sel attr s) = tables_ok s"
  by (simp add: idt_set_gate_def tables_ok_def)

lemma register_isr_tables: "tables_ok s \<Longrightarrow> tables_ok (register_isr n h s)"
  by (simp add: register_isr_def tables_ok_def)

lemma cpu_tables:
  "tables_ok (outb p v s) = tables_ok s" "tables_ok (halt_forever s) = tables_ok s"
  "tables_ok (enable_interrupts s) = tables_ok s" "tables_ok (disable_interrupts s) = tables_ok s"
  by (simp_all add: outb_def halt_forever_def enable_interrupts_def cpu_sti_def disable_interrupts_def cpu_cli_def tables_ok_def)

lemma irq_handler_tables: "handlers_ok ext isr \<Longrightarrow> tables_ok s \<Longrightarrow> tables_ok (irq_handler isr frame s)"
  by (simp add: irq_handler_def Let_def handlers_ok_def cpu_tables)

lemma exception_tables: "default_exception_handler D frame s = Some s' \<Longrightarrow> tables_ok s \<Longrightarrow> tables_ok s'"
  by (auto simp: default_exception_handler_def bind_eq_Some_conv cpu_tables dest!: printed_tables)

section \<open>Calls in any order\<close>

datatype core_op =
    Fs_add ptr | Fs_remove string | Fs_mount string string string u32 | Fs_unmount string | File_call vfs_op
  | Sys_add u64 "syscall_handler_t option" "string option" | Sys_call u64 u64 u64 u64 u64 u64 u64
  | Gate u8 u64 u16 u8 | Isr_add u8 ptr | Irq interrupt_frame_t | Exception interrupt_frame_t | Sti | Cli

text \<open>One call with its return value, 0 for a function that returns nothing.\<close>

fun core_step ::
  "uart \<Rightarrow> 'a intr_state_scheme vfs_ext \<Rightarrow> 'a intr_state_scheme ext_syscall \<Rightarrow>
   (ptr \<Rightarrow> interrupt_frame_t \<Rightarrow> 'a intr_state_scheme \<Rightarrow> 'a intr_state_scheme) \<Rightarrow> core_op \<Rightarrow> 'a intr_state_scheme \<Rightarrow>
   (int \<times> 'a intr_state_scheme) option" where
  "core_step D X ext isr (Fs_add fs) s = vfs_register_filesystem D fs s"
| "core_step D X ext isr (Fs_remove name) s = vfs_unregister_filesystem name s"
| "core_step D X ext isr (Fs_mount source target fstype flags) s = vfs_mount D X source target fstype flags s"
| "core_step D X ext isr (Fs_unmount target) s = vfs_umount D X target s"
| "core_step D X ext isr (File_call op) s = Some (vfs_step X op s)"
| "core_step D X ext isr (Sys_add nr h name) s = Some (register_syscall nr h name s)"
| "core_step D X ext isr (Sys_call nr a1 a2 a3 a4 a5 a6) s = Some (syscall_dispatch ext nr a1 a2 a3 a4 a5 a6 s)"
| "core_step D X ext isr (Gate n gh sel attr) s = Some (0, idt_set_gate n gh sel attr s)"
| "core_step D X ext isr (Isr_add n p) s = Some (0, register_isr n p s)"
| "core_step D X ext isr (Irq frame) s = Some (0, irq_handler isr frame s)"
| "core_step D X ext isr (Exception frame) s = map_option (Pair 0) (default_exception_handler D frame s)"
| "core_step D X ext isr Sti s = Some (0, enable_interrupts s)"
| "core_step D X ext isr Cli s = Some (0, disable_interrupts s)"

text \<open>A sequence of calls: the return values and the last state, \<open>None\<close> when a call never returns.\<close>

fun core_run ::
  "uart \<Rightarrow> 'a intr_state_scheme vfs_ext \<Rightarrow> 'a intr_state_scheme ext_syscall \<Rightarrow>
   (ptr \<Rightarrow> interrupt_frame_t \<Rightarrow> 'a intr_state_scheme \<Rightarrow> 'a intr_state_scheme) \<Rightarrow> core_op list \<Rightarrow> 'a intr_state_scheme \<Rightarrow>
   (int list \<times> 'a intr_state_scheme) option" where
  "core_run D X ext isr [] s = Some ([], s)"
| "core_run D X ext isr (op # ops) s = do {
     (r, s1) \<leftarrow> core_step D X ext isr op s;
     (rs, s2) \<leftarrow> core_run D X ext isr ops s1;
     Some (r # rs, s2)
   }"

lemma core_step_tables:
  assumes "ext_ok X" "handlers_ok ext isr" "core_step D X ext isr op s = Some (r, s')" "tables_ok s"
  shows "tables_ok s'"
  using assms(3,4)
proof (cases op)
  case (File_call vop)
  then show ?thesis using assms(3) vfs_step_tables [OF assms(1,4), of vop] by (auto split: prod.splits)
next
  case (Sys_call nr a1 a2 a3 a4 a5 a6)
  then show ?thesis using assms(3) syscall_dispatch_tables [OF assms(2,4), of nr a1 a2 a3 a4 a5 a6] by auto
next
  case (Sys_add nr h name)
  then show ?thesis using assms(3) register_syscall_tables [OF assms(4), of nr h name] by auto
qed (use assms(3,4) in \<open>auto simp: cpu_tables idt_set_gate_tables
    intro: vfs_register_tables vfs_unregister_tables vfs_mount_tables [OF assms(1)] vfs_umount_tables [OF assms(1)]
      register_isr_tables irq_handler_tables [OF assms(2)] exception_tables\<close>)

end
