(* ===== verification/CK_Bounds.thy ===== *)
theory CK_Bounds
  imports CK_Typing
begin

text \<open>
  Bounds of the tables of \<open>vfs_core.c\<close>, \<open>syscalls.c\<close> and \<open>interrupts.c\<close>. To see that no call indexes a table
  behind its end, each table is given arbitrary further entries, the memory behind it. Every call then
  returns what it returned without them and leaves them as they are, so it neither reads nor writes them.
\<close>

unbundle bit_operations_syntax

record junk =
  j_mounts :: "mount_point_t list"
  j_files :: "vfs_file_t list"
  j_calls :: "syscall_handler_t option list"
  j_names :: "string option list"
  j_gates :: "idt_entry_t list"
  j_isrs :: "ptr list"

definition behind :: "junk \<Rightarrow> 'a intr_state_scheme \<Rightarrow> 'a intr_state_scheme" where
  "behind J s = s\<lparr>g_mount_points := g_mount_points s @ j_mounts J, g_open_files := g_open_files s @ j_files J,
     g_syscall_table := g_syscall_table s @ j_calls J, g_syscall_names := g_syscall_names s @ j_names J,
     g_idt := g_idt s @ j_gates J, g_isr_handlers := g_isr_handlers s @ j_isrs J\<rparr>"

lemma behind_fields [simp]:
  "g_mount_points (behind J s) = g_mount_points s @ j_mounts J" "g_open_files (behind J s) = g_open_files s @ j_files J"
  "g_syscall_table (behind J s) = g_syscall_table s @ j_calls J" "g_syscall_names (behind J s) = g_syscall_names s @ j_names J"
  "g_idt (behind J s) = g_idt s @ j_gates J" "g_isr_handlers (behind J s) = g_isr_handlers s @ j_isrs J"
  "filesystems (behind J s) = filesystems s" "g_filesystems (behind J s) = g_filesystems s" "g_next_fd (behind J s) = g_next_fd s"
  "inodes (behind J s) = inodes s" "file_ops (behind J s) = file_ops s" "serial_polls (behind J s) = serial_polls s"
  "serial_out (behind J s) = serial_out s" "port_writes (behind J s) = port_writes s"
  by (simp_all add: behind_def)

lemma behind_updates:
  "(behind J s)\<lparr>serial_polls := k, serial_out := out\<rparr> = behind J (s\<lparr>serial_polls := k, serial_out := out\<rparr>)"
  "(behind J s)\<lparr>g_filesystems := p\<rparr> = behind J (s\<lparr>g_filesystems := p\<rparr>)" "(behind J s)\<lparr>g_next_fd := n\<rparr> = behind J (s\<lparr>g_next_fd := n\<rparr>)"
  "set_fs p f (behind J s) = behind J (set_fs p f s)"
  by (simp_all add: behind_def set_fs_def)

lemma behind_tables:
  assumes "tables_ok s"
  shows "i < 64 \<Longrightarrow> set_mount i m (behind J s) = behind J (set_mount i m s)"
    "i < 4096 \<Longrightarrow> set_file i f (behind J s) = behind J (set_file i f s)"
  using assms by (simp_all add: tables_ok_def behind_def set_mount_def set_file_def list_update_append1)

lemma behind_entries:
  assumes "tables_ok s"
  shows "i < 64 \<Longrightarrow> (g_mount_points s @ ms) ! i = g_mount_points s ! i" "j < 4096 \<Longrightarrow> (g_open_files s @ fs) ! j = g_open_files s ! j"
  using assms by (simp_all add: tables_ok_def nth_append)

section \<open>Printing\<close>

lemma serial_putc_behind: "serial_putc D c (behind J s) = map_option (behind J) (serial_putc D c s)"
  by (cases "serial_wait D (serial_polls s)") (simp_all add: serial_putc_def behind_updates)

lemma serial_print_behind: "serial_print D str (behind J s) = map_option (behind J) (serial_print D str s)"
proof (induction str arbitrary: s)
  case (Cons c cs)
  then show ?case by (cases "serial_putc D c s") (simp_all add: serial_print.simps serial_putc_behind)
qed (simp add: serial_print.simps)

lemma serial_println_behind: "serial_println D str (behind J s) = map_option (behind J) (serial_println D str s)"
proof (cases "serial_print D str s")
  case (Some s1)
  then show ?thesis
    by (cases "serial_putc D (CHR 0x0D) s1") (simp_all add: serial_println_def serial_print_behind serial_putc_behind)
qed (simp add: serial_println_def serial_print_behind)

lemma print_calls_behind: "print_calls D cs (behind J s) = map_option (behind J) (print_calls D cs s)"
proof (induction cs arbitrary: s)
  case (Cons c cs)
  have "print_one D c (behind J s) = map_option (behind J) (print_one D c s)"
    by (cases c) (simp_all add: serial_putc_behind serial_print_behind serial_println_behind serial_print_hex_def)
  then show ?case using Cons by (cases "print_one D c s") (simp_all add: print_calls.simps)
qed (simp add: print_calls.simps)

lemmas printing_behind = serial_print_behind serial_println_behind print_calls_behind

section \<open>Searches\<close>

lemma find_slot_behind: "length ms = n \<Longrightarrow> find_slot (ms @ js) = (if find_slot ms < n then find_slot ms else n + find_slot js)"
  by (induction ms arbitrary: n) auto

lemma find_mount_behind:
  "length ms = n \<Longrightarrow> find_mount target (ms @ js) = (if find_mount target ms < n then find_mount target ms else n + find_mount target js)"
  by (induction ms arbitrary: n) auto

section \<open>The registered functions\<close>

text \<open>The functions of drivers and filesystems do not touch the memory behind the tables either.\<close>

abbreviation beside :: "junk \<Rightarrow> int \<times> 'a intr_state_scheme \<Rightarrow> int \<times> 'a intr_state_scheme" where
  "beside J \<equiv> map_prod id (behind J)"

definition ext_local :: "'a intr_state_scheme vfs_ext \<Rightarrow> bool" where
  "ext_local X \<longleftrightarrow> ext_ok X \<and> (\<forall>J s. tables_ok s \<longrightarrow>
     (\<forall>f i src fl. x_mount X f i src fl (behind J s) = beside J (x_mount X f i src fl s)) \<and>
     (\<forall>f i. x_umount X f i (behind J s) = beside J (x_umount X f i s)) \<and>
     (\<forall>f i. x_close X f i (behind J s) = beside J (x_close X f i s)) \<and>
     (\<forall>f i b n p. x_read X f i b n p (behind J s) = beside J (x_read X f i b n p s)) \<and>
     (\<forall>f i b n p. x_write X f i b n p (behind J s) = beside J (x_write X f i b n p s)))"

definition handlers_local ::
  "'a intr_state_scheme ext_syscall \<Rightarrow> (ptr \<Rightarrow> interrupt_frame_t \<Rightarrow> 'a intr_state_scheme \<Rightarrow> 'a intr_state_scheme) \<Rightarrow> bool" where
  "handlers_local ext isr \<longleftrightarrow> handlers_ok ext isr \<and> (\<forall>J s. tables_ok s \<longrightarrow>
     (\<forall>p a1 a2 a3 a4 a5 a6. ext p a1 a2 a3 a4 a5 a6 (behind J s) = beside J (ext p a1 a2 a3 a4 a5 a6 s)) \<and>
     (\<forall>p frame. isr p frame (behind J s) = behind J (isr p frame s)))"

section \<open>Files\<close>

lemma vfs_register_behind:
  "vfs_register_filesystem D fs (behind J s) = map_option (beside J) (vfs_register_filesystem D fs s)"
proof -
  define s2 where "s2 = (set_fs fs ((filesystems s fs)\<lparr>fs_next := g_filesystems s\<rparr>) s)\<lparr>g_filesystems := fs\<rparr>"
  show ?thesis
  proof (cases "serial_print D ''[-] Registered filesystem: '' s2")
    case (Some s3)
    then show ?thesis
      by (cases "serial_println D (fs_name (filesystems s3 fs)) s3")
        (simp_all add: vfs_register_filesystem_def Let_def behind_updates printing_behind s2_def [symmetric])
  qed (simp add: vfs_register_filesystem_def Let_def behind_updates printing_behind s2_def [symmetric])
qed

lemma vfs_unregister_behind:
  "vfs_unregister_filesystem name (behind J s) = map_option (beside J) (vfs_unregister_filesystem name s)"
  by (cases "walk_filesystems (filesystems s) name 0 (g_filesystems s)")
    (auto simp: vfs_unregister_filesystem_def behind_updates split: prod.split)

text \<open>Mapping over a sequence of calls.\<close>

lemma bind_of_map: "Option.bind (map_option f m) g = Option.bind m (\<lambda>x. g (f x))"
  by (cases m) simp_all

lemma map_of_bind: "map_option f (Option.bind m g) = Option.bind m (\<lambda>x. map_option f (g x))"
  by (cases m) simp_all

lemmas map_bind = bind_of_map map_of_bind

lemma call_mount_behind:
  assumes "ext_local X" "tables_ok s"
  shows "call_mount X fs i src fl (behind J s) = beside J (call_mount X fs i src fl s)"
  using assms by (simp add: call_mount_def ext_local_def)

lemma call_umount_behind:
  assumes "ext_local X" "tables_ok s"
  shows "call_umount X fs i (behind J s) = beside J (call_umount X fs i s)"
  using assms by (simp add: call_umount_def ext_local_def)

lemma vfs_mount_behind:
  assumes X: "ext_local X" and ok: "tables_ok s"
  shows "vfs_mount D X source target fstype flags (behind J s) = map_option (beside J) (vfs_mount D X source target fstype flags s)"
proof (cases "find_filesystem fstype s")
  case None
  then show ?thesis by (simp add: vfs_mount_def find_filesystem_def)
next
  case (Some fs)
  have f: "find_filesystem fstype (behind J s) = Some fs" using Some by (simp add: find_filesystem_def)
  have eo: "ext_ok X" and len: "length (g_mount_points s) = 64" using X ok by (simp_all add: ext_local_def tables_ok_def)
  let ?i = "find_slot (g_mount_points s)"
  show ?thesis
  proof (cases "fs = 0 \<or> \<not> ?i < 64")
    case True
    then show ?thesis
      using Some f len by (auto simp: vfs_mount_def Let_def MAX_MOUNT_POINTS_def find_slot_behind map_bind printing_behind)
  next
    case False
    define s1 where "s1 = set_mount ?i ((g_mount_points s ! ?i)\<lparr>m_path := take 255 (cstr target), m_fs := fs, m_flags := flags\<rparr>) s"
    have s1: "tables_ok s1" unfolding s1_def by (rule tables_set_mount [OF ok]) simp
    have b1: "set_mount ?i ((g_mount_points (behind J s) ! ?i)\<lparr>m_path := take 255 (cstr target), m_fs := fs, m_flags := flags\<rparr>) (behind J s)
        = behind J s1" using False len by (simp add: s1_def behind_tables [OF ok] nth_append)
    obtain ret s2 where c: "call_mount X fs ?i source flags s1 = (ret, s2)" by fastforce
    have s2: "tables_ok s2" by (rule call_mount_tables [OF eo s1 c])
    have cb: "call_mount X fs ?i source flags (behind J s1) = (ret, behind J s2)" using call_mount_behind [OF X s1] c by simp
    have i: "find_slot (g_mount_points (behind J s)) = ?i" using False len by (simp add: find_slot_behind)
    have l2: "length (g_mount_points s2) = 64" using s2 by (simp add: tables_ok_def)
    have f2: "set_mount ?i ((g_mount_points (behind J s2) ! ?i)\<lparr>m_path := []\<rparr>) (behind J s2) =
        behind J (set_mount ?i ((g_mount_points s2 ! ?i)\<lparr>m_path := []\<rparr>) s2)"
      using False l2 by (simp add: behind_tables [OF s2] nth_append)
    show ?thesis
      unfolding vfs_mount_def i Let_def Some f Option.bind.bind_lunit b1 s1_def [symmetric] c cb
      using False f2 by (simp add: MAX_MOUNT_POINTS_def printing_behind map_bind)
  qed
qed

lemma vfs_umount_behind:
  assumes X: "ext_local X" and ok: "tables_ok s"
  shows "vfs_umount D X target (behind J s) = map_option (beside J) (vfs_umount D X target s)"
proof -
  have eo: "ext_ok X" and len: "length (g_mount_points s) = 64" using X ok by (simp_all add: ext_local_def tables_ok_def)
  let ?i = "find_mount target (g_mount_points s)"
  show ?thesis
  proof (cases "?i < 64")
    case False
    then show ?thesis using len by (simp add: vfs_umount_def MAX_MOUNT_POINTS_def find_mount_behind)
  next
    case True
    have i: "find_mount target (g_mount_points (behind J s)) = ?i" using True len by (simp add: find_mount_behind)
    have m: "g_mount_points (behind J s) ! ?i = g_mount_points s ! ?i" using True len by (simp add: nth_append)
    obtain ret s1 where c: "call_umount X (m_fs (g_mount_points s ! ?i)) ?i s = (ret, s1)" by fastforce
    have s1: "tables_ok s1" by (rule call_umount_tables [OF eo ok c])
    have cb: "call_umount X (m_fs (g_mount_points s ! ?i)) ?i (behind J s) = (ret, behind J s1)"
      using call_umount_behind [OF X ok] c by simp
    have l1: "length (g_mount_points s1) = 64" using s1 by (simp add: tables_ok_def)
    have f1: "set_mount ?i ((g_mount_points (behind J s1) ! ?i)\<lparr>m_path := []\<rparr>) (behind J s1) =
        behind J (set_mount ?i ((g_mount_points s1 ! ?i)\<lparr>m_path := []\<rparr>) s1)"
      using True l1 by (simp add: behind_tables [OF s1] nth_append)
    show ?thesis
      unfolding vfs_umount_def i Let_def m c cb prod.case f1
      using True by (simp add: MAX_MOUNT_POINTS_def printing_behind map_bind)
  qed
qed

lemma vfs_open_behind:
  assumes ok: "tables_ok s"
  shows "vfs_open path flags mode (behind J s) = beside J (vfs_open path flags mode s)"
proof -
  obtain v n where a: "atomic_inc (g_next_fd s) = (v, n)" by fastforce
  let ?fd = "sint (ucast v :: 32 word)"
  have "tables_ok (s\<lparr>g_next_fd := n\<rparr>)" using ok by (simp add: tables_other)
  from behind_tables(2) [OF this, of "nat ?fd"] behind_entries(2) [OF this, of "nat ?fd"] show ?thesis
    using a by (auto simp: vfs_open_def alloc_fd_def Let_def behind_updates MAX_OPEN_FILES_def status_defs)
qed

lemma fd_small: "\<not> (fd < 0 \<or> MAX_OPEN_FILES \<le> fd) \<Longrightarrow> nat fd < 4096"
  unfolding MAX_OPEN_FILES_def by linarith

lemma vfs_close_behind:
  assumes X: "ext_local X" and ok: "tables_ok s"
  shows "vfs_close X fd (behind J s) = beside J (vfs_close X fd s)"
proof (cases "fd < 0 \<or> MAX_OPEN_FILES \<le> fd")
  case False
  then have n: "nat fd < 4096" by (rule fd_small)
  have eo: "ext_ok X" using X by (simp add: ext_local_def)
  have fr: "free_fd fd (behind J t) = behind J (free_fd fd t)" if "tables_ok t" for t :: "'a intr_state_scheme"
    using n behind_tables(2) [OF that] behind_entries(2) [OF that] by (simp add: free_fd_def)
  have sf: "tables_ok (set_file i f s)" for i f using ok by (simp add: tables_set_file)
  have cl: "tables_ok (snd (x_close X p i t))" "x_close X p i (behind J t) = beside J (x_close X p i t)" if "tables_ok t" for p i t
    using eo X that by (simp_all add: ext_ok_def ext_local_def)
  show ?thesis
    using False n behind_tables(2) [OF ok n] behind_entries(2) [OF ok n] fr cl sf ok by (simp add: vfs_close_def Let_def)
qed (auto simp: vfs_close_def)

lemma vfs_read_behind:
  assumes X: "ext_local X" and ok: "tables_ok s"
  shows "vfs_read X fd buf n (behind J s) = beside J (vfs_read X fd buf n s)"
  using assms behind_entries(2) [OF ok fd_small] by (simp add: vfs_read_def Let_def ext_local_def)

lemma vfs_write_behind:
  assumes X: "ext_local X" and ok: "tables_ok s"
  shows "vfs_write X fd buf n (behind J s) = beside J (vfs_write X fd buf n s)"
  using assms behind_entries(2) [OF ok fd_small] by (simp add: vfs_write_def Let_def ext_local_def)

lemma vfs_step_behind:
  assumes "ext_local X" "tables_ok s"
  shows "vfs_step X op (behind J s) = beside J (vfs_step X op s)"
  using assms by (cases op) (simp_all add: vfs_open_behind vfs_close_behind vfs_read_behind vfs_write_behind)

section \<open>System calls and interrupts\<close>

lemma register_syscall_behind:
  assumes "tables_ok s"
  shows "register_syscall nr h name (behind J s) = beside J (register_syscall nr h name s)"
proof -
  have "unat nr < 512" if "\<not> MAX_SYSCALLS \<le> nr" using that by (simp add: MAX_SYSCALLS_def word_le_nat_alt)
  then show ?thesis using assms by (auto simp: register_syscall_def behind_def tables_ok_def list_update_append1)
qed

lemma syscall_dispatch_behind:
  assumes "handlers_local ext isr" "tables_ok s"
  shows "syscall_dispatch ext nr a1 a2 a3 a4 a5 a6 (behind J s) = beside J (syscall_dispatch ext nr a1 a2 a3 a4 a5 a6 s)"
proof -
  have c: "call_handler ext h a1 a2 a3 a4 a5 a6 (behind J s) = beside J (call_handler ext h a1 a2 a3 a4 a5 a6 s)" for h
    using assms by (cases h) (simp_all add: handlers_local_def)
  have "(g_syscall_table s @ j_calls J) ! unat nr = g_syscall_table s ! unat nr" if "\<not> MAX_SYSCALLS \<le> nr"
    using that assms(2) by (simp add: MAX_SYSCALLS_def word_le_nat_alt tables_ok_def nth_append)
  then show ?thesis by (simp add: syscall_dispatch_def c split: option.split)
qed

lemma idt_set_gate_behind:
  assumes "tables_ok s"
  shows "idt_set_gate n h sel attr (behind J s) = behind J (idt_set_gate n h sel attr s)"
proof -
  have "unat n < 2 ^ LENGTH(8)" by (rule unsigned_less)
  then have "unat n < 256" by simp
  then show ?thesis using assms by (simp add: idt_set_gate_def behind_def tables_ok_def list_update_append1)
qed

lemma register_isr_behind: "tables_ok s \<Longrightarrow> register_isr n h (behind J s) = behind J (register_isr n h s)"
  by (simp add: register_isr_def behind_def tables_ok_def list_update_append1 ISR_ENTRIES_def)

lemma cpu_behind:
  "outb p v (behind J s) = behind J (outb p v s)" "halt_forever (behind J s) = behind J (halt_forever s)"
  "enable_interrupts (behind J s) = behind J (enable_interrupts s)" "disable_interrupts (behind J s) = behind J (disable_interrupts s)"
  by (simp_all add: outb_def halt_forever_def enable_interrupts_def cpu_sti_def disable_interrupts_def cpu_cli_def behind_def)

lemma irq_handler_behind:
  assumes "handlers_local ext isr" "tables_ok s"
  shows "irq_handler isr frame (behind J s) = behind J (irq_handler isr frame s)"
proof -
  define s2 where "s2 = outb 0x20 0x20 (if 8 \<le> fr_vector frame - 32 then outb 0xA0 0x20 s else s)"
  have ok: "tables_ok s2" using assms(2) by (simp add: s2_def cpu_tables)
  have b: "outb 0x20 0x20 (if 8 \<le> fr_vector frame - 32 then outb 0xA0 0x20 (behind J s) else behind J s) = behind J s2"
    by (simp add: s2_def cpu_behind)
  have "(g_isr_handlers s2 @ j_isrs J) ! unat (fr_vector frame - 32) = g_isr_handlers s2 ! unat (fr_vector frame - 32)"
    if "fr_vector frame - 32 < of_nat ISR_ENTRIES"
    using that ok by (simp add: ISR_ENTRIES_def word_less_nat_alt tables_ok_def nth_append)
  then show ?thesis using assms(1) ok
    unfolding irq_handler_def Let_def b s2_def [symmetric]
    by (cases "fr_vector frame - 32 < of_nat ISR_ENTRIES") (simp_all add: handlers_local_def)
qed

section \<open>Calls in any order\<close>

lemma core_step_behind:
  assumes X: "ext_local X" and h: "handlers_local ext isr" and ok: "tables_ok s"
  shows "core_step D X ext isr op (behind J s) = map_option (beside J) (core_step D X ext isr op s)"
proof (cases op)
  case (Exception frame)
  then show ?thesis by (simp add: default_exception_handler_def printing_behind map_bind cpu_behind)
qed (use assms in \<open>simp_all add: vfs_register_behind vfs_unregister_behind vfs_mount_behind vfs_umount_behind vfs_step_behind
    register_syscall_behind syscall_dispatch_behind idt_set_gate_behind register_isr_behind irq_handler_behind cpu_behind\<close>)

text \<open>C12: No sequence of calls of the file, system call and interrupt functions reads or writes an entry behind the end of the
  mount, file, system call, name, gate or handler table, whatever indices it is given, as long as the registered functions
  do not. With arbitrary entries behind the tables, the calls return the same values, make the same changes and
  leave these entries as they are. The tables keep their declared sizes and every mount path fits its buffer.\<close>

theorem tables_in_bounds:
  assumes "ext_local X" and "handlers_local ext isr" and "tables_ok s"
  shows "core_run D X ext isr ops (behind J s) = map_option (map_prod id (behind J)) (core_run D X ext isr ops s) \<and>
    (\<forall>rs s'. core_run D X ext isr ops s = Some (rs, s') \<longrightarrow> tables_ok s')"
  using assms(3)
proof (induction ops arbitrary: s)
  case (Cons op ops)
  have ok: "ext_ok X" "handlers_ok ext isr" using assms(1,2) by (simp_all add: ext_local_def handlers_local_def)
  note b = core_step_behind [OF assms(1,2) Cons.prems, of D op J]
  show ?case
  proof (cases "core_step D X ext isr op s")
    case None
    then show ?thesis using b by simp
  next
    case (Some p)
    obtain r s1 where p: "p = (r, s1)" by fastforce
    have s1: "tables_ok s1" using core_step_tables [OF ok _ Cons.prems] Some p by blast
    show ?thesis using Some b p Cons.IH [OF s1]
      by (cases "core_run D X ext isr ops s1") (auto simp: bind_eq_Some_conv)
  qed
qed simp

theorem tables_in_bounds_witness:
  "core_run ready_uart quiet_ext (\<lambda>p a1 a2 a3 a4 a5 a6 s. (0, s)) (\<lambda>p frame s. s)
     [Sys_add 512 (Some Sys_read) None, Sys_call 600 0 0 0 0 0 0, Isr_add 40 0x5000, File_call (Close 4096)]
     (behind \<lparr>j_mounts = [], j_files = [file_zero], j_calls = [Some Sys_exit], j_names = [None], j_gates = [], j_isrs = [1, 2, 3, 4, 5, 6, 7, 8, 9]\<rparr>
       (bss (\<lambda>_. 0))) =
   Some ([CK_ERROR_INVALID_ARG, CK_ERROR_NOT_SUPPORTED, 0, CK_ERROR_INVALID_ARG],
     behind \<lparr>j_mounts = [], j_files = [file_zero], j_calls = [Some Sys_exit], j_names = [None], j_gates = [], j_isrs = [1, 2, 3, 4, 5, 6, 7, 8, 9]\<rparr>
       (bss (\<lambda>_. 0)))"
proof -
  let ?ext = "\<lambda>p a1 a2 a3 a4 a5 a6 s. (0, s)" and ?isr = "\<lambda>p frame s. s"
  have "ext_local quiet_ext" by (simp add: ext_local_def ext_ok_def quiet_ext_def)
  moreover have "handlers_local ?ext ?isr" by (simp add: handlers_local_def handlers_ok_def)
  moreover have "tables_ok (bss (\<lambda>_. 0))" by (simp add: tables_ok_def bss_def mount_zero_def)
  ultimately show ?thesis
    using tables_in_bounds [of quiet_ext ?ext ?isr "bss (\<lambda>_. 0)" ready_uart
      "[Sys_add 512 (Some Sys_read) None, Sys_call 600 0 0 0 0 0 0, Isr_add 40 0x5000, File_call (Close 4096)]"]
    by (simp add: register_syscall_def syscall_dispatch_def register_isr_def vfs_close_def MAX_SYSCALLS_def ISR_ENTRIES_def
        MAX_OPEN_FILES_def)
qed

end
