(* ===== verification/CK_Tpm.thy ===== *)
theory CK_Tpm
  imports CK_KernelH
begin

text \<open>
  Model of \<open>boot/secure/tpm_measure.c\<close>. The registers of the chip are the argument \<open>V\<close>, which reads
  and writes an address in the state of the chip. What the buffers on the stack hold before they
  are written is the argument \<open>stk\<close>: the command and the response. Structs and words are little
  endian; the header has two bytes of padding after the tag. Reading outside a buffer is undefined,
  \<open>None\<close>.
\<close>

unbundle bit_operations_syntax

section \<open>Data\<close>

definition TPM_CC_PCR_EXTEND :: u32 where "TPM_CC_PCR_EXTEND = 0x00000182"
definition TPM_CC_PCR_READ :: u32 where "TPM_CC_PCR_READ = 0x0000017E"
definition TPM_CC_GET_RANDOM :: u32 where "TPM_CC_GET_RANDOM = 0x0000017B"
definition TPM_RC_SUCCESS :: u32 where "TPM_RC_SUCCESS = 0x000"
definition TPM_ST_NO_SESSIONS :: u16 where "TPM_ST_NO_SESSIONS = 0x8002"
definition PCR_KERNEL :: int where "PCR_KERNEL = 11"
definition SHA256_DIGEST_SIZE :: nat where "SHA256_DIGEST_SIZE = 32"
definition TPM_BASE_ADDR :: u32 where "TPM_BASE_ADDR = 0xFED40000"
definition TPM_ACCESS :: u32 where "TPM_ACCESS = 0x00"
definition TPM_STS :: u32 where "TPM_STS = 0x18"
definition TPM_XMIT_DATA :: u32 where "TPM_XMIT_DATA = 0x24"
definition TPM_RECV_FIFO :: u32 where "TPM_RECV_FIFO = 0x24"

record 'd tpm_dev =
  dev_read :: "u64 \<Rightarrow> 'd \<Rightarrow> u32 \<times> 'd"
  dev_write :: "u64 \<Rightarrow> u32 \<Rightarrow> 'd \<Rightarrow> 'd"

definition le16 :: "u16 \<Rightarrow> u8 list" where
  "le16 v = [ucast v, ucast (drop_bit 8 v)]"

definition le32 :: "u32 \<Rightarrow> u8 list" where
  "le32 v = [ucast v, ucast (drop_bit 8 v), ucast (drop_bit 16 v), ucast (drop_bit 24 v)]"

definition get_le32 :: "u8 list \<Rightarrow> nat \<Rightarrow> u32" where
  "get_le32 buf i =
     ucast (buf ! i) OR push_bit 8 (ucast (buf ! (i + 1))) OR push_bit 16 (ucast (buf ! (i + 2))) OR push_bit 24 (ucast (buf ! (i + 3)))"

record tpm_cmd_header_t =
  tag :: u16
  cmd_size :: u32
  command_code :: u32

record tpm_pcr_extend_cmd_t =
  header :: tpm_cmd_header_t
  cmd_pcr_index :: u32
  cmd_digest :: "u8 list"

record tpm_result_t =
  rc :: u32
  rsize :: u32

definition sizeof_pcr_extend_cmd :: nat where "sizeof_pcr_extend_cmd = 48"

text \<open>The struct in a buffer.\<close>

definition put_extend_cmd :: "tpm_pcr_extend_cmd_t \<Rightarrow> u8 list \<Rightarrow> u8 list" where
  "put_extend_cmd c buf =
     copy_at 16 (cmd_digest c) (copy_at 12 (le32 (cmd_pcr_index c)) (copy_at 8 (le32 (command_code (header c)))
       (copy_at 4 (le32 (cmd_size (header c))) (copy_at 0 (le16 (tag (header c))) buf))))"

definition get_result :: "u8 list \<Rightarrow> tpm_result_t" where
  "get_result buf = \<lparr>rc = get_le32 buf 0, rsize = get_le32 buf 4\<rparr>"

section \<open>Registers\<close>

definition tpm_write_register :: "'d tpm_dev \<Rightarrow> u32 \<Rightarrow> u32 \<Rightarrow> 'd \<Rightarrow> 'd" where
  "tpm_write_register V addr v d = dev_write V (ucast (TPM_BASE_ADDR + addr)) v d"

definition tpm_read_register :: "'d tpm_dev \<Rightarrow> u32 \<Rightarrow> 'd \<Rightarrow> u32 \<times> 'd" where
  "tpm_read_register V addr d = dev_read V (ucast (TPM_BASE_ADDR + addr)) d"

fun wait_loop :: "'d tpm_dev \<Rightarrow> nat \<Rightarrow> 'd \<Rightarrow> int \<times> 'd" where
  "wait_loop V 0 d = (-1, d)"
| "wait_loop V (Suc timeout) d =
     (case tpm_read_register V TPM_STS d of (status, d1) \<Rightarrow> if status AND 0x80 \<noteq> 0 then (0, d1) else wait_loop V timeout d1)"

definition tpm_wait_ready :: "'d tpm_dev \<Rightarrow> 'd \<Rightarrow> int \<times> 'd" where
  "tpm_wait_ready V d = wait_loop V 1000000 d"

fun write_fifo :: "'d tpm_dev \<Rightarrow> u8 list \<Rightarrow> 'd \<Rightarrow> 'd" where
  "write_fifo V [] d = d"
| "write_fifo V (b # bs) d = write_fifo V bs (tpm_write_register V TPM_XMIT_DATA (ucast b) d)"

fun read_fifo :: "'d tpm_dev \<Rightarrow> nat \<Rightarrow> 'd \<Rightarrow> u8 list \<times> 'd" where
  "read_fifo V 0 d = ([], d)"
| "read_fifo V (Suc n) d =
     (case tpm_read_register V TPM_RECV_FIFO d of (v, d1) \<Rightarrow> case read_fifo V n d1 of (bs, d2) \<Rightarrow> (ucast v # bs, d2))"

text \<open>The result: the return value, the response buffer and its size.\<close>

definition tpm_send_command :: "'d tpm_dev \<Rightarrow> u8 list \<Rightarrow> u8 list \<Rightarrow> u32 \<Rightarrow> 'd \<Rightarrow> int \<times> u8 list \<times> u32 \<times> 'd" where
  "tpm_send_command V cmd response resp_size d =
     (let d1 = write_fifo V cmd d;
          d2 = tpm_write_register V TPM_STS 0x20 d1;
          (ready, d3) = tpm_wait_ready V d2
      in if ready \<noteq> 0 then (-1, response, resp_size, d3)
         else
           let (sts, d4) = tpm_read_register V TPM_STS d3;
               avail = sts AND 0xFFFF;
               bytes_available = (if avail > resp_size then resp_size else avail);
               (bs, d5) = read_fifo V (unat bytes_available) d4
           in (0, copy_at 0 bs response, bytes_available, d5))"

section \<open>Measurement\<close>

definition sha256_compute :: "u8 list \<Rightarrow> u8 list" where
  "sha256_compute bytes = replicate SHA256_DIGEST_SIZE 0"

fun init_loop :: "'d tpm_dev \<Rightarrow> nat \<Rightarrow> u32 \<Rightarrow> 'd \<Rightarrow> int \<times> 'd" where
  "init_loop V 0 access d = (-1, d)"
| "init_loop V (Suc timeout) access d =
     (if access AND 0x10 \<noteq> 0 then (0, d)
      else case tpm_read_register V TPM_ACCESS d of (access1, d1) \<Rightarrow> init_loop V timeout access1 d1)"

definition tpm_init :: "'d tpm_dev \<Rightarrow> 'd \<Rightarrow> int \<times> 'd" where
  "tpm_init V d = (case tpm_read_register V TPM_ACCESS d of (access, d1) \<Rightarrow> init_loop V 1000000 access d1)"

definition tpm_pcr_extend_internal :: "'d tpm_dev \<Rightarrow> u8 list \<times> u8 list \<Rightarrow> u32 \<Rightarrow> u8 list \<Rightarrow> 'd \<Rightarrow> int \<times> 'd" where
  "tpm_pcr_extend_internal V stk pcr_index digest d =
     (let cmd = \<lparr>header = \<lparr>tag = TPM_ST_NO_SESSIONS, cmd_size = of_nat sizeof_pcr_extend_cmd, command_code = TPM_CC_PCR_EXTEND\<rparr>,
                 cmd_pcr_index = pcr_index, cmd_digest = digest\<rparr>;
          cmd_buffer = put_extend_cmd cmd (fst stk);
          (ready, d1) = tpm_wait_ready V d
      in if ready \<noteq> 0 then (-1, d1)
         else
           let (ret, resp, resp_size, d2) = tpm_send_command V (take sizeof_pcr_extend_cmd cmd_buffer) (snd stk) 128 d1
           in if ret \<noteq> 0 then (-1, d2) else if rc (get_result resp) \<noteq> TPM_RC_SUCCESS then (-1, d2) else (0, d2))"

definition tpm_measure_image ::
  "'d tpm_dev \<Rightarrow> u8 list \<times> u8 list \<Rightarrow> memory \<Rightarrow> ptr \<Rightarrow> u64 \<Rightarrow> int \<Rightarrow> 'd \<Rightarrow> int \<times> 'd" where
  "tpm_measure_image V stk m img sz pcr_index d =
     (let digest = (if img = 0 \<or> sz = 0 then replicate SHA256_DIGEST_SIZE 0
                    else sha256_compute (map (\<lambda>i. m (img + of_nat i)) [0..<unat sz]));
          (ok, d1) = tpm_init V d
      in if ok \<noteq> 0 then (0, d1) else tpm_pcr_extend_internal V stk (word_of_int pcr_index) digest d1)"

section \<open>Reading a register and random numbers\<close>

definition put_words :: "u32 list \<Rightarrow> u8 list \<Rightarrow> u8 list" where
  "put_words ws buf = copy_at 0 (concat (map le32 ws)) buf"

text \<open>The digest is stored when both pointers are given.\<close>

definition tpm_pcr_read ::
  "'d tpm_dev \<Rightarrow> u8 list \<times> u8 list \<Rightarrow> int \<Rightarrow> bool \<Rightarrow> 'd \<Rightarrow> int \<times> u8 list option \<times> 'd" where
  "tpm_pcr_read V stk pcr_index want d =
     (let cmd = put_words [push_bit 16 (ucast TPM_ST_NO_SESSIONS) OR 0x0000000F, TPM_CC_PCR_READ, 1, word_of_int pcr_index] (fst stk);
          (ready, d1) = tpm_wait_ready V d
      in if ready \<noteq> 0 then (-1, None, d1)
         else
           let (ret, resp, resp_size, d2) = tpm_send_command V (take 16 cmd) (snd stk) 128 d1
           in if ret \<noteq> 0 then (-1, None, d2)
              else if rc (get_result resp) \<noteq> TPM_RC_SUCCESS then (-1, None, d2)
              else if want then (0, Some (take SHA256_DIGEST_SIZE (drop 16 resp)), d2)
              else (0, None, d2))"

text \<open>The copy of \<open>n\<close> bytes of the response from index 12 on.\<close>

definition copy_random :: "u8 list \<Rightarrow> nat \<Rightarrow> u8 list option" where
  "copy_random resp n = (if 12 + n \<le> length resp then Some (take n (drop 12 resp)) else None)"

definition tpm_get_random :: "'d tpm_dev \<Rightarrow> u8 list \<times> u8 list \<Rightarrow> u32 \<Rightarrow> 'd \<Rightarrow> (int \<times> u8 list \<times> 'd) option" where
  "tpm_get_random V stk sz d =
     (let cmd = put_words [push_bit 16 (ucast TPM_ST_NO_SESSIONS) OR 0x0000000A, TPM_CC_GET_RANDOM, sz] (fst stk);
          (ready, d1) = tpm_wait_ready V d
      in if ready \<noteq> 0 then Some (-1, [], d1)
         else
           let (ret, resp, resp_size, d2) = tpm_send_command V (take 12 cmd) (snd stk) 256 d1
           in if ret \<noteq> 0 then Some (-1, [], d2)
              else if rc (get_result resp) \<noteq> TPM_RC_SUCCESS then Some (-1, [], d2)
              else
                let actual = get_le32 resp 8;
                    actual_size = (if actual > sz then sz else actual)
                in map_option (\<lambda>bs. (sint actual_size, bs, d2)) (copy_random resp (unat actual_size)))"

end
