(* ===== verification/CK_Tpm_Props.thy ===== *)
theory CK_Tpm_Props
  imports CK_Tpm
begin

text \<open>
  The properties of the measurement: what it depends on, and the bounds of the response buffer.
\<close>

unbundle bit_operations_syntax

lemma init_loop_absent:
  assumes "\<And>d. fst (tpm_read_register V TPM_ACCESS d) AND 0x10 = 0" "access AND 0x10 = 0"
  shows "fst (init_loop V n access d) = -1"
  using assms(2)
proof (induction n arbitrary: access d)
  case (Suc n)
  then show ?case using assms(1) [of d] by (auto split: prod.split)
qed simp

text \<open>C39: The measurement does not depend on the image: the same commands are sent and the same answer is given as for no image at
  all. Without a chip the measurement reports success.\<close>

theorem tpm_measure_image_blind:
  shows "tpm_measure_image V stk m img sz pcr d = tpm_measure_image V stk m' 0 0 pcr d \<and>
    ((\<forall>d. fst (dev_read V 0xFED40000 d) AND 0x10 = 0) \<longrightarrow> fst (tpm_measure_image V stk m img sz pcr d) = 0)"
proof -
  have "fst (tpm_init V d) = -1" if "\<forall>d. fst (dev_read V 0xFED40000 d) AND 0x10 = 0"
  proof -
    have a: "fst (tpm_read_register V TPM_ACCESS d) AND 0x10 = 0" for d
      using that by (simp add: tpm_read_register_def TPM_ACCESS_def TPM_BASE_ADDR_def)
    then show ?thesis using init_loop_absent [of V] by (simp add: tpm_init_def split_beta)
  qed
  then show ?thesis by (auto simp: tpm_measure_image_def Let_def sha256_compute_def split_beta)
qed

theorem tpm_measure_image_blind_witness:
  "fst (tpm_measure_image \<lparr>dev_read = (\<lambda>_ d. (0, d)), dev_write = (\<lambda>_ _ d. d)\<rparr> ([], []) (\<lambda>_. 7) 0x1000 64 11 ()) = 0"
  using tpm_measure_image_blind [of "\<lparr>dev_read = (\<lambda>_ d. (0, d)), dev_write = (\<lambda>_ _ d. d)\<rparr>" "([], [])" "\<lambda>_. 7" "0x1000" 64 11 "()"] by simp

text \<open>A chip that is always ready and sends zero bytes, but 0xFF as the low byte of the ninth to twelfth: its state is the number of
  bytes read.\<close>

definition chatty_chip :: "nat tpm_dev" where
  "chatty_chip = \<lparr>dev_read = (\<lambda>a n. if a = 0xFED40024 then (if n < 8 then 0 else 0xFF, Suc n) else (0x80 OR 0x0C, n)), dev_write = (\<lambda>_ _ n. n)\<rparr>"

lemma wait_loop_ready: "fst (tpm_read_register V TPM_STS d) AND 0x80 \<noteq> 0 \<Longrightarrow> 0 < n \<Longrightarrow> wait_loop V n d = (0, snd (tpm_read_register V TPM_STS d))"
  by (cases n) (auto split: prod.split)

lemma chatty_chip_overruns: "tpm_get_random chatty_chip (replicate 64 0, replicate 256 0) 300 0 = None"
proof -
  have r: "tpm_read_register chatty_chip TPM_STS n = (0x8C, n)" "tpm_read_register chatty_chip TPM_RECV_FIFO n = (if n < 8 then 0 else 0xFF, Suc n)"
    "tpm_write_register chatty_chip a v n = n" for n a v
    by (simp_all add: tpm_read_register_def tpm_write_register_def chatty_chip_def TPM_STS_def TPM_RECV_FIFO_def TPM_BASE_ADDR_def)
  have w: "tpm_wait_ready chatty_chip n = (0, n)" for n by (simp add: tpm_wait_ready_def wait_loop_ready r)
  have f: "write_fifo chatty_chip bs n = n" for bs n by (induction bs arbitrary: n) (simp_all add: r)
  have rd: "fst (read_fifo chatty_chip n k) = map (\<lambda>i. if i < 8 then 0 else 0xFF) [k..<k + n]" for n k
    by (induction n arbitrary: k) (simp_all add: r split_beta upt_conv_Cons)
  define resp where "resp = map (\<lambda>i. if i < 8 then 0 else 0xFF) [0..<140] @ replicate 116 (0 :: u8)"
  have s: "fst (snd (tpm_send_command chatty_chip cmd (replicate 256 0) 256 0)) = resp"
    "fst (tpm_send_command chatty_chip cmd (replicate 256 0) 256 0) = 0" for cmd
    using rd [of 140 0] by (simp_all add: tpm_send_command_def w f r Let_def copy_at_def split_beta resp_def)
  have g: "get_le32 resp 0 = 0" "get_le32 resp 8 = 0xFFFFFFFF" "length resp = 256"
    by (simp_all add: get_le32_def resp_def nth_append)
  show ?thesis
    using s g by (simp add: tpm_get_random_def Let_def split_beta w get_result_def TPM_RC_SUCCESS_def copy_random_def)
qed

text \<open>C40: Random bytes: the answer is an error, or the number of bytes stored, which is at most the number requested and fits the
  response buffer. The buffer can be overrun for requests of more than 244 bytes, and only for those.\<close>

theorem tpm_get_random_bounds:
  assumes "length (snd stk) = 256"
  shows "(case tpm_get_random V stk sz d of
      None \<Rightarrow> 244 < unat sz
    | Some (r, bs, d') \<Rightarrow> r = -1 \<and> bs = [] \<or> r = int (length bs) \<and> length bs \<le> unat sz \<and> length bs \<le> 244) \<and>
    (\<exists>(chip :: nat tpm_dev) buf n. length (snd buf) = 256 \<and> tpm_get_random chip buf 300 n = None)"
proof -
  have rf: "length (fst (read_fifo V n d)) = n" for n d by (induction n arbitrary: d) (simp_all add: split_beta)
  have len: "length (fst (snd (tpm_send_command V cmd (snd stk) 256 d))) = 256" for cmd d
  proof -
    have "unat (if x > (256 :: u32) then 256 else x) \<le> 256" for x by (simp add: word_less_nat_alt not_less)
    then show ?thesis using assms rf by (auto simp: tpm_send_command_def Let_def split_beta copy_at_def)
  qed
  have "sint (n :: u32) = int (unat n)" if "unat n \<le> 244" for n using that sint_u32_nat [of "unat n"] by simp
  then have "case tpm_get_random V stk sz d of
      None \<Rightarrow> 244 < unat sz
    | Some (r, bs, d') \<Rightarrow> r = -1 \<and> bs = [] \<or> r = int (length bs) \<and> length bs \<le> unat sz \<and> length bs \<le> 244"
    using len by (auto simp: tpm_get_random_def Let_def split_beta copy_random_def word_less_nat_alt)
  moreover have "length (snd (replicate 64 0 :: u8 list, replicate 256 0 :: u8 list)) = 256" by simp
  ultimately show ?thesis using chatty_chip_overruns by blast
qed

theorem tpm_get_random_bounds_witness:
  "case tpm_get_random chatty_chip (replicate 64 0, replicate 256 0) 8 0 of
      None \<Rightarrow> 244 < unat (8 :: u32)
    | Some (r, bs, d') \<Rightarrow> r = -1 \<and> bs = [] \<or> r = int (length bs) \<and> length bs \<le> unat (8 :: u32) \<and> length bs \<le> 244"
  using tpm_get_random_bounds [where stk = "(replicate 64 0, replicate 256 0)" and V = chatty_chip and sz = 8 and d = 0] by simp

end
