(* ===== verification/CK_Sha512.thy ===== *)
theory CK_Sha512
  imports CK_KernelH
begin

text \<open>
  Model of the hash function in \<open>boot/secure/verify_signature.c\<close>. Byte arrays are lists; the length
  argument of a function is the length of the list, and no object in memory has more than
  \<open>2 ^ 64 - 129\<close> bytes, so that the loop counters do not wrap around. The bit counter is kept at its
  width. What the context holds before \<open>sha512_init\<close> is an argument.
\<close>

unbundle bit_operations_syntax

section \<open>Data\<close>

record sha512_context =
  sha_state :: "u64 list"
  sha_count :: u64
  sha_buffer :: "u8 list"

text \<open>The table, in the rows of the source.\<close>

definition sha512_k_rows :: "(u64 \<times> u64) list" where
  "sha512_k_rows =
     [(0x428a2f98d728ae22, 0x7137449123ef65cd), (0xb5c0fbcfec4d3b2f, 0xe9b5dba58189dbbc),
      (0x3956c25bf348b538, 0x59f111f1b605d019), (0x923f82a4af194f9b, 0xab1c5ed5da6d8118),
      (0xd807aa98a3030242, 0x12835b0145706fbe), (0x243185be4ee4b28c, 0x550c7dc3d5ffb4e2),
      (0x72be5d74f27b896f, 0x80deb1fe3b1696b1), (0x9bdc06a725c71235, 0xc19bf174cf692694),
      (0xe49b69c19ef14ad2, 0xefbe4786384f25e3), (0x0fc19dc68b8cd5b5, 0x240ca1cc77ac9c65),
      (0x2de92c6f592b0275, 0x4a7484aa6ea6e483), (0x5cb0a9dcbd41fbd4, 0x76f988da831153b5),
      (0x983e5152ee66dfab, 0xa831c66d2db43210), (0xb00327c898fb213f, 0xbf597fc7beef0ee4),
      (0xc6e00bf33da88fc2, 0xd5a79147930aa725), (0x06ca6351e003826f, 0x142929670a0e6e70),
      (0x27b70a8546d22ffc, 0x2e1b21385c26c926), (0x4d2c6dfc5ac42aed, 0x53380d139d95b3df),
      (0x650a73548baf63de, 0x766a0abb3c77b2a8), (0x81c2c92e47edaee6, 0x92722c851482353b),
      (0xa2bfe8a14cf10364, 0xa81a664bbc423001), (0xc24b8b70d0f89791, 0xc76c51a30654be30),
      (0xd192e819d6ef5218, 0xd69906245565a910), (0xf40e35855771202a, 0x106aa07032bbd1b8),
      (0x19a4c116b8d2d0c8, 0x1e376c085141ab53), (0x2748774cdf8eeb99, 0x34b0bcb5e19b48a8),
      (0x391c0cb3c5c95a63, 0x4ed8aa4ae3418acb), (0x5b9cca4f7763e373, 0x682e6ff3d6b2b8a3),
      (0x748f82ee5defb2fc, 0x78a5636f43172f60), (0x84c87814a1f0ab72, 0x8cc702081a6439ec),
      (0x90befffa23631e28, 0xa4506cebde82bde9), (0xbef9a3f7b2c67915, 0xc67178f2e372532b),
      (0xca273eceea26619c, 0xd186b8c721c0c207), (0xeada7dd6cde0eb1e, 0xf57d4f7fee6ed178),
      (0x06f067aa72176fba, 0x0a637dc5a2c898a6), (0x113f9804bef90dae, 0x1b710b35131c471b),
      (0x28db77f523047d84, 0x32caab7b40c72493), (0x3c9ebe0a15c9bebc, 0x431d67c49c100d4c),
      (0x4cc5d4becb3e42b6, 0x597f299cfc657e2a), (0x5fcb6fab3ad6faec, 0x6c44198c4a475817)]"

definition sha512_k :: "u64 list" where
  "sha512_k = concat (map (\<lambda>(a, b). [a, b]) sha512_k_rows)"

section \<open>Macros\<close>

definition ROT_RIGHT64 :: "u64 \<Rightarrow> nat \<Rightarrow> u64" where
  "ROT_RIGHT64 x n = drop_bit n x OR push_bit (64 - n) x"

definition CH :: "u64 \<Rightarrow> u64 \<Rightarrow> u64 \<Rightarrow> u64" where
  "CH x y z = (x AND y) XOR (NOT x AND z)"

definition MAJ :: "u64 \<Rightarrow> u64 \<Rightarrow> u64 \<Rightarrow> u64" where
  "MAJ x y z = (x AND y) XOR (x AND z) XOR (y AND z)"

definition EP0 :: "u64 \<Rightarrow> u64" where
  "EP0 x = ROT_RIGHT64 x 28 XOR ROT_RIGHT64 x 34 XOR ROT_RIGHT64 x 39"

definition EP1 :: "u64 \<Rightarrow> u64" where
  "EP1 x = ROT_RIGHT64 x 14 XOR ROT_RIGHT64 x 18 XOR ROT_RIGHT64 x 41"

definition SIG0 :: "u64 \<Rightarrow> u64" where
  "SIG0 x = ROT_RIGHT64 x 1 XOR ROT_RIGHT64 x 8 XOR drop_bit 7 x"

definition SIG1 :: "u64 \<Rightarrow> u64" where
  "SIG1 x = ROT_RIGHT64 x 19 XOR ROT_RIGHT64 x 61 XOR drop_bit 6 x"

section \<open>Compression\<close>

definition sha512_init :: "sha512_context \<Rightarrow> sha512_context" where
  "sha512_init ctx =
     ctx\<lparr>sha_state :=
       [0x6a09e667f3bcc908, 0xbb67ae8584caa73b, 0x3c6ef372fe94f82b, 0xa54ff53a5f1d36f1,
        0x510e527fade682d1, 0x9b05688c2b3e6c1f, 0x1f83d9abfb41bd6b, 0x5be0cd19137e2179],
       sha_count := 0\<rparr>"

definition load_be :: "u8 list \<Rightarrow> nat \<Rightarrow> u64" where
  "load_be bytes i =
     push_bit 56 (ucast (bytes ! (i * 8))) OR push_bit 48 (ucast (bytes ! (i * 8 + 1))) OR
     push_bit 40 (ucast (bytes ! (i * 8 + 2))) OR push_bit 32 (ucast (bytes ! (i * 8 + 3))) OR
     push_bit 24 (ucast (bytes ! (i * 8 + 4))) OR push_bit 16 (ucast (bytes ! (i * 8 + 5))) OR
     push_bit 8 (ucast (bytes ! (i * 8 + 6))) OR ucast (bytes ! (i * 8 + 7))"

text \<open>The second loop of the message schedule; \<open>n\<close> words are left.\<close>

fun extend_schedule :: "nat \<Rightarrow> u64 list \<Rightarrow> u64 list" where
  "extend_schedule 0 w = w"
| "extend_schedule (Suc n) w =
     (let i = length w in
      extend_schedule n (w @ [SIG1 (w ! (i - 2)) + w ! (i - 7) + SIG0 (w ! (i - 15)) + w ! (i - 16)]))"

definition message_schedule :: "u8 list \<Rightarrow> u64 list" where
  "message_schedule bytes = extend_schedule 64 (map (load_be bytes) [0..<16])"

type_synonym work = "u64 \<times> u64 \<times> u64 \<times> u64 \<times> u64 \<times> u64 \<times> u64 \<times> u64"

fun sha512_round :: "work \<Rightarrow> u64 \<times> u64 \<Rightarrow> work" where
  "sha512_round (a, b, c, d, e, f, g, h) (k, w) =
     (let t1 = h + EP1 e + CH e f g + k + w; t2 = EP0 a + MAJ a b c in (t1 + t2, a, b, c, d + t1, e, f, g))"

definition sha512_transform :: "sha512_context \<Rightarrow> u8 list \<Rightarrow> sha512_context" where
  "sha512_transform ctx bytes =
     (let s = sha_state ctx;
          (a, b, c, d, e, f, g, h) =
            foldl sha512_round (s ! 0, s ! 1, s ! 2, s ! 3, s ! 4, s ! 5, s ! 6, s ! 7) (zip sha512_k (message_schedule bytes))
      in ctx\<lparr>sha_state := [s ! 0 + a, s ! 1 + b, s ! 2 + c, s ! 3 + d, s ! 4 + e, s ! 5 + f, s ! 6 + g, s ! 7 + h]\<rparr>)"

section \<open>Streaming\<close>

definition sha_index :: "sha512_context \<Rightarrow> nat" where
  "sha_index ctx = unat ((sha_count ctx div 8) mod 128)"

function update_blocks :: "sha512_context \<Rightarrow> u8 list \<Rightarrow> nat \<Rightarrow> sha512_context \<times> nat" where
  "update_blocks ctx bytes i =
     (if i + 128 \<le> length bytes then update_blocks (sha512_transform ctx (take 128 (drop i bytes))) bytes (i + 128) else (ctx, i))"
  by pat_completeness auto
termination
  by (relation "measure (\<lambda>(ctx, bytes, i). length bytes - i)") auto

declare update_blocks.simps [simp del]

definition sha512_update :: "sha512_context \<Rightarrow> u8 list \<Rightarrow> sha512_context" where
  "sha512_update ctx bytes =
     (let index = sha_index ctx;
          ctx1 = ctx\<lparr>sha_count := sha_count ctx + of_nat (length bytes) * 8\<rparr>;
          part_len = 128 - index;
          (ctx2, i, index2) =
            (if length bytes \<ge> part_len then
               (let c = ctx1\<lparr>sha_buffer := copy_at index (take part_len bytes) (sha_buffer ctx1)\<rparr>;
                    (c', i) = update_blocks (sha512_transform c (sha_buffer c)) bytes part_len in (c', i, 0))
             else (ctx1, 0, index))
      in ctx2\<lparr>sha_buffer := copy_at index2 (drop i bytes) (sha_buffer ctx2)\<rparr>)"

definition padding :: "u8 list" where
  "padding = 0x80 # replicate 127 0"

definition be_bytes :: "u64 \<Rightarrow> u8 list" where
  "be_bytes v = map (\<lambda>i. ucast (drop_bit (56 - i * 8) v AND 0xFF)) [0..<8]"

definition sha512_final :: "sha512_context \<Rightarrow> u8 list \<times> sha512_context" where
  "sha512_final ctx =
     (let index = sha_index ctx;
          pad_len = (if index < 112 then 112 - index else 240 - index);
          ctx1 = sha512_update ctx (take pad_len padding);
          len_bytes = be_bytes (sha_count ctx1) @ replicate 8 0;
          ctx2 = sha512_update ctx1 len_bytes
      in (concat (map be_bytes (sha_state ctx2)), ctx2))"

definition compute_hash :: "sha512_context \<Rightarrow> u8 list \<Rightarrow> u8 list" where
  "compute_hash junk bytes = fst (sha512_final (sha512_update (sha512_init junk) bytes))"

end
