(* ===== verification/CK_Sha512_Inv.thy ===== *)
theory CK_Sha512_Inv
  imports CK_Sha512
begin

text \<open>
  Streaming: what a context stands for is the chaining value and the bytes that wait for a full
  block, and \<open>sha512_update\<close> feeds bytes to it.
\<close>

unbundle bit_operations_syntax

section \<open>Incremental functions\<close>

locale incremental =
  fixes good :: "'c \<Rightarrow> bool" and upd :: "'c \<Rightarrow> 'a list \<Rightarrow> 'c" and view :: "'c \<Rightarrow> 'b" and feed :: "'b \<Rightarrow> 'a list \<Rightarrow> 'b"
  assumes upd_good: "good c \<Longrightarrow> good (upd c xs)"
    and upd_view: "good c \<Longrightarrow> view (upd c xs) = feed (view c) xs"
    and feed_append: "good c \<Longrightarrow> feed (feed (view c) xs) ys = feed (view c) (xs @ ys)"
    and feed_Nil: "good c \<Longrightarrow> feed (view c) [] = view c"
begin

lemma pieces: "good c \<Longrightarrow> good (foldl upd c xss) \<and> view (foldl upd c xss) = feed (view c) (concat xss)"
proof (induction xss arbitrary: c)
  case (Cons xs xss)
  have "view (foldl upd (upd c xs) xss) = feed (view (upd c xs)) (concat xss)" using Cons upd_good by simp
  then show ?case using Cons upd_good upd_view feed_append by simp
qed (simp add: feed_Nil)

lemma same_pieces: "good c \<Longrightarrow> concat xss = concat yss \<Longrightarrow> view (foldl upd c xss) = view (foldl upd c yss)"
  using pieces by simp

end

section \<open>Blocks\<close>

definition compress :: "u64 list \<Rightarrow> u8 list \<Rightarrow> u64 list" where
  "compress st block = sha_state (sha512_transform \<lparr>sha_state = st, sha_count = 0, sha_buffer = []\<rparr> block)"

lemma transform_compress: "sha512_transform ctx block = ctx\<lparr>sha_state := compress (sha_state ctx) block\<rparr>"
  by (simp add: compress_def sha512_transform_def Let_def split_beta)

lemma length_compress [simp]: "length (compress st block) = 8"
  by (simp add: compress_def sha512_transform_def Let_def split_beta)

text \<open>All full blocks of a byte string are compressed, the rest waits.\<close>

function absorb :: "u64 list \<Rightarrow> u8 list \<Rightarrow> u64 list \<times> u8 list" where
  "absorb st xs = (if length xs < 128 then (st, xs) else absorb (compress st (take 128 xs)) (drop 128 xs))"
  by pat_completeness auto
termination
  by (relation "measure (\<lambda>(st, xs). length xs)") auto

declare absorb.simps [simp del]

lemma absorb_rest: "length (snd (absorb st xs)) = length xs mod 128"
proof (induction st xs rule: absorb.induct)
  case (1 st xs)
  then show ?case by (simp add: absorb.simps [of st xs] le_mod_geq)
qed

lemma absorb_block: "128 \<le> length xs \<Longrightarrow> absorb st xs = absorb (compress st (take 128 xs)) (drop 128 xs)"
  by (simp add: absorb.simps [of st xs])

lemma length_absorb: "length st = 8 \<Longrightarrow> length (fst (absorb st xs)) = 8"
proof (induction st xs rule: absorb.induct)
  case (1 st xs)
  then show ?case by (simp add: absorb.simps [of st xs])
qed

lemma absorb_append: "absorb st (xs @ ys) = absorb (fst (absorb st xs)) (snd (absorb st xs) @ ys)"
proof (induction st xs rule: absorb.induct)
  case (1 st xs)
  show ?case
  proof (cases "length xs < 128")
    case True
    then show ?thesis by (simp add: absorb.simps [of st xs])
  next
    case False
    then show ?thesis using 1 by (simp add: absorb.simps [of st xs] absorb.simps [of st "xs @ ys"])
  qed
qed

lemma absorb_small: "length xs < 128 \<Longrightarrow> absorb st xs = (st, xs)"
  by (simp add: absorb.simps)

lemma update_blocks_run:
  assumes "i \<le> length bytes"
  shows "\<exists>i'. update_blocks ctx bytes i = (ctx\<lparr>sha_state := fst (absorb (sha_state ctx) (drop i bytes))\<rparr>, i') \<and>
    drop i' bytes = snd (absorb (sha_state ctx) (drop i bytes))"
  using assms
proof (induction ctx bytes i rule: update_blocks.induct)
  case (1 ctx bytes i)
  show ?case
  proof (cases "i + 128 \<le> length bytes")
    case True
    then have "absorb (sha_state ctx) (drop i bytes) = absorb (compress (sha_state ctx) (take 128 (drop i bytes))) (drop (i + 128) bytes)"
      using absorb_block [of "drop i bytes" "sha_state ctx"] by (simp add: add.commute)
    then show ?thesis using 1 True by (simp add: update_blocks.simps [of ctx] transform_compress)
  next
    case False
    then show ?thesis by (simp add: update_blocks.simps [of ctx] absorb_small)
  qed
qed

section \<open>Contexts\<close>

definition sha_wf :: "sha512_context \<Rightarrow> bool" where
  "sha_wf ctx \<longleftrightarrow> length (sha_state ctx) = 8 \<and> length (sha_buffer ctx) = 128 \<and> 8 dvd unat (sha_count ctx)"

definition sha_view :: "sha512_context \<Rightarrow> u64 list \<times> u8 list" where
  "sha_view ctx = (sha_state ctx, take (sha_index ctx) (sha_buffer ctx))"

definition sha_feed :: "u64 list \<times> u8 list \<Rightarrow> u8 list \<Rightarrow> u64 list \<times> u8 list" where
  "sha_feed v xs = absorb (fst v) (snd v @ xs)"

lemma sha_index_less: "sha_index ctx < 128"
  by (simp add: sha_index_def unat_mod_distrib)

lemma unat_count: "unat (c + of_nat n * 8 :: u64) = (unat c + 8 * n) mod 2 ^ 64"
proof -
  have "c + of_nat n * 8 = (of_nat (unat c + 8 * n) :: u64)" by (simp add: mult.commute)
  then show ?thesis by (simp only: unsigned_of_nat) (simp add: take_bit_eq_mod)
qed

lemma sha_index_add:
  assumes "8 dvd unat c"
  shows "unat ((c + of_nat n * 8 :: u64) div 8 mod 128) = (unat (c div 8 mod 128) + n) mod 128" "8 dvd unat (c + of_nat n * 8 :: u64)"
proof -
  obtain m where m: "unat c = 8 * m" using assms by blast
  have u: "unat (c + of_nat n * 8 :: u64) = 8 * ((m + n) mod 2 ^ 61)"
    unfolding unat_count m using mult_mod_right [of 8 "m + n" "2 ^ 61"] by (simp add: distrib_left)
  then show "8 dvd unat (c + of_nat n * 8 :: u64)" by simp
  have "(m + n) mod 2 ^ 61 mod 128 = (m + n) mod (128 :: nat)" by (rule mod_mod_cancel) simp
  then show "unat ((c + of_nat n * 8 :: u64) div 8 mod 128) = (unat (c div 8 mod 128) + n) mod 128"
    by (simp add: unat_mod_distrib unat_div_distrib u m mod_add_left_eq)
qed

lemma sha512_update_view:
  assumes "sha_wf ctx"
  shows "sha_wf (sha512_update ctx bytes) \<and> sha_view (sha512_update ctx bytes) = sha_feed (sha_view ctx) bytes \<and>
    sha_count (sha512_update ctx bytes) = sha_count ctx + of_nat (length bytes) * 8"
proof -
  define k where "k = sha_index ctx"
  define c1 where "c1 = ctx\<lparr>sha_count := sha_count ctx + of_nat (length bytes) * 8\<rparr>"
  have k: "k < 128" using sha_index_less by (simp add: k_def)
  have wf: "length (sha_state ctx) = 8" "length (sha_buffer ctx) = 128" "8 dvd unat (sha_count ctx)" using assms by (auto simp: sha_wf_def)
  have ix: "sha_index c = (k + length bytes) mod 128" if "sha_count c = sha_count ctx + of_nat (length bytes) * 8" for c
    using sha_index_add(1) [OF wf(3)] by (simp add: sha_index_def k_def that)
  have dv: "8 dvd unat (sha_count ctx + of_nat (length bytes) * 8)" using sha_index_add(2) [OF wf(3)] .
  show ?thesis
  proof (cases "128 - k \<le> length bytes")
    case False
    then have u: "sha512_update ctx bytes = c1\<lparr>sha_buffer := copy_at k bytes (sha_buffer ctx)\<rparr>"
      by (simp add: sha512_update_def Let_def k_def c1_def)
    have l: "k + length bytes < 128" using False k by simp
    then show ?thesis using ix [of "sha512_update ctx bytes"] wf dv copy_at_facts [of k bytes "sha_buffer ctx"] k
      by (simp add: u c1_def sha_wf_def sha_view_def sha_feed_def absorb_small k_def)
  next
    case True
    define b where "b = copy_at k (take (128 - k) bytes) (sha_buffer ctx)"
    define st where "st = compress (sha_state ctx) b"
    have b: "b = take k (sha_buffer ctx) @ take (128 - k) bytes" using wf(2) k True by (simp add: b_def copy_at_def)
    obtain i where i: "update_blocks (c1\<lparr>sha_buffer := b, sha_state := st\<rparr>) bytes (128 - k) =
        (c1\<lparr>sha_buffer := b, sha_state := fst (absorb st (drop (128 - k) bytes))\<rparr>, i)"
        "drop i bytes = snd (absorb st (drop (128 - k) bytes))"
      using update_blocks_run [OF True, of "c1\<lparr>sha_buffer := b, sha_state := st\<rparr>"] by auto
    define r where "r = snd (absorb st (drop (128 - k) bytes))"
    have u: "sha512_update ctx bytes = c1\<lparr>sha_buffer := copy_at 0 r b, sha_state := fst (absorb st (drop (128 - k) bytes))\<rparr>"
      using True i by (simp add: sha512_update_def Let_def k_def [symmetric] c1_def b_def st_def transform_compress r_def)
    have "absorb (sha_state ctx) (take k (sha_buffer ctx) @ bytes) = absorb st (drop (128 - k) bytes)"
      using absorb_block [of "take k (sha_buffer ctx) @ bytes" "sha_state ctx"] True k wf(2) by (simp add: st_def b)
    then have v: "sha_feed (sha_view ctx) bytes = (fst (absorb st (drop (128 - k) bytes)), r)"
      by (simp add: sha_feed_def sha_view_def k_def [symmetric] r_def)
    have "(k + length bytes) mod 128 = (length bytes - (128 - k)) mod 128"
      using True k le_mod_geq [of 128 "k + length bytes"] by (simp add: add.commute)
    then have r: "length r = (k + length bytes) mod 128" by (simp add: r_def absorb_rest)
    have lb: "length b = 128" using k wf(2) True by (simp add: b)
    have "copy_at 0 r b = r @ drop (length r) b" by (simp add: copy_at_def)
    moreover have "sha_index (sha512_update ctx bytes) = length r" unfolding r by (rule ix) (simp add: u c1_def)
    moreover have "length (fst (absorb st xs)) = 8" for xs by (rule length_absorb) (simp add: st_def)
    ultimately show ?thesis using v dv lb r by (simp add: u c1_def sha_wf_def sha_view_def)
  qed
qed

interpretation sha: incremental sha_wf sha512_update sha_view sha_feed
proof
  fix c xs ys
  assume "sha_wf c"
  then show "sha_wf (sha512_update c xs)" "sha_view (sha512_update c xs) = sha_feed (sha_view c) xs"
    using sha512_update_view by blast+
  show "sha_feed (sha_feed (sha_view c) xs) ys = sha_feed (sha_view c) (xs @ ys)"
    using absorb_append [of "sha_state c" "snd (sha_view c) @ xs" ys] by (simp add: sha_feed_def sha_view_def)
  show "sha_feed (sha_view c) [] = sha_view c"
    using sha_index_less [of c] by (simp add: sha_feed_def sha_view_def absorb_small min.strict_coboundedI2)
qed

end
