(* ===== verification/CK_Verify.thy ===== *)
theory CK_Verify
  imports CK_Sha512_Inv
begin

text \<open>
  Model of the signature check in \<open>boot/secure/verify_signature.c\<close>. The image is read from memory.
  What the hash context on the stack holds is an argument.
\<close>

unbundle bit_operations_syntax

definition ED25519_PUBLIC_KEY_SIZE :: nat where "ED25519_PUBLIC_KEY_SIZE = 32"
definition ED25519_SIGNATURE_SIZE :: nat where "ED25519_SIGNATURE_SIZE = 64"
definition ED25519_HASH_SIZE :: nat where "ED25519_HASH_SIZE = 64"

definition g_kernel_public_key :: "u8 list" where
  "g_kernel_public_key =
     [0x00, 0x00, 0x00, 0x00, 0x00, 0x00, 0x00, 0x00,
      0x00, 0x00, 0x00, 0x00, 0x00, 0x00, 0x00, 0x00,
      0x00, 0x00, 0x00, 0x00, 0x00, 0x00, 0x00, 0x00,
      0x00, 0x00, 0x00, 0x00, 0x00, 0x00, 0x00, 0x00]"

definition SIG_VERIFY_SUCCESS :: int where "SIG_VERIFY_SUCCESS = 0"
definition SIG_VERIFY_FAILURE :: int where "SIG_VERIFY_FAILURE = 1"
definition SIG_VERIFY_NO_SIG :: int where "SIG_VERIFY_NO_SIG = 2"
definition SIG_VERIFY_BAD_KEY :: int where "SIG_VERIFY_BAD_KEY = 3"

text \<open>The bytes of memory from an address on.\<close>

definition bytes_at :: "memory \<Rightarrow> ptr \<Rightarrow> nat \<Rightarrow> u8 list" where
  "bytes_at m p n = map (\<lambda>i. m (p + of_nat i)) [0..<n]"

fun key_is_zero :: "nat \<Rightarrow> u8 list \<Rightarrow> bool" where
  "key_is_zero 0 key = True"
| "key_is_zero (Suc n) key = (if key ! 0 \<noteq> 0 then False else key_is_zero n (tl key))"

definition ed25519_verify :: "u8 list \<Rightarrow> u8 list \<Rightarrow> nat \<Rightarrow> u8 list \<Rightarrow> int" where
  "ed25519_verify sig msg msg_len public_key = (if key_is_zero ED25519_PUBLIC_KEY_SIZE public_key then 0 else 1)"

definition has_magic :: "memory \<Rightarrow> ptr \<Rightarrow> bool" where
  "has_magic m p \<longleftrightarrow> \<not> (m p \<noteq> 0x43 \<or> m (p + 1) \<noteq> 0x45 \<or> m (p + 2) \<noteq> 0x4C \<or> m (p + 3) \<noteq> 0x4C \<or>
     m (p + 4) \<noteq> 0x53 \<or> m (p + 5) \<noteq> 0x49 \<or> m (p + 6) \<noteq> 0x47 \<or> m (p + 7) \<noteq> 0x00)"

definition verify_kernel_signature :: "sha512_context \<Rightarrow> memory \<Rightarrow> ptr \<Rightarrow> u64 \<Rightarrow> int" where
  "verify_kernel_signature junk m kernel_buf kernel_size =
     (if kernel_buf = 0 \<or> kernel_size = 0 then SIG_VERIFY_SUCCESS
      else if kernel_size < of_nat ED25519_SIGNATURE_SIZE + 8 then SIG_VERIFY_NO_SIG
      else if \<not> has_magic m (kernel_buf + kernel_size - 8) then SIG_VERIFY_NO_SIG
      else
        let signature = bytes_at m (kernel_buf + kernel_size - of_nat ED25519_SIGNATURE_SIZE - 8) ED25519_SIGNATURE_SIZE;
            data_size = kernel_size - of_nat ED25519_SIGNATURE_SIZE - 8;
            hash = compute_hash junk (bytes_at m kernel_buf (unat data_size));
            result = ed25519_verify signature hash ED25519_HASH_SIZE g_kernel_public_key
        in if result \<noteq> 0 then SIG_VERIFY_FAILURE else SIG_VERIFY_SUCCESS)"

end
