(* ===== verification/CK_Efi.thy ===== *)
theory CK_Efi
  imports CK_Verify CK_Tpm CK_Serial
begin

text \<open>
  Model of the loader in \<open>boot/efi\<close>: \<open>efi_main.c\<close> and what it uses of \<open>protocols.h\<close>. The functions of
  the firmware are the argument \<open>F\<close> and change its state \<open>'f\<close>, which includes the TPM chip; they are
  called through the table slots that the code names. Entering the kernel ends the loader.
\<close>

unbundle bit_operations_syntax

section \<open>Data\<close>

definition EFI_SUCCESS :: u64 where "EFI_SUCCESS = 0"
definition EFI_DEVICE_ERROR :: u64 where "EFI_DEVICE_ERROR = 7"
definition EFI_NOT_FOUND :: u64 where "EFI_NOT_FOUND = 14"
definition EFI_SECURITY_VIOLATION :: u64 where "EFI_SECURITY_VIOLATION = 26"

record EFI_SYSTEM_TABLE =
  Signature :: ptr
  Revision :: u32
  HeaderSize :: u32
  CRC32 :: u32
  st_Reserved :: u32
  ConsoleInHandle :: ptr
  SimpleInputProtocol :: ptr
  ConsoleOutHandle :: ptr
  SimpleOutputProtocol :: ptr
  StandardErrorHandle :: ptr
  SimpleErrorOutputProtocol :: ptr
  RuntimeServices :: ptr
  BootServices :: ptr
  NumberOfTableEntries :: u32
  ConfigurationTable :: ptr

text \<open>The out parameters of the query for the memory map.\<close>

record map_info =
  map_size :: u64
  map_key :: u64
  desc_size :: u64
  desc_version :: u32

record 'f firmware =
  out_slot5 :: "ptr \<Rightarrow> string \<Rightarrow> 'f \<Rightarrow> 'f"
  boot_slot6 :: "ptr \<Rightarrow> map_info \<Rightarrow> ptr \<Rightarrow> 'f \<Rightarrow> int \<times> map_info \<times> 'f"
  boot_slot4 :: "ptr \<Rightarrow> u64 \<Rightarrow> 'f \<Rightarrow> int \<times> ptr \<times> 'f"
  boot_slot11 :: "ptr \<Rightarrow> u64 \<Rightarrow> 'f \<Rightarrow> int \<times> 'f"

datatype efi_result = Returned u64 | Kernel_entered ptr u64 u64

text \<open>The slots of the two tables in \<open>protocols.h\<close>, 8 bytes each; the header of the boot services has 16 bytes.\<close>

definition boot_services_slots :: "string list" where
  "boot_services_slots =
     [''Hdr'', ''Hdr'', ''RaisePriority'', ''RestorePriority'', ''AllocatePages'', ''FreePages'', ''GetMemoryMap'', ''AllocatePool'',
      ''FreePool'', ''CreateEvent'', ''SetTimer'', ''WaitForEvent'', ''SignalEvent'', ''CloseEvent'', ''CheckEvent'',
      ''InstallProtocolInterface'', ''ReinstallProtocolInterface'', ''UninstallProtocolInterface'', ''HandleProtocol'', ''Reserved'',
      ''RegisterProtocolNotify'', ''LocateHandle'', ''LocateDevicePath'', ''InstallConfigurationTable'', ''LoadImage'', ''StartImage'',
      ''Exit'', ''UnloadImage'', ''ExitBootServices'', ''GetNextMonotonicCount'', ''Stall'', ''SetWatchdogTimer'', ''ConnectController'',
      ''DisconnectController'', ''OpenProtocol'', ''CloseProtocol'', ''OpenProtocolInformation'', ''ProtocolsPerHandle'',
      ''LocateHandleBuffer'', ''LocateProtocol'', ''InstallMultipleProtocolInterfaces'', ''UninstallMultipleProtocolInterfaces'',
      ''CalculateCrc32'', ''CopyMem'', ''SetMem'', ''CreateEventEx'']"

definition text_output_slots :: "string list" where
  "text_output_slots =
     [''Reset'', ''OutputString'', ''TestString'', ''QueryMode'', ''SetMode'', ''SetAttribute'', ''ClearScreen'', ''SetCursorPosition'',
      ''EnableCursor'', ''Mode'']"

section \<open>Output\<close>

text \<open>The global \<open>gST\<close> is the argument \<open>gST\<close>, \<open>None\<close> for a null pointer.\<close>

definition efi_print :: "'f firmware \<Rightarrow> EFI_SYSTEM_TABLE option \<Rightarrow> string \<Rightarrow> 'f \<Rightarrow> 'f" where
  "efi_print F gST str f =
     (case gST of None \<Rightarrow> f
      | Some st \<Rightarrow> if SimpleOutputProtocol st \<noteq> 0 then out_slot5 F (SimpleOutputProtocol st) str f else f)"

definition print_hex :: "'f firmware \<Rightarrow> EFI_SYSTEM_TABLE option \<Rightarrow> u64 \<Rightarrow> 'f \<Rightarrow> 'f" where
  "print_hex F gST val f = efi_print F gST (hex_fill 18 val (replicate 18 NUL)) f"

section \<open>Memory map and boot services\<close>

text \<open>The result is the buffer, 0 for a failure, and the out parameters.\<close>

definition get_memory_map :: "'f firmware \<Rightarrow> EFI_SYSTEM_TABLE \<Rightarrow> map_info \<Rightarrow> 'f \<Rightarrow> ptr \<times> map_info \<times> 'f" where
  "get_memory_map F st a f =
     (let a0 = a\<lparr>map_size := 0\<rparr>;
          (status, a1, f1) = boot_slot6 F (BootServices st) a0 0 f;
          (status, memory_map, f2) = boot_slot4 F (BootServices st) (map_size a1 + 256) f1
      in if status \<noteq> 0 then (0, a1, f2)
         else
           let (status, a2, f3) = boot_slot6 F (BootServices st) a1 memory_map f2
           in if status \<noteq> 0 then (0, a2, f3) else (memory_map, a2, f3))"

definition info_zero :: map_info where
  "info_zero = \<lparr>map_size = 0, map_key = 0, desc_size = 0, desc_version = 0\<rparr>"

definition exit_boot_services :: "'f firmware \<Rightarrow> EFI_SYSTEM_TABLE \<Rightarrow> ptr \<Rightarrow> ptr \<Rightarrow> 'f \<Rightarrow> u64 \<times> 'f" where
  "exit_boot_services F st image_handle memory_map f =
     (let (m, a, f1) = get_memory_map F st info_zero f;
          (status, f2) = boot_slot11 F image_handle (map_key a) f1
      in if status \<noteq> 0 then (1, f2) else (0, f2))"

section \<open>Entry point\<close>

definition CRLF :: string where "CRLF = [CHR 0x0D, CHR 0x0A]"

definition efi_main ::
  "'f firmware \<Rightarrow> 'f tpm_dev \<Rightarrow> u8 list \<times> u8 list \<Rightarrow> sha512_context \<Rightarrow> memory \<Rightarrow> ptr \<Rightarrow> EFI_SYSTEM_TABLE \<Rightarrow> 'f \<Rightarrow> efi_result \<times> 'f" where
  "efi_main F V stk junk m image_handle st f =
     (let p = (\<lambda>str. efi_print F (Some st) (str @ CRLF));
          f1 = p ''[*] Verifying kernel signature...'' (p ''=============================='' (p ''CellKernel EFI Bootloader v1.0'' f))
      in if verify_kernel_signature junk m 0 0 \<noteq> 0
         then (Returned EFI_SECURITY_VIOLATION, p ''[!] Signature verification failed!'' f1)
         else
           let f2 = p ''[*] Measuring kernel image to TPM...'' (p ''[+] Signature verified'' f1);
               (tpm_result, f3) = tpm_measure_image V stk m 0 0 11 f2
           in if tpm_result \<noteq> 0 then (Returned EFI_DEVICE_ERROR, p ''[!] TPM measurement failed!'' f3)
              else
                let f4 = p ''[*] Retrieving memory map...'' (p ''[+] TPM PCR extended'' f3);
                    (memory_map, a, f5) = get_memory_map F st info_zero f4
                in if memory_map = 0 then (Returned EFI_NOT_FOUND, p ''[!] Failed to get memory map'' f5)
                   else
                     let f6 = p ''[*] Exiting EFI boot services...'' (p ''[+] Memory map acquired'' f5);
                         (exit_status, f7) = exit_boot_services F st image_handle memory_map f6
                     in if exit_status \<noteq> 0 then (Returned exit_status, p ''[!] Failed to exit boot services'' f7)
                        else
                          let f8 = p ''[*] Handing over to kernel...'' (p ''[+] Boot services exited'' f7)
                          in (Kernel_entered memory_map (map_size a) (desc_size a), f8))"

end
