(* ===== verification/CK_Efi_Alt.thy ===== *)
theory CK_Efi_Alt
  imports CK_KernelH
begin

text \<open>
  Model of the second loader, \<open>CellKernel/boot/efi\<close>: \<open>efi_main.c\<close> and the types and macros of
  \<open>protocols.h\<close> that it uses. A status has 32 bits. The services of the firmware, the signature check,
  the measurement and the kernel are the argument \<open>F\<close> and change the state \<open>'f\<close>. Two expressions of the
  code have no value: the magic number of the handoff is not a C number and the system table has no
  member \<open>ImageHandle\<close>; both are arguments. Text is a list of 16-bit units. The query for the memory map
  is given the addresses of all four globals, so it may change each of them. Waiting for a key may
  never end, \<open>None\<close>. The system table itself is not null.
\<close>

unbundle bit_operations_syntax

section \<open>Types and macros\<close>

type_synonym EFI_STATUS = u32

definition efi_code :: "u64 \<Rightarrow> EFI_STATUS" where
  "efi_code n = ucast (n OR push_bit 31 1)"

text \<open>The status codes other than success, by name and number.\<close>

definition efi_codes :: "(string \<times> u64) list" where
  "efi_codes =
     [(''EFI_LOAD_ERROR'', 1), (''EFI_INVALID_PARAMETER'', 2), (''EFI_UNSUPPORTED'', 3), (''EFI_BAD_BUFFER_SIZE'', 4),
      (''EFI_BUFFER_TOO_SMALL'', 5), (''EFI_NOT_READY'', 6), (''EFI_DEVICE_ERROR'', 7), (''EFI_WRITE_PROTECTED'', 8),
      (''EFI_OUT_OF_RESOURCES'', 9), (''EFI_VOLUME_CORRUPTED'', 10), (''EFI_VOLUME_FULL'', 11), (''EFI_NO_MEDIA'', 12),
      (''EFI_MEDIA_CHANGED'', 13), (''EFI_NOT_FOUND'', 14), (''EFI_ACCESS_DENIED'', 15), (''EFI_NO_RESPONSE'', 16),
      (''EFI_NO_MAPPING'', 17), (''EFI_TIMEOUT'', 18), (''EFI_NOT_STARTED'', 19), (''EFI_ALREADY_STARTED'', 20),
      (''EFI_ABORTED'', 21), (''EFI_ICMP_ERROR'', 22), (''EFI_TFTP_ERROR'', 23), (''EFI_PROTOCOL_ERROR'', 24),
      (''EFI_INCOMPATIBLE_VERSION'', 25), (''EFI_SECURITY_VIOLATION'', 26), (''EFI_CRC_ERROR'', 27),
      (''EFI_END_OF_MEDIA'', 28), (''EFI_END_OF_FILE'', 31), (''EFI_INVALID_LANGUAGE'', 32), (''EFI_COMPROMISED_DATA'', 33)]"

definition EFI_SUCCESS_32 :: EFI_STATUS where "EFI_SUCCESS_32 = 0"
definition EFI_NOT_READY_32 :: EFI_STATUS where "EFI_NOT_READY_32 = efi_code 6"
definition EFI_SECURITY_VIOLATION_32 :: EFI_STATUS where "EFI_SECURITY_VIOLATION_32 = efi_code 26"

text \<open>\<open>((INTN)(Status)) < 0\<close>: the conversion of an unsigned 32-bit value to 64 bits.\<close>

definition EFI_ERROR :: "EFI_STATUS \<Rightarrow> bool" where
  "EFI_ERROR Status \<longleftrightarrow> sint (ucast Status :: 64 word) < 0"

datatype EFI_MEMORY_TYPE =
  EfiReservedMemoryType | EfiLoaderCode | EfiLoaderData | EfiBootServicesCode | EfiBootServicesData | EfiRuntimeServicesCode |
  EfiRuntimeServicesData | EfiConventionalMemory | EfiUnusableMemory | EfiACPIReclaimMemory | EfiACPIMemoryNVS |
  EfiMemoryMappedIO | EfiMemoryMappedIOPortSpace | EfiPalCode | EfiPersistentMemory | EfiMaxMemoryType

datatype EFI_ALLOCATE_TYPE = AllocateAnyPages | AllocateMaxAddress | AllocateAddress | MaxAllocateType

datatype EFI_RESET_TYPE = EfiResetCold | EfiResetWarm | EfiResetShutdown | EfiResetPlatformSpecific

type_synonym wtext = "16 word list"

record HandoffStruct =
  h_Magic :: u32
  h_Version :: u32
  h_MemoryMap :: ptr
  h_MemoryMapSize :: u64
  h_DescriptorSize :: u64
  h_DescriptorVersion :: u32
  h_SystemTable :: ptr
  h_Cmdline :: ptr

record loader_state =
  gMemoryMap :: ptr
  gMemoryMapSize :: u64
  gMemoryMapDescriptorSize :: u64
  gMemoryMapDescriptorVersion :: u32

record 'f services =
  has_con_out :: bool
  f_OutputString :: "wtext \<Rightarrow> 'f \<Rightarrow> 'f"
  f_ClearScreen :: "'f \<Rightarrow> 'f"
  f_SetCursorPosition :: "u64 \<Rightarrow> u64 \<Rightarrow> 'f \<Rightarrow> 'f"
  f_AllocatePages :: "EFI_ALLOCATE_TYPE \<Rightarrow> EFI_MEMORY_TYPE \<Rightarrow> u64 \<Rightarrow> 'f \<Rightarrow> EFI_STATUS \<times> ptr \<times> 'f"
  f_FreePages :: "ptr \<Rightarrow> u64 \<Rightarrow> 'f \<Rightarrow> EFI_STATUS \<times> 'f"
  f_GetMemoryMap :: "loader_state \<Rightarrow> 'f \<Rightarrow> EFI_STATUS \<times> loader_state \<times> u64 \<times> 'f"
  f_GetVariable :: "wtext \<Rightarrow> u64 \<Rightarrow> u8 \<Rightarrow> 'f \<Rightarrow> EFI_STATUS \<times> u64 \<times> u8 \<times> 'f"
  f_ExitBootServices :: "ptr \<Rightarrow> u64 \<Rightarrow> 'f \<Rightarrow> EFI_STATUS \<times> 'f"
  f_ReadKeyStroke :: "'f \<Rightarrow> EFI_STATUS \<times> 'f"
  f_Stall :: "u64 \<Rightarrow> 'f \<Rightarrow> 'f"
  f_ResetSystem :: "EFI_RESET_TYPE \<Rightarrow> EFI_STATUS \<Rightarrow> u64 \<Rightarrow> ptr \<Rightarrow> 'f \<Rightarrow> 'f"
  ext_verify :: "ptr \<Rightarrow> u64 \<Rightarrow> 'f \<Rightarrow> bool \<times> 'f"
  ext_measure :: "ptr \<Rightarrow> u64 \<Rightarrow> 'f \<Rightarrow> int \<times> 'f"
  ext_kernel :: "HandoffStruct \<Rightarrow> u64 \<Rightarrow> 'f \<Rightarrow> 'f"

section \<open>Console and memory\<close>

definition CRNL :: string where "CRNL = [CHR 0x0D, CHR 0x0A]"

definition wide :: "string \<Rightarrow> wtext" where
  "wide str = map of_char str"

text \<open>Only the format string is printed.\<close>

definition Print_wide :: "'f services \<Rightarrow> wtext \<Rightarrow> 'f \<Rightarrow> 'f" where
  "Print_wide F Format f = (if has_con_out F then f_OutputString F Format f else f)"

abbreviation Print_fmt :: "'f services \<Rightarrow> string \<Rightarrow> 'f \<Rightarrow> 'f" where
  "Print_fmt F str \<equiv> Print_wide F (wide str)"

definition ClearScreen :: "'f services \<Rightarrow> 'f \<Rightarrow> 'f" where
  "ClearScreen F f = (if has_con_out F then f_ClearScreen F f else f)"

definition SetCursorPosition :: "'f services \<Rightarrow> u64 \<Rightarrow> u64 \<Rightarrow> 'f \<Rightarrow> 'f" where
  "SetCursorPosition F Column Row f = (if has_con_out F then f_SetCursorPosition F Column Row f else f)"

definition AllocatePages :: "'f services \<Rightarrow> EFI_MEMORY_TYPE \<Rightarrow> u64 \<Rightarrow> 'f \<Rightarrow> EFI_STATUS \<times> ptr \<times> 'f" where
  "AllocatePages F Type Pages f = f_AllocatePages F AllocateAnyPages Type Pages f"

definition FreePages :: "'f services \<Rightarrow> ptr \<Rightarrow> u64 \<Rightarrow> 'f \<Rightarrow> EFI_STATUS \<times> 'f" where
  "FreePages F Address Pages f = f_FreePages F Address Pages f"

definition GetMemoryMap :: "'f services \<Rightarrow> loader_state \<Rightarrow> 'f \<Rightarrow> EFI_STATUS \<times> loader_state \<times> u64 \<times> 'f" where
  "GetMemoryMap F g f = f_GetMemoryMap F g f"

section \<open>Verification\<close>

definition VerifySecureBoot :: "'f services \<Rightarrow> 'f \<Rightarrow> bool \<times> 'f" where
  "VerifySecureBoot F f =
     (case f_GetVariable F (wide ''SecureBoot'') 1 0 f of (Status, DataSize, SecureBootEnabled, f1) \<Rightarrow>
        if EFI_ERROR Status then (False, Print_fmt F (''[WARN] Could not read SecureBoot variable'' @ CRNL) f1)
        else if SecureBootEnabled \<noteq> 0 then (True, Print_fmt F (''[INFO] Secure Boot is ENABLED'' @ CRNL) f1)
        else (False, Print_fmt F (''[INFO] Secure Boot is DISABLED'' @ CRNL) f1))"

definition VerifyKernelImage :: "'f services \<Rightarrow> ptr \<Rightarrow> u64 \<Rightarrow> 'f \<Rightarrow> bool \<times> 'f" where
  "VerifyKernelImage F KernelBase KernelSize f =
     (let f1 = Print_fmt F (''[INFO] Verifying kernel signature...'' @ CRNL) f;
          (SignatureValid, f2) = ext_verify F KernelBase KernelSize f1
      in if \<not> SignatureValid then (False, Print_fmt F (''[ERROR] Kernel signature verification FAILED!'' @ CRNL) f2)
         else
           let f3 = Print_fmt F (''[OK] Kernel signature verified'' @ CRNL) f2;
               (tpm_result, f4) = ext_measure F KernelBase KernelSize f3;
               f5 = (if tpm_result \<noteq> 0 then Print_fmt F (''[WARN] TPM measurement failed (code: %d)'' @ CRNL) f4
                     else Print_fmt F (''[OK] Kernel measured into TPM PCR'' @ CRNL) f4)
           in (True, f5))"

section \<open>Loading\<close>

text \<open>The result: the status, the globals, and the handoff if the kernel was entered. \<open>kernel_start\<close> and \<open>kernel_end\<close> are addresses
  of the linker script, \<open>st\<close> and \<open>cmdline\<close> those of the system table and of the command line.\<close>

definition sizeof_HandoffStruct :: u64 where "sizeof_HandoffStruct = 56"

definition LoadAndStartKernel ::
  "'f services \<Rightarrow> u32 \<Rightarrow> ptr \<Rightarrow> ptr \<Rightarrow> ptr \<Rightarrow> ptr \<Rightarrow> ptr \<Rightarrow> loader_state \<Rightarrow> 'f \<Rightarrow> EFI_STATUS \<times> HandoffStruct option \<times> loader_state \<times> 'f" where
  "LoadAndStartKernel F magic handle kernel_start kernel_end st cmdline g f =
     (let KernelBase = kernel_start; KernelSize = kernel_end - kernel_start;
          f1 = Print_fmt F (''[INFO] Kernel size: %lu bytes'' @ CRNL) (Print_fmt F (CRNL @ ''[INFO] Kernel image at: 0x%p'' @ CRNL) f);
          (ok, f2) = VerifyKernelImage F KernelBase KernelSize f1
      in if \<not> ok then (EFI_SECURITY_VIOLATION_32, None, g, Print_fmt F (''[FATAL] Kernel verification failed. Halting.'' @ CRNL) f2)
         else
           let Handoff = \<lparr>h_Magic = magic, h_Version = 1, h_MemoryMap = gMemoryMap g, h_MemoryMapSize = gMemoryMapSize g,
                          h_DescriptorSize = gMemoryMapDescriptorSize g, h_DescriptorVersion = gMemoryMapDescriptorVersion g,
                          h_SystemTable = st, h_Cmdline = cmdline\<rparr>;
               f3 = Print_fmt F (''[INFO] Exiting boot services...'' @ CRNL) f2;
               (Status, g1, MapKey, f4) = GetMemoryMap F g f3
           in if EFI_ERROR Status then (Status, None, g1, Print_fmt F (''[ERROR] Failed to get memory map: 0x%x'' @ CRNL) f4)
              else
                let (Status, f5) = f_ExitBootServices F handle MapKey f4
                in if EFI_ERROR Status then (Status, None, g1, Print_fmt F (''[ERROR] ExitBootServices failed: 0x%x'' @ CRNL) f5)
                   else
                     let f6 = Print_fmt F (''[INFO] Jumping to kernel entry point...'' @ CRNL)
                                (Print_fmt F (''[OK] Boot services exited'' @ CRNL) f5);
                         f7 = SetCursorPosition F 0 0 (ClearScreen F f6);
                         f8 = ext_kernel F Handoff sizeof_HandoffStruct f7;
                         f9 = Print_fmt F (''[FATAL] Kernel returned! This should not happen.'' @ CRNL) f8
                     in (EFI_SUCCESS_32, Some Handoff, g1, f9))"

section \<open>Entry point\<close>

partial_function (option) wait_key :: "'f services \<Rightarrow> 'f \<Rightarrow> 'f option" where
  "wait_key F f =
     (case f_ReadKeyStroke F f of (Status, f1) \<Rightarrow>
        if Status = EFI_NOT_READY_32 then wait_key F (f_Stall F 10000 f1) else Some f1)"

text \<open>The banner, in a frame of box-drawing characters.\<close>

definition frame_line :: "16 word \<Rightarrow> wtext \<Rightarrow> 16 word \<Rightarrow> wtext" where
  "frame_line l mid r = [l] @ mid @ [r] @ wide CRNL"

definition loader_banner :: "wtext list" where
  "loader_banner =
     [frame_line 0x2554 (replicate 58 0x2550) 0x2557,
      frame_line 0x2551 (wide ''           CellKernel - Secure Microkernel OS            '') 0x2551,
      frame_line 0x2551 (wide ''                    EFI Bootloader v1.0                   '') 0x2551,
      frame_line 0x255A (replicate 58 0x2550) 0x255D @ wide CRNL]"

definition alt_efi_main ::
  "'f services \<Rightarrow> u32 \<Rightarrow> ptr \<Rightarrow> ptr \<Rightarrow> ptr \<Rightarrow> ptr \<Rightarrow> ptr \<Rightarrow> loader_state \<Rightarrow> 'f \<Rightarrow> (EFI_STATUS \<times> HandoffStruct option \<times> loader_state \<times> 'f) option" where
  "alt_efi_main F magic handle kernel_start kernel_end st cmdline g f =
     (let f1 = SetCursorPosition F 0 0 (ClearScreen F f);
          f2 = foldl (\<lambda>f str. Print_wide F str f) f1 loader_banner;
          (secure, f3) = VerifySecureBoot F f2;
          f4 = Print_fmt F (''[INFO] Initializing TPM 2.0...'' @ CRNL) f3;
          (Status, entered, g1, f5) = LoadAndStartKernel F magic handle kernel_start kernel_end st cmdline g f4
      in if EFI_ERROR Status then
           map_option (\<lambda>f7. (Status, entered, g1, f_ResetSystem F EfiResetCold EFI_SUCCESS_32 0 0 f7))
             (wait_key F (Print_fmt F (''Press any key to reboot...'' @ CRNL) (Print_fmt F (''[FATAL] Failed to load kernel: 0x%x'' @ CRNL) f5)))
         else Some (Status, entered, g1, f5))"

end
