(* ===== verification/CK_Verify_Props.thy ===== *)
theory CK_Verify_Props
  imports CK_Verify
begin

text \<open>
  The properties of the signature check: the compression function is the one of FIPS 180-4, bytes may
  be hashed in pieces, the padding is not the one of the standard, and which images are accepted.
\<close>

unbundle bit_operations_syntax

section \<open>The compression function of FIPS 180-4\<close>

definition fips_ch :: "u64 \<Rightarrow> u64 \<Rightarrow> u64 \<Rightarrow> u64" where "fips_ch x y z = (x AND y) OR (NOT x AND z)"
definition fips_maj :: "u64 \<Rightarrow> u64 \<Rightarrow> u64 \<Rightarrow> u64" where "fips_maj x y z = (x AND y) OR (x AND z) OR (y AND z)"
definition fips_S0 :: "u64 \<Rightarrow> u64" where "fips_S0 x = word_rotr 28 x XOR word_rotr 34 x XOR word_rotr 39 x"
definition fips_S1 :: "u64 \<Rightarrow> u64" where "fips_S1 x = word_rotr 14 x XOR word_rotr 18 x XOR word_rotr 41 x"
definition fips_s0 :: "u64 \<Rightarrow> u64" where "fips_s0 x = word_rotr 1 x XOR word_rotr 8 x XOR drop_bit 7 x"
definition fips_s1 :: "u64 \<Rightarrow> u64" where "fips_s1 x = word_rotr 19 x XOR word_rotr 61 x XOR drop_bit 6 x"

fun fips_w :: "u8 list \<Rightarrow> nat \<Rightarrow> u64" where
  "fips_w M t =
     (if t < 16 then word_rcat (take 8 (drop (8 * t) M))
      else fips_s1 (fips_w M (t - 2)) + fips_w M (t - 7) + fips_s0 (fips_w M (t - 15)) + fips_w M (t - 16))"

declare fips_w.simps [simp del]

fun fips_rounds :: "u8 list \<Rightarrow> nat \<Rightarrow> work \<Rightarrow> work" where
  "fips_rounds M 0 v = v"
| "fips_rounds M (Suc t) v =
     (case fips_rounds M t v of (a, b, c, d, e, f, g, h) \<Rightarrow>
        let T1 = h + fips_S1 e + fips_ch e f g + sha512_k ! t + fips_w M t; T2 = fips_S0 a + fips_maj a b c
        in (T1 + T2, a, b, c, d + T1, e, f, g))"

definition fips_compress :: "u64 list \<Rightarrow> u8 list \<Rightarrow> u64 list" where
  "fips_compress H M =
     (case fips_rounds M 80 (H ! 0, H ! 1, H ! 2, H ! 3, H ! 4, H ! 5, H ! 6, H ! 7) of (a, b, c, d, e, f, g, h) \<Rightarrow>
        map2 (+) H [a, b, c, d, e, f, g, h])"

lemma rot_right: "0 < n \<Longrightarrow> n < 64 \<Longrightarrow> ROT_RIGHT64 x n = word_rotr n x"
proof (rule bit_word_eqI)
  fix k assume n: "0 < n" "n < 64" and "k < LENGTH(64)"
  then have k: "k < 64" by simp
  show "bit (ROT_RIGHT64 x n) k = bit (word_rotr n x) k"
  proof (cases "k + n < 64")
    case True
    then show ?thesis using n k by (auto simp: ROT_RIGHT64_def bit_simps bit_word_rotr_iff add.commute)
  next
    case False
    then have "(k + n) mod 64 = k + n - 64" using n k by (simp add: mod_if)
    then show ?thesis using n k False by (auto simp: ROT_RIGHT64_def bit_simps bit_word_rotr_iff add.commute dest: bit_imp_le_length)
  qed
qed

lemma fips_functions:
  "CH x y z = fips_ch x y z" "MAJ x y z = fips_maj x y z" "EP0 x = fips_S0 x" "EP1 x = fips_S1 x" "SIG0 x = fips_s0 x" "SIG1 x = fips_s1 x"
proof -
  show "CH x y z = fips_ch x y z" by (rule bit_word_eqI) (auto simp: CH_def fips_ch_def bit_simps)
  show "MAJ x y z = fips_maj x y z" by (rule bit_word_eqI) (auto simp: MAJ_def fips_maj_def bit_simps)
qed (simp_all add: EP0_def EP1_def SIG0_def SIG1_def fips_S0_def fips_S1_def fips_s0_def fips_s1_def rot_right)

lemma byte_bit:
  assumes "r < 8" "q < 8"
  shows "bit (push_bit (8 * j) (ucast (b :: u8)) :: u64) (8 * q + r) \<longleftrightarrow> j = q \<and> bit b r"
proof (cases j q rule: linorder_cases)
  case less
  then have "8 \<le> 8 * q + r - 8 * j" by simp
  then show ?thesis using less bit_word_less [of b "8 * q + r - 8 * j"] by (auto simp: bit_simps)
qed (use assms in \<open>auto simp: bit_simps\<close>)

lemma load_be_word:
  assumes "length M = 128" "t < 16"
  shows "load_be M t = word_rcat (take 8 (drop (8 * t) M))"
proof (rule bit_word_eqI)
  fix n assume "n < LENGTH(64)"
  then have n: "n < 64" by simp
  define q r where "q = n div 8" and "r = n mod 8"
  have qr: "n = 8 * q + r" "r < 8" "q < 8" using n by (auto simp: q_def r_def)
  have l: "length (take 8 (drop (8 * t) M)) = 8" using assms by simp
  have "bit (word_rcat (take 8 (drop (8 * t) M)) :: u64) n = bit (rev (take 8 (drop (8 * t) M)) ! q) r"
    using n l qr(3) bit_horner_sum_uint_exp_iff [of "rev (take 8 (drop (8 * t) M))" n]
    by (simp add: word_rcat_def bit_word_of_int_iff q_def r_def)
  also have "rev (take 8 (drop (8 * t) M)) ! q = M ! (8 * t + (7 - q))" using l qr assms by (simp add: rev_nth)
  also have "bit \<dots> r = bit (load_be M t) n"
  proof -
    have "load_be M t = push_bit (8 * 7) (ucast (M ! (8 * t))) OR push_bit (8 * 6) (ucast (M ! (8 * t + 1))) OR
        push_bit (8 * 5) (ucast (M ! (8 * t + 2))) OR push_bit (8 * 4) (ucast (M ! (8 * t + 3))) OR
        push_bit (8 * 3) (ucast (M ! (8 * t + 4))) OR push_bit (8 * 2) (ucast (M ! (8 * t + 5))) OR
        push_bit (8 * 1) (ucast (M ! (8 * t + 6))) OR push_bit (8 * 0) (ucast (M ! (8 * t + 7)))"
      by (simp add: load_be_def mult.commute)
    then have "bit (load_be M t) n \<longleftrightarrow> (7 = q \<and> bit (M ! (8 * t)) r) \<or> (6 = q \<and> bit (M ! (8 * t + 1)) r) \<or>
        (5 = q \<and> bit (M ! (8 * t + 2)) r) \<or> (4 = q \<and> bit (M ! (8 * t + 3)) r) \<or> (3 = q \<and> bit (M ! (8 * t + 4)) r) \<or>
        (2 = q \<and> bit (M ! (8 * t + 5)) r) \<or> (1 = q \<and> bit (M ! (8 * t + 6)) r) \<or> (0 = q \<and> bit (M ! (8 * t + 7)) r)"
      unfolding qr(1) by (simp only: bit_or_iff byte_bit [OF qr(2,3)])
    moreover have "q = 0 \<or> q = 1 \<or> q = 2 \<or> q = 3 \<or> q = 4 \<or> q = 5 \<or> q = 6 \<or> q = 7" using qr(3) by linarith
    ultimately show ?thesis by (elim disjE) simp_all
  qed
  finally show "bit (load_be M t) n = bit (word_rcat (take 8 (drop (8 * t) M)) :: u64) n" by simp
qed

lemma extend_schedule_fips:
  assumes "16 \<le> k"
  shows "extend_schedule n (map (fips_w M) [0..<k]) = map (fips_w M) [0..<k + n]"
  using assms
proof (induction n arbitrary: k)
  case (Suc n)
  have "map (fips_w M) [0..<k] @ [SIG1 (fips_w M (k - 2)) + fips_w M (k - 7) + SIG0 (fips_w M (k - 15)) + fips_w M (k - 16)] =
      map (fips_w M) [0..<Suc k]"
    using Suc.prems by (simp add: fips_w.simps [of M k] fips_functions)
  then show ?case using Suc.IH [of "Suc k"] Suc.prems by (simp add: Let_def del: upt_Suc)
qed simp

lemma message_schedule_fips:
  assumes "length M = 128"
  shows "message_schedule M = map (fips_w M) [0..<80]"
proof -
  have e: "map (load_be M) [0..<16] = map (fips_w M) [0..<16]" using assms by (auto simp: load_be_word fips_w.simps)
  show ?thesis unfolding message_schedule_def e using extend_schedule_fips [of 16 64 M] by simp
qed

lemma rounds_fips:
  assumes "n \<le> 80"
  shows "foldl sha512_round v (zip (take n sha512_k) (map (fips_w M) [0..<n])) = fips_rounds M n v"
  using assms
proof (induction n)
  case (Suc n)
  have "length sha512_k = 80" by (simp add: sha512_k_def sha512_k_rows_def)
  then have "zip (take (Suc n) sha512_k) (map (fips_w M) [0..<Suc n]) =
      zip (take n sha512_k) (map (fips_w M) [0..<n]) @ [(sha512_k ! n, fips_w M n)]"
    using Suc.prems by (simp add: take_Suc_conv_app_nth)
  then show ?case using Suc by (simp add: fips_functions Let_def split: prod.split del: upt_Suc)
qed simp

text \<open>C9: The compression function is the one of FIPS 180-4: big-endian words, the recursive message schedule, rotations, and 80
  rounds, for every block and every chaining value.\<close>

theorem sha512_transform_fips:
  assumes "length (sha_state ctx) = 8" and "length M = 128"
  shows "sha512_transform ctx M = ctx\<lparr>sha_state := fips_compress (sha_state ctx) M\<rparr>"
proof -
  have k: "length sha512_k = 80" by (simp add: sha512_k_def sha512_k_rows_def)
  have l: "sha_state ctx = map (\<lambda>i. sha_state ctx ! i) [0..<8]" using map_nth [of "sha_state ctx"] assms(1) by simp
  have f: "foldl sha512_round v (zip sha512_k (message_schedule M)) = fips_rounds M 80 v" for v
    using rounds_fips [of 80 v M] k by (simp add: message_schedule_fips [OF assms(2)])
  have "map2 (+) (sha_state ctx) [a, b, c, d, e, f, g, h] = [sha_state ctx ! 0 + a, sha_state ctx ! 1 + b, sha_state ctx ! 2 + c,
      sha_state ctx ! 3 + d, sha_state ctx ! 4 + e, sha_state ctx ! 5 + f, sha_state ctx ! 6 + g, sha_state ctx ! 7 + h]" for a b c d e f g h
    by (subst l) (simp add: upt_rec eval_nat_numeral)
  then show ?thesis by (simp add: sha512_transform_def f fips_compress_def Let_def split: prod.split)
qed

definition blank_ctx :: sha512_context where
  "blank_ctx = \<lparr>sha_state = replicate 8 0, sha_count = 0, sha_buffer = replicate 128 0\<rparr>"

theorem sha512_transform_fips_witness:
  "sha512_transform blank_ctx (replicate 128 7) = blank_ctx\<lparr>sha_state := fips_compress (replicate 8 0) (replicate 128 7)\<rparr>"
  using sha512_transform_fips [of blank_ctx "replicate 128 7"] by (simp add: blank_ctx_def)

text \<open>The first 80 primes, and the fractions of their roots.\<close>

definition first_primes :: "nat list" where
  "first_primes =
     [2, 3, 5, 7, 11, 13, 17, 19, 23, 29, 31, 37, 41, 43, 47, 53, 59, 61, 67, 71, 73, 79, 83, 89, 97, 101, 103, 107, 109, 113, 127, 131,
      137, 139, 149, 151, 157, 163, 167, 173, 179, 181, 191, 193, 197, 199, 211, 223, 227, 229, 233, 239, 241, 251, 257, 263, 269, 271,
      277, 281, 283, 293, 307, 311, 313, 317, 331, 337, 347, 349, 353, 359, 367, 373, 379, 383, 389, 397, 401, 409]"

definition cube_frac :: "nat \<Rightarrow> u64 \<Rightarrow> bool" where
  "cube_frac p k \<longleftrightarrow> (\<exists>r. (r * 2 ^ 64 + unat k) ^ 3 \<le> p * 2 ^ 192 \<and> p * 2 ^ 192 < (r * 2 ^ 64 + unat k + 1) ^ 3)"

definition square_frac :: "nat \<Rightarrow> u64 \<Rightarrow> bool" where
  "square_frac p k \<longleftrightarrow> (\<exists>r. (r * 2 ^ 64 + unat k) ^ 2 \<le> p * 2 ^ 128 \<and> p * 2 ^ 128 < (r * 2 ^ 64 + unat k + 1) ^ 2)"

text \<open>The integer parts of the roots, for the proof.\<close>

definition root3 :: "nat \<Rightarrow> nat" where
  "root3 p = (if p < 8 then 1 else if p < 27 then 2 else if p < 64 then 3 else if p < 125 then 4 else if p < 216 then 5
     else if p < 343 then 6 else 7)"

definition root2 :: "nat \<Rightarrow> nat" where
  "root2 p = (if p < 4 then 1 else if p < 9 then 2 else if p < 16 then 3 else 4)"

lemma cube_fracI:
  "(root3 p * 2 ^ 64 + unat k) ^ 3 \<le> p * 2 ^ 192 \<Longrightarrow> p * 2 ^ 192 < (root3 p * 2 ^ 64 + unat k + 1) ^ 3 \<Longrightarrow> cube_frac p k"
  unfolding cube_frac_def by (intro exI [of _ "root3 p"] conjI)

lemma square_fracI:
  "(root2 p * 2 ^ 64 + unat k) ^ 2 \<le> p * 2 ^ 128 \<Longrightarrow> p * 2 ^ 128 < (root2 p * 2 ^ 64 + unat k + 1) ^ 2 \<Longrightarrow> square_frac p k"
  unfolding square_frac_def by (intro exI [of _ "root2 p"] conjI)

text \<open>C24: The constants are those of the standard: the 80 round constants are the first 64 bits of the fractions of the cube roots of
  the first 80 primes, and the initial chaining value those of the square roots of the first 8 primes.\<close>

theorem sha512_constants:
  "list_all2 cube_frac first_primes sha512_k \<and> list_all2 square_frac (take 8 first_primes) (sha_state (sha512_init ctx))"
proof
  show "list_all2 cube_frac first_primes sha512_k"
    unfolding first_primes_def sha512_k_def sha512_k_rows_def list.map concat.simps append_Cons append_Nil prod.case list_all2_Cons list_all2_Nil
    by (intro conjI TrueI cube_fracI) (simp_all add: root3_def)
  have "take 8 first_primes = [2, 3, 5, 7, 11, 13, 17, 19]" by (simp add: first_primes_def)
  then show "list_all2 square_frac (take 8 first_primes) (sha_state (sha512_init ctx))"
    by (simp add: sha512_init_def) (intro conjI square_fracI, simp_all add: root2_def)
qed

section \<open>Streaming and padding\<close>

lemma sha512_init_wf: "length (sha_buffer junk) = 128 \<Longrightarrow> sha_wf (sha512_init junk)"
  by (simp add: sha_wf_def sha512_init_def)

lemma pieces_count:
  "sha_wf c \<Longrightarrow> sha_count (foldl sha512_update c xss) = sha_count c + of_nat (length (concat xss)) * 8"
proof (induction xss arbitrary: c)
  case (Cons xs xss)
  then show ?case using sha512_update_view [OF Cons.prems, of xs] by (simp add: algebra_simps)
qed simp

text \<open>The digest depends on the view and the count only.\<close>

lemma sha512_final_cong:
  assumes "sha_wf c" "sha_wf c'" "sha_view c = sha_view c'" "sha_count c = sha_count c'"
  shows "fst (sha512_final c) = fst (sha512_final c')"
proof -
  have ix: "sha_index c = sha_index c'" using assms(4) by (simp add: sha_index_def)
  have step: "sha_wf (sha512_update a xs) \<and> sha_wf (sha512_update b xs) \<and> sha_view (sha512_update a xs) = sha_view (sha512_update b xs) \<and>
      sha_count (sha512_update a xs) = sha_count (sha512_update b xs)"
    if "sha_wf a" "sha_wf b" "sha_view a = sha_view b" "sha_count a = sha_count b" for a b xs
    using that sha512_update_view [OF that(1), of xs] sha512_update_view [OF that(2), of xs] by simp
  define pad where "pad = take (if sha_index c < 112 then 112 - sha_index c else 240 - sha_index c) padding"
  define len where "len = be_bytes (sha_count (sha512_update c pad)) @ replicate 8 0"
  note one = step [OF assms, of pad]
  have "sha_view (sha512_update (sha512_update c pad) len) = sha_view (sha512_update (sha512_update c' pad) len)"
    using step [of "sha512_update c pad" "sha512_update c' pad" len] one by blast
  then have "sha_state (sha512_update (sha512_update c pad) len) = sha_state (sha512_update (sha512_update c' pad) len)"
    by (simp add: sha_view_def)
  moreover have "len = be_bytes (sha_count (sha512_update c' pad)) @ replicate 8 0" using one by (simp add: len_def)
  ultimately show ?thesis unfolding sha512_final_def Let_def ix [symmetric] pad_def [symmetric] fst_conv len_def [symmetric] by metis
qed

text \<open>C22: Bytes may be hashed in any pieces: the chaining value and the waiting bytes depend only on the concatenation, and the digest
  is the same.\<close>

theorem sha512_pieces:
  assumes "length (sha_buffer junk) = 128" and "concat xss = concat yss"
  shows "sha_view (foldl sha512_update (sha512_init junk) xss) = sha_view (foldl sha512_update (sha512_init junk) yss) \<and>
    fst (sha512_final (foldl sha512_update (sha512_init junk) xss)) = compute_hash junk (concat yss)"
proof -
  note wf = sha512_init_wf [OF assms(1)]
  have "fst (sha512_final (foldl sha512_update (sha512_init junk) xss)) = fst (sha512_final (foldl sha512_update (sha512_init junk) [concat yss]))"
    using sha.pieces [OF wf] sha.upd_good [OF wf] sha.same_pieces [OF wf, of xss "[concat yss]"] pieces_count [OF wf, of xss] pieces_count [OF wf, of "[concat yss]"] assms(2)
    by (intro sha512_final_cong) auto
  then show ?thesis using sha.same_pieces [OF wf assms(2)] by (simp add: compute_hash_def)
qed

theorem sha512_pieces_witness:
  "fst (sha512_final (foldl sha512_update (sha512_init blank_ctx) [[1, 2], [3]])) = compute_hash blank_ctx [1, 2, 3]"
  using sha512_pieces [of blank_ctx "[[1, 2], [3]]" "[[1], [], [2, 3]]"] by (simp add: blank_ctx_def)

definition pad_length :: "nat \<Rightarrow> nat" where
  "pad_length n = (if n mod 128 < 112 then 112 - n mod 128 else 240 - n mod 128)"

text \<open>What the code appends to a message of \<open>n\<close> bytes, and what FIPS 180-4 appends: the length as a 128-bit number.\<close>

definition code_pad :: "nat \<Rightarrow> u8 list" where
  "code_pad n = take (pad_length n) padding @ be_bytes (of_nat (8 * (n + pad_length n))) @ replicate 8 0"

definition fips_pad :: "nat \<Rightarrow> u8 list" where
  "fips_pad n = take (pad_length n) padding @ be_bytes (of_nat (8 * n div 2 ^ 64)) @ be_bytes (of_nat (8 * n))"

lemma pad_facts: "pad_length n \<le> 128" "length (take (pad_length n) padding) = pad_length n" "(n + pad_length n + 16) mod 128 = 0"
proof -
  show "pad_length n \<le> 128" using mod_less_divisor [of 128 n] by (auto simp: pad_length_def)
  then show "length (take (pad_length n) padding) = pad_length n" by (simp add: padding_def)
  have "n mod 128 + pad_length n + 16 = (if n mod 128 < 112 then 128 else 256)"
    using mod_less_divisor [of 128 n] by (auto simp: pad_length_def)
  then have "(n mod 128 + (pad_length n + 16)) mod 128 = 0" by (auto simp: add.assoc split: if_splits)
  then show "(n + pad_length n + 16) mod 128 = 0" by (simp only: mod_add_left_eq add.assoc)
qed

lemma length_be_bytes [simp]: "length (be_bytes v) = 8"
  by (simp add: be_bytes_def)

lemma be_bytes_zero: "be_bytes v = replicate 8 0 \<Longrightarrow> v = 0"
proof (rule bit_word_eqI)
  fix n assume z: "be_bytes v = replicate 8 0" and "n < LENGTH(64)"
  then have n: "n < 64" by simp
  define q where "q = n div 8"
  have q: "q < 8" "8 * q + n mod 8 = n" using n by (auto simp: q_def)
  have "be_bytes v ! (7 - q) = 0" unfolding z using q by simp
  then have "ucast (drop_bit (8 * q) v AND 0xFF) = (0 :: u8)" 
    using q(1) nth_upt [of 0 "7 - q" 8] by (simp add: be_bytes_def diff_mult_distrib mult.commute [of 8 q])
  then have "bit (ucast (drop_bit (8 * q) v AND 0xFF) :: u8) (n mod 8) = False" by simp
  moreover have "(0xFF :: u64) = mask 8" by (simp add: mask_eq_exp_minus_1)
  moreover have "n mod 8 < 64" by (rule less_trans [of _ 8]) simp_all
  ultimately show "bit v n = bit 0 n" using q(2) by (simp add: bit_simps)
qed

lemma sha512_final_view:
  assumes "sha_wf ctx"
  shows "fst (sha512_final ctx) = concat (map be_bytes (fst (sha_feed (sha_view ctx)
    (take (pad_length (sha_index ctx)) padding @ be_bytes (sha_count ctx + of_nat (pad_length (sha_index ctx)) * 8) @ replicate 8 0))))"
proof -
  define p where "p = take (pad_length (sha_index ctx)) padding"
  have p: "length p = pad_length (sha_index ctx)" unfolding p_def by (rule pad_facts)
  have u: "sha_wf (sha512_update ctx p)" "sha_view (sha512_update ctx p) = sha_feed (sha_view ctx) p"
    "sha_count (sha512_update ctx p) = sha_count ctx + of_nat (pad_length (sha_index ctx)) * 8"
    using sha512_update_view [OF assms, of p] p by simp_all
  define l where "l = be_bytes (sha_count (sha512_update ctx p)) @ replicate 8 0"
  have "fst (sha512_final ctx) = concat (map be_bytes (sha_state (sha512_update (sha512_update ctx p) l)))"
    using sha_index_less [of ctx] by (simp add: sha512_final_def Let_def p_def pad_length_def l_def)
  moreover have "sha_state (sha512_update (sha512_update ctx p) l) = fst (sha_view (sha512_update (sha512_update ctx p) l))"
    by (simp add: sha_view_def)
  moreover have "sha_view (sha512_update (sha512_update ctx p) l) = sha_feed (sha_view ctx) (p @ l)"
    using sha512_update_view [OF u(1), of l] u(2) sha.feed_append [OF assms] by simp
  ultimately show ?thesis using u(3) by (simp add: l_def p_def)
qed

text \<open>C23: The digest is made from the chaining value of the padded message, which is a whole number of blocks. But the padding is never
  the one of the standard: the length field has its two halves exchanged and counts the padding, so that another message is compressed
  than the one SHA-512 compresses.\<close>

theorem compute_hash_padding:
  assumes "length (sha_buffer junk) = 128" and "length xs < 2 ^ 60"
  shows "compute_hash junk xs = concat (map be_bytes (fst (absorb (sha_state (sha512_init junk)) (xs @ code_pad (length xs))))) \<and>
    128 dvd length (xs @ code_pad (length xs)) \<and> length (code_pad (length xs)) = length (fips_pad (length xs)) \<and>
    code_pad (length xs) \<noteq> fips_pad (length xs)"
proof -
  define c n where "c = sha512_init junk" and "n = length xs"
  have w: "sha_wf c" using sha512_init_wf [OF assms(1)] by (simp add: c_def)
  have c0: "sha_count c = 0" "sha_index c = 0" by (simp_all add: c_def sha512_init_def sha_index_def)
  define u where "u = sha512_update c xs"
  have u: "sha_wf u" "sha_view u = sha_feed (sha_view c) xs" "sha_count u = of_nat n * 8"
    using sha512_update_view [OF w, of xs] c0 by (simp_all add: u_def n_def)
  have "sha_index u = n mod 128" using sha_index_add(1) [of 0 n] u(3) by (simp add: sha_index_def)
  then have p: "pad_length (sha_index u) = pad_length n" by (simp add: pad_length_def)
  have "compute_hash junk xs = concat (map be_bytes (fst (sha_feed (sha_view c) (xs @ code_pad n))))"
    using sha512_final_view [OF u(1)] sha.feed_append [OF w]
    by (simp add: compute_hash_def c_def [symmetric] u_def [symmetric] u(2,3) p code_pad_def algebra_simps)
  moreover have "sha_feed (sha_view c) ys = absorb (sha_state c) ys" for ys by (simp add: sha_feed_def sha_view_def c0(2))
  moreover have "128 dvd length (xs @ code_pad n)" using pad_facts(2,3) [of n] by (simp add: code_pad_def n_def [symmetric] algebra_simps mod_eq_0_iff_dvd)
  moreover have "be_bytes (of_nat (8 * (n + pad_length n))) \<noteq> be_bytes (of_nat (8 * n div 2 ^ 64))"
  proof
    assume e: "be_bytes (of_nat (8 * (n + pad_length n))) = be_bytes (of_nat (8 * n div 2 ^ 64))"
    have "be_bytes 0 = replicate 8 0" by (simp add: be_bytes_def map_replicate_const)
    then have "(of_nat (8 * (n + pad_length n)) :: u64) = 0" using e assms(2) by (intro be_bytes_zero) (simp add: n_def)
    moreover have "8 * (n + pad_length n) < 2 ^ 64" "0 < pad_length n"
      using assms(2) pad_facts(1) [of n] mod_less_divisor [of 128 n] by (auto simp: n_def pad_length_def)
    ultimately show False using unsigned_of_nat [of "8 * (n + pad_length n)", where 'a = nat and 'b = 64] by (simp add: take_bit_nat_eq_self)
  qed
  then have "code_pad n \<noteq> fips_pad n" by (simp add: code_pad_def fips_pad_def)
  moreover have "length (code_pad n) = length (fips_pad n)" by (simp add: code_pad_def fips_pad_def)
  ultimately show ?thesis by (simp add: n_def c_def)
qed

theorem compute_hash_padding_witness:
  "code_pad (length [0x61, 0x62, 0x63 :: u8]) \<noteq> fips_pad (length [0x61, 0x62, 0x63 :: u8])"
  using compute_hash_padding [of blank_ctx "[0x61, 0x62, 0x63]"] by (simp add: blank_ctx_def)

section \<open>Signature check\<close>

text \<open>C19: With the embedded key, the check accepts exactly the images that end in the magic string and are large enough, and an absent
  image; neither the signature nor the contents matter, and no image fails for its signature.\<close>

theorem verify_kernel_signature_accepts:
  "verify_kernel_signature junk m buf sz =
     (if buf = 0 \<or> sz = 0 \<or> (72 \<le> unat sz \<and> bytes_at m (buf + sz - 8) 8 = map of_char ''CELLSIG'' @ [0])
      then SIG_VERIFY_SUCCESS else SIG_VERIFY_NO_SIG)"
proof -
  have "key_is_zero ED25519_PUBLIC_KEY_SIZE g_kernel_public_key"
    by (simp add: ED25519_PUBLIC_KEY_SIZE_def g_kernel_public_key_def eval_nat_numeral)
  then have "ed25519_verify sig msg n g_kernel_public_key = 0" for sig msg n by (simp add: ed25519_verify_def)
  moreover have "has_magic m p \<longleftrightarrow> bytes_at m p 8 = map of_char ''CELLSIG'' @ [0]" for p
    by (simp add: has_magic_def bytes_at_def upt_rec) auto
  ultimately show ?thesis
    by (auto simp: verify_kernel_signature_def Let_def ED25519_SIGNATURE_SIZE_def word_less_nat_alt)
qed

end
