(* ===== verification/CK_Efi_Props.thy ===== *)
theory CK_Efi_Props
  imports CK_Efi CK_Efi_Alt CK_Verify_Props
begin

text \<open>
  The properties of the two loaders: what they check before they enter the kernel, and which memory
  map they hand over.
\<close>

unbundle bit_operations_syntax

section \<open>The loader in boot/efi\<close>

lemma verify_absent: "verify_kernel_signature junk m 0 0 = 0"
  by (simp add: verify_kernel_signature_def SIG_VERIFY_SUCCESS_def)

lemma measure_absent: "tpm_measure_image V stk m 0 0 pcr f = tpm_measure_image V stk m' 0 0 pcr f"
  by (simp add: tpm_measure_image_def)

lemma exit_boot_services_status: "fst (exit_boot_services F st h mm f) \<noteq> 26"
  by (simp add: exit_boot_services_def split_beta)

lemma exit_boot_services_key:
  assumes "exit_boot_services F st h mm f = (0, f')"
  shows "\<exists>m a f1. get_memory_map F st info_zero f = (m, a, f1) \<and> boot_slot11 F h (map_key a) f1 = (0, f')"
proof -
  obtain m a f1 where g: "get_memory_map F st info_zero f = (m, a, f1)" by (metis prod_cases3)
  obtain status f2 where "boot_slot11 F h (map_key a) f1 = (status, f2)" by fastforce
  then show ?thesis using assms g by (auto simp: exit_boot_services_def split: if_splits)
qed

text \<open>C20: The loader enters the kernel without examining it: no content of memory changes what it does and it never reports a security
  violation. The memory map that the kernel is given is the one of an earlier query than the query whose key ends the boot services.\<close>

theorem efi_main_unchecked:
  "efi_main F V stk junk m h st f = efi_main F V stk junk' m' h st f \<and>
   fst (efi_main F V stk junk m h st f) \<noteq> Returned EFI_SECURITY_VIOLATION \<and>
   (\<forall>mm sz ds f'. efi_main F V stk junk m h st f = (Kernel_entered mm sz ds, f') \<longrightarrow>
      mm \<noteq> 0 \<and> (\<exists>f1 f2 f3 f4 a m2 a2. get_memory_map F st info_zero f1 = (mm, a, f2) \<and> sz = map_size a \<and> ds = desc_size a \<and>
        get_memory_map F st info_zero
          (efi_print F (Some st) (''[*] Exiting EFI boot services...'' @ CRLF) (efi_print F (Some st) (''[+] Memory map acquired'' @ CRLF) f2))
          = (m2, a2, f3) \<and> boot_slot11 F h (map_key a2) f3 = (0, f4)))"
proof -
  have "efi_main F V stk junk m h st f = efi_main F V stk junk' m' h st f"
    by (simp only: efi_main_def verify_absent measure_absent [of V stk m _ _ m'])
  moreover have "fst (efi_main F V stk junk m h st f) \<noteq> Returned EFI_SECURITY_VIOLATION"
    by (simp add: efi_main_def verify_absent Let_def split_beta EFI_SECURITY_VIOLATION_def EFI_DEVICE_ERROR_def EFI_NOT_FOUND_def
        exit_boot_services_status del: append_Cons)
  moreover have "mm \<noteq> 0 \<and> (\<exists>f1 f2 f3 f4 a m2 a2. get_memory_map F st info_zero f1 = (mm, a, f2) \<and> sz = map_size a \<and> ds = desc_size a \<and>
        get_memory_map F st info_zero
          (efi_print F (Some st) (''[*] Exiting EFI boot services...'' @ CRLF) (efi_print F (Some st) (''[+] Memory map acquired'' @ CRLF) f2))
          = (m2, a2, f3) \<and> boot_slot11 F h (map_key a2) f3 = (0, f4))"
    if run: "efi_main F V stk junk m h st f = (Kernel_entered mm sz ds, f')" for mm sz ds f'
  proof -
    obtain f1 a f2 f5 where g: "get_memory_map F st info_zero f1 = (mm, a, f2)" "mm \<noteq> 0" "sz = map_size a" "ds = desc_size a" and
      x: "exit_boot_services F st h mm (efi_print F (Some st) (''[*] Exiting EFI boot services...'' @ CRLF)
            (efi_print F (Some st) (''[+] Memory map acquired'' @ CRLF) f2)) = (0, f5)"
      using run by (auto simp: efi_main_def verify_absent Let_def split: if_splits prod.splits simp del: append_Cons)
    show ?thesis using g exit_boot_services_key [OF x] by blast
  qed
  ultimately show ?thesis by blast
qed

text \<open>A firmware without output, whose queries succeed; its state counts them and is the key.\<close>

definition calm_firmware :: "u64 firmware" where
  "calm_firmware =
     \<lparr>out_slot5 = (\<lambda>_ _ n. n), boot_slot6 = (\<lambda>_ a _ n. (0, a\<lparr>map_size := 96, map_key := n, desc_size := 48\<rparr>, n + 1)),
      boot_slot4 = (\<lambda>_ _ n. (0, 0x5000, n)), boot_slot11 = (\<lambda>_ _ n. (0, n))\<rparr>"

definition calm_table :: EFI_SYSTEM_TABLE where
  "calm_table =
     \<lparr>Signature = 0, Revision = 0, HeaderSize = 0, CRC32 = 0, st_Reserved = 0, ConsoleInHandle = 0, SimpleInputProtocol = 0,
      ConsoleOutHandle = 0, SimpleOutputProtocol = 0, StandardErrorHandle = 0, SimpleErrorOutputProtocol = 0,
      RuntimeServices = 0, BootServices = 0x4000, NumberOfTableEntries = 0, ConfigurationTable = 0\<rparr>"

text \<open>No chip is present.\<close>

definition no_chip :: "u64 tpm_dev" where
  "no_chip = \<lparr>dev_read = (\<lambda>_ n. (0, n)), dev_write = (\<lambda>_ _ n. n)\<rparr>"

lemma no_chip_measure: "tpm_measure_image no_chip stk m 0 0 pcr f = (0, f)"
proof -
  have "init_loop no_chip n 0 f = (-1, f)" for n by (induction n) (simp_all add: no_chip_def tpm_read_register_def)
  then show ?thesis by (simp add: tpm_measure_image_def tpm_init_def tpm_read_register_def no_chip_def)
qed

theorem efi_main_unchecked_witness:
  "efi_main calm_firmware no_chip ([], []) blank_ctx (\<lambda>_. 0) 7 calm_table 0 = (Kernel_entered 0x5000 96 48, 4) \<and>
   (\<exists>f1 f2 f3 f4 a m2 a2. get_memory_map calm_firmware calm_table info_zero f1 = (0x5000, a, f2) \<and> 96 = map_size a \<and>
     get_memory_map calm_firmware calm_table info_zero f2 = (m2, a2, f3) \<and> boot_slot11 calm_firmware 7 (map_key a2) f3 = (0, f4))"
proof -
  have q: "efi_print calm_firmware (Some calm_table) str f = f" for str f by (simp add: efi_print_def calm_table_def)
  have g: "get_memory_map calm_firmware calm_table info_zero n = (0x5000, \<lparr>map_size = 96, map_key = n + 1, desc_size = 48, desc_version = 0\<rparr>, n + 2)"
    for n by (simp add: get_memory_map_def calm_firmware_def info_zero_def)
  have x: "exit_boot_services calm_firmware calm_table h mm n = (0, n + 2)" for h mm n
    by (simp add: exit_boot_services_def g) (simp add: calm_firmware_def)
  have run: "efi_main calm_firmware no_chip ([], []) blank_ctx (\<lambda>_. 0) 7 calm_table 0 = (Kernel_entered 0x5000 96 48, 4)"
    by (simp add: efi_main_def q verify_absent no_chip_measure g x del: append_Cons)
  then show ?thesis
    using efi_main_unchecked [of calm_firmware no_chip "([], [])" blank_ctx "\<lambda>_. 0" 7 calm_table 0 blank_ctx "\<lambda>_. 0"] by (simp add: q) blast
qed

section \<open>The loader in CellKernel/boot/efi\<close>

lemma EFI_ERROR_False: "\<not> EFI_ERROR Status"
proof -
  have "sint (ucast Status :: u64) = uint Status"
    using uint_bounded [of Status] order_trans [OF _ uint_ge_0, of "- 9223372036854775808" Status] signed_take_bit_int_eq_self [of 63 "uint Status"] by (simp add: sint_uint uint_up_ucast is_up)
  then show ?thesis by (simp add: EFI_ERROR_def)
qed

lemma VerifyKernelImage_verdict:
  assumes "ext_verify F b n (Print_fmt F (''[INFO] Verifying kernel signature...'' @ CRNL) f) = (v, f1)"
  shows "\<exists>f2. VerifyKernelImage F b n f = (v, f2)" 
    "\<not> v \<Longrightarrow> VerifyKernelImage F b n f = (False, Print_fmt F (''[ERROR] Kernel signature verification FAILED!'' @ CRNL) f1)"
  using assms by (auto simp: VerifyKernelImage_def Let_def split_beta simp del: append_Cons)

lemma LoadAndStartKernel_run:
  assumes "ext_verify F ks (ke - ks) (Print_fmt F (''[INFO] Verifying kernel signature...'' @ CRNL)
      (Print_fmt F (''[INFO] Kernel size: %lu bytes'' @ CRNL) (Print_fmt F (CRNL @ ''[INFO] Kernel image at: 0x%p'' @ CRNL) f))) = (v, f1)"
  shows "v \<Longrightarrow> \<exists>g' f'. LoadAndStartKernel F magic h ks ke st cmd g f = (EFI_SUCCESS_32,
      Some \<lparr>h_Magic = magic, h_Version = 1, h_MemoryMap = gMemoryMap g, h_MemoryMapSize = gMemoryMapSize g,
        h_DescriptorSize = gMemoryMapDescriptorSize g, h_DescriptorVersion = gMemoryMapDescriptorVersion g,
        h_SystemTable = st, h_Cmdline = cmd\<rparr>, g', f')"
    "\<not> v \<Longrightarrow> LoadAndStartKernel F magic h ks ke st cmd g f = (EFI_SECURITY_VIOLATION_32, None, g,
      Print_fmt F (''[FATAL] Kernel verification failed. Halting.'' @ CRNL)
        (Print_fmt F (''[ERROR] Kernel signature verification FAILED!'' @ CRNL) f1))"
  using VerifyKernelImage_verdict [OF assms] by (auto simp: LoadAndStartKernel_def Let_def split_beta EFI_ERROR_False simp del: append_Cons)

lemma efi_codes_no_error: "list_all (\<lambda>(name, n). bit (efi_code n) 31 \<and> \<not> EFI_ERROR (efi_code n)) efi_codes"
  by (simp add: EFI_ERROR_False list_all_iff efi_codes_def efi_code_def bit_simps del: set_simps)

text \<open>C21: The loader always returns or enters the kernel, as the verdict on the signature says. Every other failure is overlooked,
  because no status code counts as an error: the kernel is entered whatever the query for the memory map and the end of the boot
  services answer, with the memory map of the globals before that query, which is the null pointer. After a bad signature the
  loader just returns, without the reset.\<close>

theorem alt_efi_main_handoff:
  "list_all (\<lambda>(name, n). bit (efi_code n) 31 \<and> \<not> EFI_ERROR (efi_code n)) efi_codes \<and>
   (\<exists>f0 v f1. ext_verify F ks (ke - ks) f0 = (v, f1) \<and>
     (if v
      then \<exists>g' f'. alt_efi_main F magic h ks ke st cmd \<lparr>gMemoryMap = 0, gMemoryMapSize = 0, gMemoryMapDescriptorSize = 0, gMemoryMapDescriptorVersion = 0\<rparr> f =
        Some (EFI_SUCCESS_32, Some \<lparr>h_Magic = magic, h_Version = 1, h_MemoryMap = 0, h_MemoryMapSize = 0, h_DescriptorSize = 0,
          h_DescriptorVersion = 0, h_SystemTable = st, h_Cmdline = cmd\<rparr>, g', f')
      else alt_efi_main F magic h ks ke st cmd \<lparr>gMemoryMap = 0, gMemoryMapSize = 0, gMemoryMapDescriptorSize = 0, gMemoryMapDescriptorVersion = 0\<rparr> f =
        Some (EFI_SECURITY_VIOLATION_32, None, \<lparr>gMemoryMap = 0, gMemoryMapSize = 0, gMemoryMapDescriptorSize = 0, gMemoryMapDescriptorVersion = 0\<rparr>,
          Print_fmt F (''[FATAL] Kernel verification failed. Halting.'' @ CRNL)
            (Print_fmt F (''[ERROR] Kernel signature verification FAILED!'' @ CRNL) f1))))"
proof -
  define g where "g = \<lparr>gMemoryMap = 0, gMemoryMapSize = 0, gMemoryMapDescriptorSize = 0, gMemoryMapDescriptorVersion = 0\<rparr>"
  define f4 where "f4 = Print_fmt F (''[INFO] Initializing TPM 2.0...'' @ CRNL)
    (snd (VerifySecureBoot F (foldl (\<lambda>f str. Print_wide F str f) (SetCursorPosition F 0 0 (ClearScreen F f)) loader_banner)))"
  have m: "alt_efi_main F magic h ks ke st cmd g f = Some (LoadAndStartKernel F magic h ks ke st cmd g f4)"
    by (simp add: alt_efi_main_def EFI_ERROR_False split_beta Let_def f4_def del: append_Cons)
  define f0 where "f0 = Print_fmt F (''[INFO] Verifying kernel signature...'' @ CRNL)
      (Print_fmt F (''[INFO] Kernel size: %lu bytes'' @ CRNL) (Print_fmt F (CRNL @ ''[INFO] Kernel image at: 0x%p'' @ CRNL) f4))"
  obtain v f1 where v: "ext_verify F ks (ke - ks) f0 = (v, f1)" by fastforce
  note run = LoadAndStartKernel_run [OF v [unfolded f0_def], of magic h st cmd g]
  show ?thesis unfolding g_def [symmetric] m
    by (intro conjI efi_codes_no_error exI [of _ f0] exI [of _ v] exI [of _ f1] v)
      (use run in \<open>cases v; simp add: g_def del: append_Cons\<close>)
qed

end
