(* ===== verification/Spec2Isabelle.thy ===== *)
theory Spec2Isabelle
  imports CK_Paging_Boot CK_Slab_Task CK_Ipc_Calls CK_Start CK_Bounds CK_Tpm_Props CK_Efi_Props
begin

text \<open>
  Verification library for CellKernel, a small x86-64 kernel in C.

  \<^bold>\<open>The program.\<close> A loader (\<open>boot/efi\<close>, or the second one in \<open>CellKernel/boot/efi\<close>) checks the signature
  of the kernel and measures it (\<open>boot/secure\<close>), fetches the memory map, ends the boot services of the
  firmware and calls \<open>kernel_main\<close> (\<open>kernel/core/main.c\<close>). That prints to the serial console and initialises
  the parts of the kernel in turn: interrupts, scheduler, system calls, message channels and files. Threads and
  channels get their memory from \<open>kmalloc\<close> (\<open>kernel/memory/slab.c\<close>), which takes pages from the buddy
  allocator (\<open>frame_alloc.c\<close>), as the page tables do (\<open>paging.c\<close>).

  \<^bold>\<open>State.\<close> The global variables of the kernel are one record per source file, each extending the one of the
  file it calls: \<open>frame_state\<close>, \<open>paging_state\<close>, \<open>slab_state\<close>, \<open>ipc_state\<close>, \<open>sched_state\<close>, \<open>serial_state\<close>,
  \<open>vfs_state\<close>, \<open>syscall_state\<close>, \<open>intr_state\<close>, \<open>panic_state\<close>, \<open>kernel_state\<close>. An operation works on any extension of
  its record, so that it runs unchanged in the state of the whole kernel. Memory is a function from addresses to
  bytes where links and tables live in it; structs that are only reached by pointers are stores indexed by address.
  Integers are words of the C width. Undefined behaviour, and a loop that never ends, is the result \<open>None\<close>.

  \<^bold>\<open>Theories and sources.\<close>
    \<^item> \<open>CK_Prelude\<close>: words, memory, lists in memory. \<open>CK_KernelH\<close>: \<open>kernel/include/kernel.h\<close>.
    \<^item> \<open>CK_Frame\<close>, with \<open>_Inv\<close>, \<open>_Free\<close>, \<open>_Props\<close>: \<open>kernel/memory/frame_alloc.c\<close>. The abstract state is the set of
      free blocks; allocation and release remove and add exactly the pages of the block.
    \<^item> \<open>CK_Page_Source\<close>: the contract of \<open>alloc_page\<close> for its clients, a locale interpreted on the frame allocator.
    \<^item> \<open>CK_Paging\<close>, with \<open>_Inv\<close>, \<open>_Props\<close>: \<open>paging.c\<close>, against the page walk of the processor. \<open>CK_Paging_Boot\<close>: the
      translation that \<open>paging_init\<close> leaves behind, page by page, and the pages it needs for it.
    \<^item> \<open>CK_Slab\<close>, with \<open>_Inv\<close>, \<open>_Ops\<close>, \<open>_Free\<close>, \<open>_Props\<close>: \<open>slab.c\<close>, against lists of slabs and of free objects.
      \<open>CK_Slab_Task\<close>: what a release does to the cache \<open>task_struct\<close> that \<open>slab_init_subsystem\<close> makes.
    \<^item> \<open>CK_Ring\<close>: bounded queues as a locale. \<open>CK_Ipc\<close>, with \<open>_Inv\<close>, \<open>_Steps\<close>, \<open>_Create\<close>, \<open>_Props\<close>: \<open>kernel/ipc/message.c\<close>;
      a channel is such a queue, also under every interleaving of one sender with the receiver. \<open>CK_Ipc_Calls\<close>: the
      runs of the interleaved steps of one side are exactly the sequences of its calls.
    \<^item> \<open>CK_Sched\<close>, \<open>CK_List_Head\<close>, with \<open>_Inv\<close>, \<open>_Init\<close>, \<open>_Props\<close>: \<open>kernel/core/scheduling.c\<close> over the locale
      \<open>sched_api\<close> of the list primitives, which circular doubly linked lists satisfy.
    \<^item> \<open>CK_Serial\<close>, \<open>CK_Main\<close>: \<open>kernel/core/main.c\<close>. \<open>CK_Vfs\<close>: \<open>filesystems/vfs/vfs_core.c\<close>. \<open>CK_Syscalls\<close>,
      \<open>CK_Interrupts\<close>, \<open>CK_Panic\<close>: the files of these names in \<open>kernel/core\<close>. Their properties are in
      \<open>CK_Vfs_Props\<close>, \<open>CK_Core_Props\<close>, \<open>CK_Typing\<close> (the tables keep their sizes under every sequence of calls) and
      \<open>CK_Bounds\<close> (no call reads or writes behind them).
      \<open>CK_Bss\<close> is the state at entry, \<open>CK_Start\<close> the rules for sequences of calls that end and the phases of the start.
    \<^item> \<open>CK_Sha512\<close>, \<open>CK_Sha512_Inv\<close>, \<open>CK_Verify\<close>, \<open>CK_Verify_Props\<close>: \<open>boot/secure/verify_signature.c\<close>; the locale
      \<open>incremental\<close> is the contract of hashing in pieces. \<open>CK_Tpm\<close>, \<open>CK_Tpm_Props\<close>: \<open>boot/secure/tpm_measure.c\<close>.
    \<^item> \<open>CK_Efi\<close>: \<open>boot/efi\<close>. \<open>CK_Efi_Alt\<close>: \<open>CellKernel/boot/efi\<close>. \<open>CK_Efi_Props\<close>: both.
    \<^item> This theory: the start of the kernel as a whole, across its components.

  \<^bold>\<open>Parameters.\<close> Code outside the sources is an argument: the conversion between physical and virtual addresses,
  list primitives and lock of the scheduler, the functions of filesystems and drivers, the serial device, the TPM
  chip, the firmware, the addresses of assembly stubs and of the linker script, the time, and what uninitialised
  variables on the stack hold. Names the code uses without declaring them, and expressions C does not accept, are
  modelled as what they are meant to be, which the theories say, or are arguments as well.

  \<^bold>\<open>Loops.\<close> No loop has fuel. Loops with a bound in the code recurse on it: 1000000 polls of the TPM chip, 80 rounds,
  orders up to 11. Loops that may not end are partial functions with result \<open>None\<close>: the wait for the serial device
  (it ends on a device that keeps becoming ready), the walks over linked lists (they end on lists that satisfy the
  invariants), the identity map (it ends when its end is at most \<open>2 ^ 64 - 4096\<close>), and the wait for a key.

  \<^bold>\<open>What the properties show.\<close> Besides the correctness of the operations there are properties that state what the
  code does where it differs from its intention, among them: no memory reaches the allocators at the start, two
  concurrent senders lose a message, releasing a \<open>task_struct\<close> object breaks its cache, the kernel image is mapped
  as not executable, the tick of the scheduler breaks its queue, the signature check accepts any signature, and the
  measurement does not depend on the image.

  \<^bold>\<open>Not modelled.\<close> The assembly in \<open>boot/bios\<close> and \<open>boot/multiboot\<close> (it needs a processor semantics), the linker
  script and the build files, the declarations of \<open>kernel.h\<close> and of the two \<open>protocols.h\<close> that no modelled function
  uses, and the Python program in \<open>Cellkernelqwen\<close>, which shares no code with the kernel. Of the processor there are
  only the registers, ports and the TLB that the code touches; interrupts do not occur between the steps of an
  operation, except for the interleaved steps of channels, and memory is sequentially consistent.
\<close>

section \<open>The start of the kernel\<close>

lemma bss_no_memory: "no_memory (bss m)"
proof -
  have "frame_inv (bss m)" "free_pfns (bss m) = {}"
    using frame_inv_empty [of "bss m"] by (auto simp: bss_def shape_def area_def zone_zero_def)
  then show ?thesis by (simp add: no_memory_def bss_def)
qed

lemma bss_start:
  "g_next_fd (bss m) = 0" "length (g_runqueues (bss m)) = 256" "linked (run_links (bss m)) Map.empty"
  by (simp_all add: bss_def linked_def queues_ok_def)

lemma kernel_main_divides: "kernel_main D calloc E stub idt entry ks ke mm sz 0 s = None"
proof -
  have False if run: "kernel_main D calloc E stub idt entry ks ke mm sz 0 s = Some t" for t
  proof -
    obtain u v w where p: "print_calls D banner (s\<lparr>g_memory_map := mm, g_memory_map_size := sz, g_descriptor_size := 0\<rparr>) = Some u"
      "print_calls D [Print ''[*] Kernel loaded at: '', Hex ks, Print '' - '', Hex ke, Println []] u = Some v" "print_memory_map D v = Some w"
      using run by (auto simp: kernel_main_def print_banner_def bind_eq_Some_conv)
    then show False using p(1,2) [THEN print_calls_only] by (auto simp: print_memory_map_def console_only_def)
  qed
  then show ?thesis by (cases "kernel_main D calloc E stub idt entry ks ke mm sz 0 s") blast+
qed

text \<open>C7: The kernel boots: on a console that keeps becoming ready, from a state without free memory, descriptors or queued threads (as
  when all global variables are zero), \<open>kernel_main\<close> reaches the idle loop with interrupts on. Then the run queues are consistent
  and empty, every listed gate leads to its stub, the system calls are the seven registered ones, the channel table is empty, no
  descriptor was given out, no file has an inode and the first mount point is the root. A descriptor size of zero instead ends in
  a division fault.\<close>

theorem kernel_main_boots:
  assumes "uart_live D" and "sched_api E repr" and "calloc_more calloc" and "e_thread_size E \<le> MAX_OBJECT_SIZE" and "0 < e_cpu_count E"
    and "no_memory s" and "g_next_fd s = 0" and "length (g_runqueues s) = 256" and "repr (run_links s) Map.empty"
  shows "if ds = 0 then kernel_main D calloc E stub idt entry ks ke mm sz ds s = None
    else \<exists>t. kernel_main D calloc E stub idt entry ks ke mm sz ds s = Some t \<and> interrupt_flag t \<and>
      sched_inv E repr (\<lambda>_. []) t \<and> (\<forall>(n, h) \<in> set (exception_gates @ irq_gates). gate_offset (g_idt t ! unat n) = stub h) \<and>
      g_syscall_table t = boot_table \<and> g_channels t = replicate 1024 0 \<and> g_next_fd t = 0 \<and> files_inv t \<and> m_path (g_mount_points t ! 0) = ''/''"
proof (cases "ds = 0")
  case False
  obtain t where "kernel_main D calloc E stub idt entry ks ke mm sz ds s = Some t" "phase5 (g_zones s) (mem s) E repr stub t" "interrupt_flag t"
    using kernel_main_phases [OF assms False] unfolding ends_def by blast
  then show ?thesis using False by (simp add: phase5_def phase4_def phase3_def phase2_def base_ok_def gates_set_def del: set_append)
qed (simp add: kernel_main_divides)

theorem kernel_main_boots_witness:
  "\<exists>t. kernel_main ready_uart calloc_none demo_env (\<lambda>_. 0x1000) 0 0 0 0 0 96 48 (bss (\<lambda>_. 0)) = Some t \<and> interrupt_flag t \<and> files_inv t"
  using kernel_main_boots [OF ready_uart_live demo_api demo_calloc demo_sched_links(3,4) bss_no_memory bss_start, where ds = 48 and stub = "\<lambda>_. 0x1000" and m1 = "\<lambda>_. 0"] by simp blast

text \<open>C8: Nothing hands the memory to the frame allocator: after the start every page allocation, every small \<open>kmalloc\<close> and every
  creation of a channel fails, and the first processor has no idle thread.\<close>

theorem kernel_main_no_memory:
  assumes "uart_live D" and "sched_api E repr" and "calloc_more calloc" and "e_thread_size E \<le> MAX_OBJECT_SIZE" and "0 < e_cpu_count E"
    and "no_memory s" and "g_next_fd s = 0" and "length (g_runqueues s) = 256" and "repr (run_links s) Map.empty"
    and "kernel_main D calloc E stub idt entry ks ke mm sz ds s = Some t"
  shows "alloc_pages order z t = (0, t) \<and> (n \<le> MAX_OBJECT_SIZE \<longrightarrow> kmalloc calloc n t = Some (0, t)) \<and>
    (\<exists>t'. ipc_channel_create calloc a b now t = Some (0, t') \<and> g_channels t' = g_channels t) \<and> rq_idle_thread (get_rq 0 t) = 0"
proof -
  have "ds \<noteq> 0" using assms(10) kernel_main_divides by (metis option.distinct(1))
  then have p: "phase5 (g_zones s) (mem s) E repr stub t"
    using kernel_main_phases [OF assms(1-9), of ds stub idt entry ks ke mm sz] by (simp add: ends_def assms(10))
  then have "no_memory t" using assms(6) no_memory_cong [of t s]
    by (simp add: phase5_def phase4_def phase3_def phase2_def base_ok_def no_memory_def)
  moreover have "rq_idle_thread (get_rq 0 t) = 0" using p by (simp add: phase5_def phase4_def phase3_def phase2_def)
  ultimately show ?thesis using no_memory_alloc no_memory_kmalloc(1) no_memory_channel by blast
qed

theorem kernel_main_no_memory_witness:
  "\<exists>t. kernel_main ready_uart calloc_none demo_env (\<lambda>_. 0x1000) 0 0 0 0 0 96 48 (bss (\<lambda>_. 0)) = Some t \<and> alloc_pages 0 1 t = (0, t)"
proof -
  note start = ready_uart_live demo_api demo_calloc demo_sched_links(3,4) bss_no_memory bss_start
  obtain t where t: "kernel_main ready_uart calloc_none demo_env (\<lambda>_. 0x1000) 0 0 0 0 0 96 48 (bss (\<lambda>_. 0)) = Some t"
    using kernel_main_phases [OF start, of 48] unfolding ends_def by simp blast
  then show ?thesis using kernel_main_no_memory [OF start t] by blast
qed

end
